(* ===== verification/Prelude.thy ===== *)
theory Prelude
  imports Main "HOL-Library.Multiset"
begin

section \<open>Shared vocabulary\<close>

text \<open>
  Names and generic lemmas shared by every component: addresses, panics as values of a sum
  type, the allocator that Rust's \<open>Rc\<close> relies on, and the lemmas on sums of multisets over
  updated lists from which the reference-count accounting is built.
\<close>

named_theorems heap_simps \<open>reading a heap cell after an update\<close>
named_theorems refs_simps \<open>how an update changes the multiset of stored references\<close>

subsection \<open>Panics\<close>

text \<open>
  A call that can panic returns a value of the sum type \<open>panic + 'a\<close>: \<open>Inl\<close> for the panic
  (an \<open>expect\<close> with its message, an \<open>unwrap\<close>, an \<open>assert!\<close>, an explicit \<open>panic!\<close>),
  \<open>Inr\<close> for the returned value.
\<close>

datatype panic = Expect string | Unwrap | Assert | Explicit string

type_synonym 'a res = "panic + 'a"

definition and_then :: "'a res \<Rightarrow> ('a \<Rightarrow> 'b res) \<Rightarrow> 'b res" where
  "and_then x f = (case x of Inl p \<Rightarrow> Inl p | Inr y \<Rightarrow> f y)"

lemma and_then_simps [simp]:
  "and_then (Inl p) f = Inl p"
  "and_then (Inr y) f = f y"
  by (simp_all add: and_then_def)

lemma and_then_Inr_iff: "and_then x f = Inr z \<longleftrightarrow> (\<exists>y. x = Inr y \<and> f y = Inr z)"
  by (cases x) auto

definition expect :: "string \<Rightarrow> 'a option \<Rightarrow> 'a res" where
  "expect msg x = (case x of None \<Rightarrow> Inl (Expect msg) | Some y \<Rightarrow> Inr y)"

lemma expect_simps [simp]:
  "expect msg None = Inl (Expect msg)"
  "expect msg (Some y) = Inr y"
  by (simp_all add: expect_def)

lemma expect_Inr_iff [simp]: "expect msg x = Inr y \<longleftrightarrow> x = Some y"
  by (cases x) auto

text \<open>A loop that collects results and stops at the first panic.\<close>

fun map_res :: "('a \<Rightarrow> 'b res) \<Rightarrow> 'a list \<Rightarrow> 'b list res" where
  "map_res f [] = Inr []"
| "map_res f (x # xs) = and_then (f x) (\<lambda>y. and_then (map_res f xs) (\<lambda>ys. Inr (y # ys)))"

lemma map_res_Inr_iff: "map_res f xs = Inr ys \<longleftrightarrow> list_all2 (\<lambda>x y. f x = Inr y) xs ys"
  by (induction xs arbitrary: ys) (auto simp: and_then_Inr_iff list_all2_Cons1)

lemma map_res_map: "(\<And>x. x \<in> set xs \<Longrightarrow> f x = Inr (g x)) \<Longrightarrow> map_res f xs = Inr (map g xs)"
  by (induction xs) simp_all

lemma map_res_Inl:
  "(\<exists>p. map_res f xs = Inl p) \<longleftrightarrow> (\<exists>x\<in>set xs. \<exists>p. f x = Inl p)"
  by (induction xs) (auto simp: and_then_def split: sum.splits)

subsection \<open>Addresses and the allocator\<close>

text \<open>
  The memory allocator is not part of the repository. It is a parameter \<open>al\<close> of every
  operation that allocates: it sees which cells are occupied and picks the address of the
  next allocation. All that is assumed of it is \<open>alloc_ok\<close>: the address it picks is not
  occupied. In particular it may reuse the address of a freed cell.
\<close>

type_synonym addr = nat
type_synonym allocator = "bool list \<Rightarrow> addr"

definition alloc_ok :: "allocator \<Rightarrow> bool" where
  "alloc_ok al \<longleftrightarrow> (\<forall>bs. al bs \<le> length bs \<and> (al bs < length bs \<longrightarrow> \<not> bs ! al bs))"

text \<open>The eager allocator, which reuses the first free cell.\<close>

fun first_free :: allocator where
  "first_free [] = 0"
| "first_free (b # bs) = (if b then Suc (first_free bs) else 0)"

lemma first_free_ok: "alloc_ok first_free"
proof -
  have "first_free bs \<le> length bs \<and> (first_free bs < length bs \<longrightarrow> \<not> bs ! first_free bs)" for bs
    by (induction bs) auto
  then show ?thesis by (simp add: alloc_ok_def)
qed

subsection \<open>Sums over updated lists\<close>

lemma sum_list_update_cancel:
  fixes f :: "'a \<Rightarrow> 'b::cancel_comm_monoid_add"
  shows "i < length xs \<Longrightarrow> sum_list (map f (xs[i := y])) + f (xs ! i) = sum_list (map f xs) + f y"
proof (induction xs arbitrary: i)
  case Nil
  then show ?case by simp
next
  case (Cons x xs)
  show ?case
  proof (cases i)
    case 0
    then show ?thesis by (simp add: ac_simps)
  next
    case (Suc j)
    with Cons.prems have "sum_list (map f (xs[j := y])) + f (xs ! j) = sum_list (map f xs) + f y"
      by (intro Cons.IH) simp
    with Suc show ?thesis by (simp add: ac_simps)
  qed
qed

lemma sum_list_update_same:
  fixes f :: "'a \<Rightarrow> 'b::comm_monoid_add"
  assumes "f y = f (xs ! i)"
  shows "sum_list (map f (xs[i := y])) = sum_list (map f xs)"
proof (cases "i < length xs")
  case True
  with assms have "map f (xs[i := y]) = map f xs"
    by (auto simp: list_eq_iff_nth_eq nth_list_update)
  then show ?thesis by simp
qed (simp add: list_update_beyond)

fun opt_mset :: "'a option \<Rightarrow> 'a multiset" where
  "opt_mset None = {#}"
| "opt_mset (Some x) = {#x#}"

lemma in_opt_mset [simp]: "x \<in># opt_mset y \<longleftrightarrow> y = Some x"
  by (cases y) auto

lemma set_map_filter_iff [simp]: "y \<in> set (List.map_filter f xs) \<longleftrightarrow> (\<exists>x\<in>set xs. f x = Some y)"
  by (induction xs) (auto simp: map_filter_simps split: option.splits)

lemma mset_map_filter_distinct:
  "distinct xs \<Longrightarrow> mset (List.map_filter f xs) = (\<Sum>x\<in>set xs. opt_mset (f x))"
  by (induction xs) (auto simp: map_filter_simps split: option.splits)

lemma map_snd_map_filter:
  "map snd (List.map_filter (\<lambda>k. map_option (Pair k) (f k)) ks) = List.map_filter f ks"
  by (induction ks) (simp_all add: map_filter_simps split: option.splits)

lemma map_fst_map_filter:
  "map fst (List.map_filter (\<lambda>k. map_option (Pair k) (f k)) ks) = filter (\<lambda>k. f k \<noteq> None) ks"
  by (induction ks) (simp_all add: map_filter_simps split: option.splits)

lemma map_filter_all_Some: "(\<And>x. x \<in> set xs \<Longrightarrow> f x = Some (g x)) \<Longrightarrow> List.map_filter f xs = map g xs"
  by (induction xs) (simp_all add: map_filter_simps)

lemma option_eqI: "(\<And>a. x = Some a \<longleftrightarrow> y = Some a) \<Longrightarrow> x = y"
  by (metis option.exhaust)

lemma restrict_map_superset: "dom m \<subseteq> A \<Longrightarrow> m |` A = m"
  by (rule ext) (metis domIff restrict_map_def subsetD)

lemma map_le_upd_fresh: "f \<subseteq>\<^sub>m g \<Longrightarrow> a \<notin> dom g \<Longrightarrow> f \<subseteq>\<^sub>m g(a \<mapsto> v)"
  unfolding map_le_def by (metis domIff fun_upd_other)

lemma in_sum_list_mset: "x \<in># sum_list (map f xs) \<longleftrightarrow> (\<exists>y\<in>set xs. x \<in># f y)"
  by (induction xs) auto

end
