(* ===== verification/Rc_Heap.thy ===== *)
theory Rc_Heap
  imports Prelude
begin

section \<open>The heap of reference-counted cells\<close>

text \<open>
  \<open>RelRc\<close> is a wrapper of \<open>std::rc::Rc\<close>. This theory is the part of \<open>std::rc\<close> that the
  repository uses: an allocation (\<open>rcbox\<close>) holds a strong count, a weak count and the value,
  which is gone once the strong count has reached zero. As in the standard library, all the
  strong references together own one implicit weak reference, and the cell is given back to the
  allocator when the weak count reaches zero. A heap is the list of cells, indexed by address.
\<close>

record 'a rcbox =
  strong :: nat
  weak :: nat
  payload :: "'a option"

definition free_box :: "'a rcbox" where
  "free_box = \<lparr>strong = 0, weak = 0, payload = None\<rparr>"

type_synonym 'a heap = "'a rcbox list"

definition box :: "'a heap \<Rightarrow> addr \<Rightarrow> 'a rcbox" where
  "box h a = (if a < length h then h ! a else free_box)"

abbreviation deref :: "'a heap \<Rightarrow> addr \<Rightarrow> 'a option" where
  "deref h a \<equiv> payload (box h a)"

definition upd :: "addr \<Rightarrow> ('a rcbox \<Rightarrow> 'a rcbox) \<Rightarrow> 'a heap \<Rightarrow> 'a heap" where
  "upd a f h = h[a := f (box h a)]"

definition occupied :: "'a heap \<Rightarrow> bool list" where
  "occupied h = map (\<lambda>b. 0 < weak b) h"

definition put :: "addr \<Rightarrow> 'a rcbox \<Rightarrow> 'a heap \<Rightarrow> 'a heap" where
  "put a b h = (if a < length h then h[a := b] else h @ [b])"

subsection \<open>The operations of \<open>Rc\<close> and \<open>Weak\<close>\<close>

definition strong_count :: "addr \<Rightarrow> 'a heap \<Rightarrow> nat" where
  "strong_count a h = strong (box h a)"

definition rc_new :: "allocator \<Rightarrow> 'a \<Rightarrow> 'a heap \<Rightarrow> addr \<times> 'a heap" where
  "rc_new al v h =
     (let a = al (occupied h) in (a, put a \<lparr>strong = 1, weak = 1, payload = Some v\<rparr> h))"

text \<open>
  \<open>Rc::new_cyclic\<close> in its two halves: the allocation, during which only weak references
  exist, and the initialisation with the value that the closure returned.
\<close>

definition rc_cyclic_alloc :: "allocator \<Rightarrow> 'a heap \<Rightarrow> addr \<times> 'a heap" where
  "rc_cyclic_alloc al h =
     (let a = al (occupied h) in (a, put a \<lparr>strong = 0, weak = 1, payload = None\<rparr> h))"

definition rc_cyclic_init :: "addr \<Rightarrow> 'a \<Rightarrow> 'a heap \<Rightarrow> 'a heap" where
  "rc_cyclic_init a v = upd a (\<lambda>b. b\<lparr>strong := 1, payload := Some v\<rparr>)"

definition rc_clone :: "addr \<Rightarrow> 'a heap \<Rightarrow> 'a heap" where
  "rc_clone a = upd a (\<lambda>b. b\<lparr>strong := strong b + 1\<rparr>)"

definition rc_downgrade :: "addr \<Rightarrow> 'a heap \<Rightarrow> 'a heap" where
  "rc_downgrade a = upd a (\<lambda>b. b\<lparr>weak := weak b + 1\<rparr>)"

definition weak_clone :: "addr \<Rightarrow> 'a heap \<Rightarrow> 'a heap" where
  "weak_clone a = upd a (\<lambda>b. b\<lparr>weak := weak b + 1\<rparr>)"

definition weak_upgrade :: "addr \<Rightarrow> 'a heap \<Rightarrow> addr option \<times> 'a heap" where
  "weak_upgrade a h = (if strong_count a h = 0 then (None, h) else (Some a, rc_clone a h))"

text \<open>
  Dropping a \<open>Weak\<close> gives the cell back to the allocator with the last weak reference: a cell
  of weak count 0 is free.
\<close>

definition weak_drop :: "addr \<Rightarrow> 'a heap \<Rightarrow> 'a heap" where
  "weak_drop a = upd a (\<lambda>b. b\<lparr>weak := weak b - 1\<rparr>)"

text \<open>
  Dropping an \<open>Rc\<close> that is not the last one only decrements. The last one moves the value
  out of the cell, to be dropped by the caller; the implicit weak reference is dropped after it.
\<close>

definition rc_release :: "addr \<Rightarrow> 'a heap \<Rightarrow> 'a heap" where
  "rc_release a = upd a (\<lambda>b. b\<lparr>strong := strong b - 1\<rparr>)"

definition rc_take :: "addr \<Rightarrow> 'a heap \<Rightarrow> 'a option \<times> 'a heap" where
  "rc_take a h = (deref h a, upd a (\<lambda>b. b\<lparr>strong := strong b - 1, payload := None\<rparr>) h)"

definition set_payload :: "addr \<Rightarrow> ('a \<Rightarrow> 'a) \<Rightarrow> 'a heap \<Rightarrow> 'a heap" where
  "set_payload a f = upd a (\<lambda>b. b\<lparr>payload := map_option f (payload b)\<rparr>)"

lemmas rc_defs = rc_clone_def rc_downgrade_def weak_clone_def weak_drop_def rc_release_def
  rc_cyclic_init_def set_payload_def

subsection \<open>Operations that undo each other\<close>

lemma release_clone: "rc_release a (rc_clone a h) = h"
  by (cases "a < length h"; simp add: rc_defs upd_def box_def list_update_beyond)

lemma weak_drop_clone: "weak_drop a (weak_clone a h) = h"
  by (cases "a < length h"; simp add: rc_defs upd_def box_def list_update_beyond)

lemma weak_clone_commute: "weak_clone a (weak_clone b h) = weak_clone b (weak_clone a h)"
  by (cases "a = b"; cases "a < length h"; cases "b < length h";
      simp add: rc_defs upd_def box_def list_update_beyond list_update_swap)

lemma weak_drop_fold_clone: "weak_drop a (fold weak_clone xs (weak_clone a h)) = fold weak_clone xs h"
proof -
  have "fold weak_clone xs (weak_clone a h) = weak_clone a (fold weak_clone xs h)"
    by (induction xs arbitrary: h) (simp_all add: weak_clone_commute [of _ a])
  then show ?thesis by (simp add: weak_drop_clone)
qed

subsection \<open>Reading cells\<close>

lemma length_upd [simp]: "length (upd a f h) = length h"
  by (simp add: upd_def)

lemma box_upd [heap_simps]:
  "box (upd a f h) x = (if x = a \<and> a < length h then f (box h a) else box h x)"
  by (auto simp: box_def upd_def)

lemma free_box_simps [simp]:
  "strong free_box = 0" "weak free_box = 0" "payload free_box = None"
  by (simp_all add: free_box_def)

lemma in_range_strong: "0 < strong (box h a) \<Longrightarrow> a < length h"
  by (rule ccontr) (simp add: box_def)

lemma in_range_weak: "0 < weak (box h a) \<Longrightarrow> a < length h"
  by (rule ccontr) (simp add: box_def)

lemma in_range_deref: "deref h a = Some d \<Longrightarrow> a < length h"
  by (rule ccontr) (simp add: box_def)

lemma box_out_of_range [simp]: "length h \<le> a \<Longrightarrow> box h a = free_box"
  by (simp add: box_def)

lemma box_put [heap_simps]:
  "a \<le> length h \<Longrightarrow> box (put a b h) x = (if x = a then b else box h x)"
  by (auto simp: box_def put_def nth_append)

lemma deref_set_payload [heap_simps]:
  "deref (set_payload a f h) x = (if x = a then map_option f (deref h a) else deref h x)"
  by (auto simp: set_payload_def box_upd)

lemma strong_set_payload [heap_simps]: "strong (box (set_payload a f h) x) = strong (box h x)"
  by (auto simp: set_payload_def box_upd)

lemma weak_set_payload [heap_simps]: "weak (box (set_payload a f h) x) = weak (box h x)"
  by (auto simp: set_payload_def box_upd)

lemma deref_counts_only [heap_simps]:
  "deref (rc_clone a h) x = deref h x" "deref (rc_release a h) x = deref h x"
  "deref (weak_clone a h) x = deref h x" "deref (rc_downgrade a h) x = deref h x"
  "deref (weak_drop a h) x = deref h x"
  by (simp_all add: rc_defs box_upd)

lemma strong_counts_only [heap_simps]:
  "strong (box (weak_clone a h) x) = strong (box h x)"
  "strong (box (rc_downgrade a h) x) = strong (box h x)"
  "strong (box (weak_drop a h) x) = strong (box h x)"
  by (simp_all add: rc_defs box_upd)

lemma weak_counts_only [heap_simps]:
  "weak (box (rc_clone a h) x) = weak (box h x)"
  "weak (box (rc_release a h) x) = weak (box h x)"
  by (simp_all add: rc_defs box_upd)

lemma strong_changed [heap_simps]:
  "strong (box (rc_clone a h) x) = strong (box h x) + (if x = a \<and> a < length h then 1 else 0)"
  "strong (box (rc_release a h) x) = strong (box h x) - (if x = a then 1 else 0)"
  by (auto simp: rc_defs box_upd)

lemma weak_changed [heap_simps]:
  "weak (box (weak_clone a h) x) = weak (box h x) + (if x = a \<and> a < length h then 1 else 0)"
  "weak (box (rc_downgrade a h) x) = weak (box h x) + (if x = a \<and> a < length h then 1 else 0)"
  "weak (box (weak_drop a h) x) = weak (box h x) - (if x = a then 1 else 0)"
  by (auto simp: rc_defs box_upd)

lemma length_counts_only [simp]:
  "length (rc_clone a h) = length h" "length (rc_release a h) = length h"
  "length (weak_clone a h) = length h" "length (rc_downgrade a h) = length h"
  "length (weak_drop a h) = length h" "length (set_payload a f h) = length h"
  by (simp_all add: rc_defs)

lemma allocator_free:
  assumes "alloc_ok al"
  shows "al (occupied h) \<le> length h" and "weak (box h (al (occupied h))) = 0"
  using assms [unfolded alloc_ok_def, THEN spec, of "occupied h"]
  by (auto simp: occupied_def box_def)

text \<open>Evaluation on a heap that is given cell by cell.\<close>

lemma upd_Cons:
  "upd 0 f (b # h) = f b # h" "upd (Suc n) f (b # h) = b # upd n f h"
  "upd (numeral k) f (b # h) = b # upd (pred_numeral k) f h" "upd n f [] = []"
  by (simp_all add: upd_def box_def numeral_eq_Suc)

lemma box_Cons:
  "box (b # h) 0 = b" "box (b # h) (Suc n) = box h n"
  "box (b # h) (numeral k) = box h (pred_numeral k)" "box [] n = free_box"
  by (simp_all add: box_def numeral_eq_Suc)

lemma put_Cons:
  "put 0 b' (b # h) = b' # h" "put (Suc n) b' (b # h) = b # put n b' h" "put n b' [] = [b']"
  by (simp_all add: put_def)

lemma occupied_Cons: "occupied (b # h) = (0 < weak b) # occupied h" "occupied [] = []"
  by (simp_all add: occupied_def)

lemmas cell_eval = upd_Cons box_Cons put_Cons occupied_Cons

subsection \<open>The references stored in a heap\<close>

text \<open>
  \<open>refs g h\<close> is the multiset of all references that \<open>g\<close> finds in the values of the heap.
\<close>

definition refs :: "('a \<Rightarrow> 'b multiset) \<Rightarrow> 'a heap \<Rightarrow> 'b multiset" where
  "refs g h = (\<Sum>b\<leftarrow>h. case payload b of None \<Rightarrow> {#} | Some d \<Rightarrow> g d)"

abbreviation box_refs :: "('a \<Rightarrow> 'b multiset) \<Rightarrow> 'a rcbox \<Rightarrow> 'b multiset" where
  "box_refs g b \<equiv> (case payload b of None \<Rightarrow> {#} | Some d \<Rightarrow> g d)"

lemma in_refs_iff: "x \<in># refs g h \<longleftrightarrow> (\<exists>a d. deref h a = Some d \<and> x \<in># g d)"
proof
  assume "x \<in># refs g h"
  then obtain b where "b \<in> set h" and x: "x \<in># box_refs g b"
    by (auto simp: refs_def in_sum_list_mset)
  then obtain a where "a < length h" and "h ! a = b" by (auto simp: in_set_conv_nth)
  with x show "\<exists>a d. deref h a = Some d \<and> x \<in># g d"
    by (auto simp: box_def split: option.splits)
next
  assume "\<exists>a d. deref h a = Some d \<and> x \<in># g d"
  then obtain a d where a: "deref h a = Some d" and x: "x \<in># g d" by blast
  from a have "a < length h" by (rule in_range_deref)
  with a x show "x \<in># refs g h"
    by (auto simp: refs_def in_sum_list_mset box_def intro!: bexI [of _ "h ! a"])
qed

lemma refs_upd:
  "a < length h \<Longrightarrow> refs g (upd a f h) + box_refs g (box h a) = refs g h + box_refs g (f (box h a))"
  using sum_list_update_cancel [of a h "box_refs g" "f (box h a)"]
  by (simp add: refs_def upd_def box_def)

lemma refs_upd_same [refs_simps]:
  "payload (f (box h a)) = payload (box h a) \<Longrightarrow> refs g (upd a f h) = refs g h"
proof (cases "a < length h")
  case True
  assume "payload (f (box h a)) = payload (box h a)"
  with True show ?thesis
    unfolding refs_def upd_def by (intro sum_list_update_same) (simp add: box_def)
qed (simp add: refs_def upd_def list_update_beyond)

lemma refs_put:
  "a \<le> length h \<Longrightarrow> deref h a = None \<Longrightarrow> refs g (put a b h) = refs g h + box_refs g b"
proof (cases "a < length h")
  case True
  assume "deref h a = None"
  with True show ?thesis
    using sum_list_update_cancel [of a h "box_refs g" b]
    by (simp add: refs_def put_def box_def)
qed (auto simp: refs_def put_def)

lemma refs_counts_only [refs_simps]:
  "refs g (rc_clone a h) = refs g h" "refs g (rc_downgrade a h) = refs g h"
  "refs g (weak_clone a h) = refs g h" "refs g (weak_drop a h) = refs g h"
  "refs g (rc_release a h) = refs g h"
  by (simp_all add: rc_defs refs_upd_same)

lemma refs_set_payload_same [refs_simps]:
  "(\<And>d. g (f d) = g d) \<Longrightarrow> refs g (set_payload a f h) = refs g h"
proof (cases "a < length h")
  case True
  assume "\<And>d. g (f d) = g d"
  then have "box_refs g (box h a\<lparr>payload := map_option f (deref h a)\<rparr>) = box_refs g (box h a)"
    by (simp split: option.splits)
  with refs_upd [OF True, of g "\<lambda>b. b\<lparr>payload := map_option f (payload b)\<rparr>"]
  show ?thesis by (simp add: set_payload_def)
qed (simp add: set_payload_def upd_def list_update_beyond)

end
