(* ===== verification/Edge.thy ===== *)
theory Edge
  imports Rc_Heap
begin

section \<open>Edges (\<open>src/src/edge.rs\<close>)\<close>

text \<open>
  The three kinds of edge of \<open>edge.rs\<close>. \<open>InnerEdgeData\<close> is owned by the child: it holds a
  strong reference to its source (the parent) and a weak one to its target (the child itself).
  \<open>WeakEdge\<close> and \<open>Edge\<close> name an edge by its target and its position among the target's
  incoming edges. A \<open>RelRc\<close> and a \<open>RelWeak\<close> are the address of the cell they point to; the
  heap keeps their counts. Cloning, upgrading and dropping therefore change the heap.
\<close>

type_synonym RelRc = addr
type_synonym RelWeak = addr

record 'e InnerEdgeData =
  edge_value :: 'e
  source :: RelRc
  target :: RelWeak

record WeakEdge =
  we_index :: nat
  we_target :: RelWeak

record Edge =
  e_index :: nat
  e_target :: RelRc

definition InnerEdgeData_new :: "'e \<Rightarrow> RelRc \<Rightarrow> RelWeak \<Rightarrow> 'e InnerEdgeData" where
  "InnerEdgeData_new v s t = \<lparr>edge_value = v, source = s, target = t\<rparr>"

definition WeakEdge_new :: "nat \<Rightarrow> RelWeak \<Rightarrow> WeakEdge" where
  "WeakEdge_new i t = \<lparr>we_index = i, we_target = t\<rparr>"

text \<open>The accessors return references to the fields, so that no count changes.\<close>

definition inner_edge_value :: "'e InnerEdgeData \<Rightarrow> 'e" where
  "inner_edge_value e = edge_value e"

definition inner_edge_source :: "'e InnerEdgeData \<Rightarrow> RelRc" where
  "inner_edge_source e = source e"

definition weak_edge_target :: "WeakEdge \<Rightarrow> RelWeak" where
  "weak_edge_target e = we_target e"

definition strong_edge_target :: "Edge \<Rightarrow> RelRc" where
  "strong_edge_target e = e_target e"

text \<open>\<open>InnerEdgeData::downgrade\<close>: a weak edge, holding a clone of the weak target.\<close>

definition inner_edge_downgrade ::
  "'e InnerEdgeData \<Rightarrow> nat \<Rightarrow> 'a heap \<Rightarrow> WeakEdge \<times> 'a heap" where
  "inner_edge_downgrade e target_pos h =
     (WeakEdge_new target_pos (target e), weak_clone (target e) h)"

text \<open>\<open>InnerEdgeData::target\<close>: a strong reference to the target, or a panic.\<close>

definition inner_edge_target :: "'e InnerEdgeData \<Rightarrow> 'a heap \<Rightarrow> (RelRc \<times> 'a heap) res" where
  "inner_edge_target e h =
     (case weak_upgrade (target e) h of
        (None, _) \<Rightarrow> Inl (Expect ''target node is no longer alive'')
      | (Some t, h') \<Rightarrow> Inr (t, h'))"

text \<open>The derived \<open>Clone\<close> of \<open>InnerEdgeData\<close>: both references are cloned.\<close>

definition inner_edge_clone :: "'e InnerEdgeData \<Rightarrow> 'a heap \<Rightarrow> 'e InnerEdgeData \<times> 'a heap" where
  "inner_edge_clone e h = (e, weak_clone (target e) (rc_clone (source e) h))"

definition weak_edge_ptr_eq :: "WeakEdge \<Rightarrow> WeakEdge \<Rightarrow> bool" where
  "weak_edge_ptr_eq e f \<longleftrightarrow> we_index e = we_index f \<and> we_target e = we_target f"

text \<open>\<open>WeakEdge::upgrade\<close>: a strong edge if the target is alive.\<close>

definition weak_edge_upgrade :: "WeakEdge \<Rightarrow> 'a heap \<Rightarrow> Edge option \<times> 'a heap" where
  "weak_edge_upgrade e h =
     (case weak_upgrade (we_target e) h of
        (None, h') \<Rightarrow> (None, h')
      | (Some t, h') \<Rightarrow> (Some \<lparr>e_index = we_index e, e_target = t\<rparr>, h'))"

text \<open>\<open>Edge::into_target\<close> consumes the edge: its strong reference passes to the caller.\<close>

definition edge_into_target :: "Edge \<Rightarrow> RelRc" where
  "edge_into_target e = e_target e"

lemma WeakEdge_new_simps [simp]:
  "we_index (WeakEdge_new i t) = i" "we_target (WeakEdge_new i t) = t"
  "WeakEdge_new i t = WeakEdge_new j s \<longleftrightarrow> i = j \<and> t = s"
  by (simp_all add: WeakEdge_new_def)

lemma WeakEdge_new_same [simp]: "WeakEdge_new (we_index e) (we_target e) = e"
  by (simp add: WeakEdge_new_def)

lemma InnerEdgeData_new_simps [simp]:
  "edge_value (InnerEdgeData_new v s t) = v" "source (InnerEdgeData_new v s t) = s"
  "target (InnerEdgeData_new v s t) = t"
  by (simp_all add: InnerEdgeData_new_def)

lemma WeakEdge_eqI: "we_index e = we_index f \<Longrightarrow> we_target e = we_target f \<Longrightarrow> e = (f :: WeakEdge)"
  by simp

lemma weak_edge_upgrade_dead:
  "strong (box h (we_target e)) = 0 \<Longrightarrow> weak_edge_upgrade e h = (None, h)"
  by (simp add: weak_edge_upgrade_def weak_upgrade_def strong_count_def)

lemma weak_edge_upgrade_alive:
  "0 < strong (box h (we_target e)) \<Longrightarrow>
   weak_edge_upgrade e h =
     (Some \<lparr>e_index = we_index e, e_target = we_target e\<rparr>, rc_clone (we_target e) h)"
  by (simp add: weak_edge_upgrade_def weak_upgrade_def strong_count_def)

end
