(* ===== verification/Node.thy ===== *)
theory Node
  imports Edge
begin

section \<open>Nodes (\<open>src/src/node.rs\<close>)\<close>

text \<open>
  The data of a node and the operations of \<open>RelRc\<close>, \<open>RelWeak\<close> and \<open>InnerData\<close> that do
  not touch a registry: creation, weak references, traversal of edges, parents, children and
  ancestors. Registration and dropping, which do, are in the theories \<open>Registry\<close> and
  \<open>Drop\<close>.
\<close>

record ('n, 'e) InnerData =
  node_value :: 'n
  incoming :: "'e InnerEdgeData list"
  outgoing :: "WeakEdge list"
  registry :: "addr option"

type_synonym ('n, 'e) node_heap = "('n, 'e) InnerData heap"

definition InnerData_new :: "'n \<Rightarrow> ('n, 'e) InnerData" where
  "InnerData_new v = \<lparr>node_value = v, incoming = [], outgoing = [], registry = None\<rparr>"

definition InnerData_with_incoming :: "'n \<Rightarrow> 'e InnerEdgeData list \<Rightarrow> ('n, 'e) InnerData" where
  "InnerData_with_incoming v es = \<lparr>node_value = v, incoming = es, outgoing = [], registry = None\<rparr>"

text \<open>\<open>Default\<close>, where \<open>v0\<close> is the default value of the type of the values.\<close>

definition InnerData_default :: "'n \<Rightarrow> ('n, 'e) InnerData" where
  "InnerData_default v0 = \<lparr>node_value = v0, incoming = [], outgoing = [], registry = None\<rparr>"

subsection \<open>Creation\<close>

definition relrc_new :: "allocator \<Rightarrow> 'n \<Rightarrow> ('n, 'e) node_heap \<Rightarrow> RelRc \<times> ('n, 'e) node_heap" where
  "relrc_new al v h = rc_new al (InnerData_new v) h"

definition relrc_default :: "allocator \<Rightarrow> 'n \<Rightarrow> ('n, 'e) node_heap \<Rightarrow> RelRc \<times> ('n, 'e) node_heap" where
  "relrc_default al v0 h = relrc_new al v0 h"

text \<open>\<open>From<Rc<InnerData>>\<close> wraps the pointer, and \<open>Deref\<close> reads through it.\<close>

definition relrc_from_rc :: "addr \<Rightarrow> RelRc" where
  "relrc_from_rc inner = inner"

definition relrc_deref :: "RelRc \<Rightarrow> ('n, 'e) node_heap \<Rightarrow> ('n, 'e) InnerData option" where
  "relrc_deref a h = deref h a"

text \<open>
  The closure of \<open>with_parents\<close> maps each parent and edge value to an edge that owns the parent
  and a fresh clone of the weak reference to the node under construction.
\<close>

fun build_incoming ::
  "RelWeak \<Rightarrow> (RelRc \<times> 'e) list \<Rightarrow> 'a heap \<Rightarrow> 'e InnerEdgeData list \<times> 'a heap" where
  "build_incoming weak_node [] h = ([], h)"
| "build_incoming weak_node ((parent, v) # ps) h =
     (let (es, h') = build_incoming weak_node ps (weak_clone weak_node h)
      in (InnerEdgeData_new v parent weak_node # es, h'))"

definition push_outgoing :: "WeakEdge \<Rightarrow> ('n, 'e) InnerData \<Rightarrow> ('n, 'e) InnerData" where
  "push_outgoing e d = d\<lparr>outgoing := outgoing d @ [e]\<rparr>"

fun register_outgoing_edges ::
  "nat \<Rightarrow> 'e InnerEdgeData list \<Rightarrow> ('n, 'e) node_heap \<Rightarrow> ('n, 'e) node_heap" where
  "register_outgoing_edges i [] h = h"
| "register_outgoing_edges i (e # es) h =
     (let (we, h') = inner_edge_downgrade e i h
      in register_outgoing_edges (Suc i) es (set_payload (source e) (push_outgoing we) h'))"

definition with_parents ::
  "allocator \<Rightarrow> 'n \<Rightarrow> (RelRc \<times> 'e) list \<Rightarrow> ('n, 'e) node_heap \<Rightarrow> RelRc \<times> ('n, 'e) node_heap" where
  "with_parents al v parents h =
     (let (a, h1) = rc_cyclic_alloc al h;
          h2 = weak_clone a h1;
          (es, h3) = build_incoming a parents h2;
          h4 = weak_drop a h3;
          h5 = rc_cyclic_init a (InnerData_with_incoming v es) h4
      in (a, register_outgoing_edges 0 es h5))"

subsection \<open>References\<close>

definition relrc_clone :: "RelRc \<Rightarrow> ('n, 'e) node_heap \<Rightarrow> ('n, 'e) node_heap" where
  "relrc_clone a h = rc_clone a h"

definition as_ptr :: "RelRc \<Rightarrow> addr" where
  "as_ptr a = a"

definition relrc_ptr_eq :: "RelRc \<Rightarrow> RelRc \<Rightarrow> bool" where
  "relrc_ptr_eq a b \<longleftrightarrow> a = b"

definition relrc_downgrade :: "RelRc \<Rightarrow> ('n, 'e) node_heap \<Rightarrow> RelWeak \<times> ('n, 'e) node_heap" where
  "relrc_downgrade a h = (a, rc_downgrade a h)"

definition relweak_upgrade :: "RelWeak \<Rightarrow> ('n, 'e) node_heap \<Rightarrow> RelRc option \<times> ('n, 'e) node_heap" where
  "relweak_upgrade a h = weak_upgrade a h"

definition relweak_ptr_eq :: "RelWeak \<Rightarrow> RelWeak \<Rightarrow> bool" where
  "relweak_ptr_eq a b \<longleftrightarrow> a = b"

definition relweak_as_ptr :: "RelWeak \<Rightarrow> addr" where
  "relweak_as_ptr a = a"

subsection \<open>Traversal\<close>

text \<open>
  A live \<open>RelRc\<close> always dereferences; at an address without a value (which no handle can
  hold) the readers below return what an empty node would.
\<close>

definition all_incoming :: "RelRc \<Rightarrow> ('n, 'e) node_heap \<Rightarrow> 'e InnerEdgeData list" where
  "all_incoming a h = (case deref h a of None \<Rightarrow> [] | Some d \<Rightarrow> incoming d)"

definition n_incoming :: "RelRc \<Rightarrow> ('n, 'e) node_heap \<Rightarrow> nat" where
  "n_incoming a h = length (all_incoming a h)"

definition incoming_at :: "RelRc \<Rightarrow> nat \<Rightarrow> ('n, 'e) node_heap \<Rightarrow> 'e InnerEdgeData option" where
  "incoming_at a i h = (if i < n_incoming a h then Some (all_incoming a h ! i) else None)"

definition incoming_weak ::
  "RelRc \<Rightarrow> nat \<Rightarrow> ('n, 'e) node_heap \<Rightarrow> WeakEdge option \<times> ('n, 'e) node_heap" where
  "incoming_weak a i h =
     (case incoming_at a i h of
        None \<Rightarrow> (None, h)
      | Some e \<Rightarrow> (Some (WeakEdge_new i (target e)), weak_clone (target e) h))"

definition parent_at :: "RelRc \<Rightarrow> nat \<Rightarrow> ('n, 'e) node_heap \<Rightarrow> RelRc option" where
  "parent_at a i h = map_option source (incoming_at a i h)"

definition value_at :: "RelRc \<Rightarrow> ('n, 'e) node_heap \<Rightarrow> 'n option" where
  "value_at a h = map_option node_value (deref h a)"

definition all_parents :: "RelRc \<Rightarrow> ('n, 'e) node_heap \<Rightarrow> RelRc list" where
  "all_parents a h = map source (all_incoming a h)"

definition all_outgoing_weak_ref :: "RelRc \<Rightarrow> ('n, 'e) node_heap \<Rightarrow> WeakEdge list" where
  "all_outgoing_weak_ref a h = (case deref h a of None \<Rightarrow> [] | Some d \<Rightarrow> outgoing d)"

text \<open>\<open>all_incoming_weak\<close> and \<open>all_outgoing_weak\<close> clone one weak target per edge returned.\<close>

definition all_incoming_weak ::
  "RelRc \<Rightarrow> ('n, 'e) node_heap \<Rightarrow> WeakEdge list \<times> ('n, 'e) node_heap" where
  "all_incoming_weak a h =
     (map (\<lambda>(i, e). WeakEdge_new i (target e)) (List.enumerate 0 (all_incoming a h)),
      fold weak_clone (map target (all_incoming a h)) h)"

definition all_outgoing_weak ::
  "RelRc \<Rightarrow> ('n, 'e) node_heap \<Rightarrow> WeakEdge list \<times> ('n, 'e) node_heap" where
  "all_outgoing_weak a h =
     (all_outgoing_weak_ref a h, fold weak_clone (map we_target (all_outgoing_weak_ref a h)) h)"

text \<open>
  \<open>all_outgoing\<close> upgrades every outgoing weak edge, keeps those that upgrade and drops the
  weak references of the others (the \<open>retain\<close> of the source).
\<close>

fun retain_outgoing ::
  "WeakEdge list \<Rightarrow> ('n, 'e) node_heap \<Rightarrow> WeakEdge list \<times> Edge list \<times> ('n, 'e) node_heap" where
  "retain_outgoing [] h = ([], [], h)"
| "retain_outgoing (e # es) h =
     (case weak_edge_upgrade e h of
        (Some edge, h1) \<Rightarrow>
          (let (kept, edges, h2) = retain_outgoing es h1 in (e # kept, edge # edges, h2))
      | (None, h1) \<Rightarrow> retain_outgoing es (weak_drop (we_target e) h1))"

definition all_outgoing :: "RelRc \<Rightarrow> ('n, 'e) node_heap \<Rightarrow> Edge list \<times> ('n, 'e) node_heap" where
  "all_outgoing a h =
     (let (kept, edges, h1) = retain_outgoing (all_outgoing_weak_ref a h) h
      in (edges, set_payload a (\<lambda>d. d\<lparr>outgoing := kept\<rparr>) h1))"

definition all_children :: "RelRc \<Rightarrow> ('n, 'e) node_heap \<Rightarrow> RelRc list \<times> ('n, 'e) node_heap" where
  "all_children a h = (let (edges, h') = all_outgoing a h in (map edge_into_target edges, h'))"

text \<open>\<open>Deref for Edge\<close>: the edge data, found at the edge's position in its target.\<close>

definition edge_deref :: "Edge \<Rightarrow> ('n, 'e) node_heap \<Rightarrow> 'e InnerEdgeData res" where
  "edge_deref e h =
     (case incoming_at (e_target e) (e_index e) h of None \<Rightarrow> Inl Unwrap | Some d \<Rightarrow> Inr d)"

subsection \<open>Ancestors\<close>

text \<open>
  \<open>all_ancestors\<close> is \<open>iter::from_fn\<close> over a state of the addresses seen and a queue.
  \<open>ancestors_next\<close> is one call of the closure: it returns no item on an empty queue, and
  also when the node it takes off the queue was seen before. \<open>collect\<close>, \<open>count\<close> and
  \<open>for\<close> call it until it first returns \<open>None\<close>.
\<close>

definition ancestors_next ::
  "('n, 'e) node_heap \<Rightarrow> addr list \<times> RelRc list \<Rightarrow> RelRc option \<times> (addr list \<times> RelRc list)" where
  "ancestors_next h st =
     (case st of (seen, stack) \<Rightarrow>
       (case stack of
          [] \<Rightarrow> (None, (seen, []))
        | node # rest \<Rightarrow>
            if as_ptr node \<in> set seen then (None, (seen, rest))
            else (Some node, (as_ptr node # seen, rest @ all_parents node h))))"

function collect_ancestors :: "('n, 'e) node_heap \<Rightarrow> addr list \<times> RelRc list \<Rightarrow> RelRc list" where
  "collect_ancestors h st =
     (case ancestors_next h st of
        (None, _) \<Rightarrow> []
      | (Some node, st') \<Rightarrow> node # collect_ancestors h st')"
  by pat_completeness auto
termination
proof (relation "measures [\<lambda>(h, seen, stack). card ({..<length h} - set seen),
                           \<lambda>(h, seen, stack). length stack]", goal_cases)
  case (2 h st x st' node)
  then obtain seen rest where st: "st = (seen, node # rest)" "node \<notin> set seen"
      "st' = (node # seen, rest @ all_parents node h)"
    by (auto simp: ancestors_next_def as_ptr_def split: prod.splits list.splits if_splits)
  show ?case
  proof (cases "node < length h")
    case True
    have "{..<length h} - set (node # seen) = ({..<length h} - set seen) - {node}" by auto
    moreover from True st have "card (({..<length h} - set seen) - {node}) < card ({..<length h} - set seen)"
      by (intro card_Diff1_less) auto
    ultimately show ?thesis by (simp add: st)
  next
    case False
    then have "all_parents node h = []" by (simp add: all_parents_def all_incoming_def)
    moreover from False have "{..<length h} - set (node # seen) = {..<length h} - set seen" by auto
    ultimately show ?thesis by (simp add: st)
  qed
qed simp

declare collect_ancestors.simps [simp del]

definition all_ancestors :: "RelRc \<Rightarrow> ('n, 'e) node_heap \<Rightarrow> RelRc list" where
  "all_ancestors a h = collect_ancestors h ([], [a])"

end
