(* ===== verification/SlotMap.thy ===== *)
theory SlotMap
  imports Prelude "HOL-Library.Product_Lexorder"
begin

section \<open>Slot maps\<close>

text \<open>
  \<open>SlotMap\<close> and \<open>SecondaryMap\<close> come from the crate \<open>slotmap_fork_lmondada\<close>, which is not
  part of the repository. Both are generic in the stored value, so which keys exist, in which
  order they are iterated and which key an insertion returns does not depend on the values.
  That key management is a parameter of the development: a record \<open>ops\<close> of functions on an
  unspecified state of type \<open>'s\<close>. What the documentation of the crate promises of it is the
  locale \<open>slot_map\<close>. A slot map is a key-management state and a value for each key.
\<close>

record ('k, 's) slotmap_ops =
  sm_new :: 's
  sm_alloc_key :: "'s \<Rightarrow> 'k \<times> 's"
  sm_free_key :: "'k \<Rightarrow> 's \<Rightarrow> 's"
  sm_keys :: "'s \<Rightarrow> 'k list"
  sec_insert_key :: "'k \<Rightarrow> 'k list \<Rightarrow> 'k list"

record ('k, 's, 'v) SlotMap =
  slots :: 's
  vals :: "'k \<Rightarrow> 'v option"

definition slotmap_with_key :: "('k, 's) slotmap_ops \<Rightarrow> ('k, 's, 'v) SlotMap" where
  "slotmap_with_key ops = \<lparr>slots = sm_new ops, vals = Map.empty\<rparr>"

definition slotmap_keys :: "('k, 's) slotmap_ops \<Rightarrow> ('k, 's, 'v) SlotMap \<Rightarrow> 'k list" where
  "slotmap_keys ops m = sm_keys ops (slots m)"

definition slotmap_get :: "('k, 's) slotmap_ops \<Rightarrow> 'k \<Rightarrow> ('k, 's, 'v) SlotMap \<Rightarrow> 'v option" where
  "slotmap_get ops k m = (if k \<in> set (slotmap_keys ops m) then vals m k else None)"

definition slotmap_insert ::
  "('k, 's) slotmap_ops \<Rightarrow> 'v \<Rightarrow> ('k, 's, 'v) SlotMap \<Rightarrow> 'k \<times> ('k, 's, 'v) SlotMap" where
  "slotmap_insert ops v m =
     (let (k, s) = sm_alloc_key ops (slots m) in (k, \<lparr>slots = s, vals = (vals m)(k \<mapsto> v)\<rparr>))"

definition slotmap_remove ::
  "('k, 's) slotmap_ops \<Rightarrow> 'k \<Rightarrow> ('k, 's, 'v) SlotMap \<Rightarrow> 'v option \<times> ('k, 's, 'v) SlotMap" where
  "slotmap_remove ops k m =
     (if k \<in> set (slotmap_keys ops m)
      then (vals m k, \<lparr>slots = sm_free_key ops k (slots m), vals = (vals m)(k := None)\<rparr>)
      else (None, m))"

definition slotmap_iter :: "('k, 's) slotmap_ops \<Rightarrow> ('k, 's, 'v) SlotMap \<Rightarrow> ('k \<times> 'v) list" where
  "slotmap_iter ops m =
     List.map_filter (\<lambda>k. map_option (Pair k) (vals m k)) (slotmap_keys ops m)"

definition slotmap_len :: "('k, 's) slotmap_ops \<Rightarrow> ('k, 's, 'v) SlotMap \<Rightarrow> nat" where
  "slotmap_len ops m = length (slotmap_keys ops m)"

definition slotmap_map :: "('k \<Rightarrow> 'v \<Rightarrow> 'u) \<Rightarrow> ('k, 's, 'v) SlotMap \<Rightarrow> ('k, 's, 'u) SlotMap" where
  "slotmap_map f m = \<lparr>slots = slots m, vals = (\<lambda>k. map_option (f k) (vals m k))\<rparr>"

definition slotmap_retain ::
  "('k, 's) slotmap_ops \<Rightarrow> ('k \<Rightarrow> bool) \<Rightarrow> ('k, 's, 'v) SlotMap \<Rightarrow> ('k, 's, 'v) SlotMap" where
  "slotmap_retain ops p m =
     fold (\<lambda>k m. snd (slotmap_remove ops k m)) (filter (\<lambda>k. \<not> p k) (slotmap_keys ops m)) m"

text \<open>A secondary map: the keys in iteration order and a value for each.\<close>

record ('k, 'v) SecondaryMap =
  sec_keys :: "'k list"
  sec_vals :: "'k \<Rightarrow> 'v option"

definition sec_new :: "('k, 'v) SecondaryMap" where
  "sec_new = \<lparr>sec_keys = [], sec_vals = Map.empty\<rparr>"

definition sec_contains_key :: "'k \<Rightarrow> ('k, 'v) SecondaryMap \<Rightarrow> bool" where
  "sec_contains_key k m \<longleftrightarrow> k \<in> set (sec_keys m)"

definition sec_get :: "'k \<Rightarrow> ('k, 'v) SecondaryMap \<Rightarrow> 'v option" where
  "sec_get k m = (if sec_contains_key k m then sec_vals m k else None)"

text \<open>
  Inserting returns the values that leave the map: the one replaced at the key, those of keys
  that the insertion evicted, or the new value itself if the insertion was ignored.
\<close>

definition sec_insert ::
  "('k, 's) slotmap_ops \<Rightarrow> 'k \<Rightarrow> 'v \<Rightarrow> ('k, 'v) SecondaryMap \<Rightarrow> 'v list \<times> ('k, 'v) SecondaryMap" where
  "sec_insert ops k v m =
     (let ks = sec_insert_key ops k (sec_keys m) in
      if k \<in> set ks
      then (List.map_filter (sec_vals m) (filter (\<lambda>j. j = k \<or> j \<notin> set ks) (sec_keys m)),
            \<lparr>sec_keys = ks, sec_vals = (sec_vals m)(k \<mapsto> v)\<rparr>)
      else ([v], m))"

definition sec_values :: "('k, 'v) SecondaryMap \<Rightarrow> 'v list" where
  "sec_values m = List.map_filter (sec_vals m) (sec_keys m)"

definition sec_retain :: "('k \<Rightarrow> bool) \<Rightarrow> ('k, 'v) SecondaryMap \<Rightarrow> ('k, 'v) SecondaryMap" where
  "sec_retain p m = \<lparr>sec_keys = filter p (sec_keys m), sec_vals = sec_vals m\<rparr>"

subsection \<open>What the documentation promises\<close>

text \<open>
  Keys are unique; an insertion returns a key that was not in use and leaves the others; a
  removal takes out exactly its key. Inserting into a secondary map at a key adds that key and
  leaves the others, provided all of them are keys of one slot map (the documentation allows
  an insertion at a stale key to be ignored, and one at a newer key of the same slot to evict).
\<close>

locale slot_map =
  fixes ops :: "('k, 's) slotmap_ops"
  assumes keys_new: "sm_keys ops (sm_new ops) = []"
    and keys_distinct: "distinct (sm_keys ops s)"
    and alloc_fresh: "sm_alloc_key ops s = (k, s') \<Longrightarrow> k \<notin> set (sm_keys ops s)"
    and alloc_keys: "sm_alloc_key ops s = (k, s') \<Longrightarrow>
      set (sm_keys ops s') = insert k (set (sm_keys ops s))"
    and free_keys: "k \<in> set (sm_keys ops s) \<Longrightarrow>
      set (sm_keys ops (sm_free_key ops k s)) = set (sm_keys ops s) - {k}"
    and sec_insert_keys: "distinct ks \<Longrightarrow> insert k (set ks) \<subseteq> set (sm_keys ops s) \<Longrightarrow>
      distinct (sec_insert_key ops k ks) \<and> set (sec_insert_key ops k ks) = insert k (set ks)"

text \<open>A slot map is well-formed when every key has a value and nothing else has.\<close>

definition slotmap_ok :: "('k, 's) slotmap_ops \<Rightarrow> ('k, 's, 'v) SlotMap \<Rightarrow> bool" where
  "slotmap_ok ops m \<longleftrightarrow> (\<forall>k. k \<in> set (slotmap_keys ops m) \<longleftrightarrow> vals m k \<noteq> None)"

definition slotmap_values :: "('k, 's) slotmap_ops \<Rightarrow> ('k, 's, 'v) SlotMap \<Rightarrow> 'v multiset" where
  "slotmap_values ops m = mset (List.map_filter (vals m) (slotmap_keys ops m))"

lemma slotmap_get_ok: "slotmap_ok ops m \<Longrightarrow> slotmap_get ops k m = vals m k"
  by (cases "vals m k") (auto simp: slotmap_ok_def slotmap_get_def)

lemma set_slotmap_iter: "slotmap_ok ops m \<Longrightarrow> (k, v) \<in> set (slotmap_iter ops m) \<longleftrightarrow> vals m k = Some v"
  by (auto simp: slotmap_iter_def slotmap_ok_def)

lemma slotmap_iter_snd: "map snd (slotmap_iter ops m) = List.map_filter (vals m) (slotmap_keys ops m)"
  by (simp add: slotmap_iter_def map_snd_map_filter)

lemma slotmap_keys_ok: "slotmap_ok ops m \<Longrightarrow> set (slotmap_keys ops m) = dom (vals m)"
  by (auto simp: slotmap_ok_def)

lemma slotmap_map_simps [simp]:
  "slots (slotmap_map f m) = slots m"
  "vals (slotmap_map f m) k = map_option (f k) (vals m k)"
  "slotmap_keys ops (slotmap_map f m) = slotmap_keys ops m"
  by (simp_all add: slotmap_map_def slotmap_keys_def)

lemma slotmap_map_ok [simp]: "slotmap_ok ops (slotmap_map f m) \<longleftrightarrow> slotmap_ok ops m"
  by (simp add: slotmap_ok_def)

context slot_map
begin

lemma distinct_keys [simp]: "distinct (slotmap_keys ops m)"
  by (simp add: slotmap_keys_def keys_distinct)

lemma with_key_ok: "slotmap_ok ops (slotmap_with_key ops)"
  by (simp add: slotmap_ok_def slotmap_with_key_def slotmap_keys_def keys_new)

lemma values_sum:
  assumes "slotmap_ok ops m"
  shows "slotmap_values ops m = (\<Sum>k\<in>dom (vals m). opt_mset (vals m k))"
  by (simp add: slotmap_values_def mset_map_filter_distinct slotmap_keys_ok [OF assms])

lemma finite_dom: "slotmap_ok ops m \<Longrightarrow> finite (dom (vals m))"
  using slotmap_keys_ok [of ops m] by (metis List.finite_set)

lemma insert_spec:
  assumes "slotmap_insert ops v m = (k, m')" and ok: "slotmap_ok ops m"
  shows "slotmap_ok ops m'" "vals m k = None" "vals m' = (vals m)(k \<mapsto> v)"
    and "slotmap_values ops m' = add_mset v (slotmap_values ops m)"
proof -
  from assms(1) obtain s where alloc: "sm_alloc_key ops (slots m) = (k, s)"
      and m': "m' = \<lparr>slots = s, vals = (vals m)(k \<mapsto> v)\<rparr>"
    by (auto simp: slotmap_insert_def split: prod.splits)
  then show vals': "vals m' = (vals m)(k \<mapsto> v)" by simp
  from alloc_keys [OF alloc] ok m' show ok': "slotmap_ok ops m'"
    by (auto simp: slotmap_ok_def slotmap_keys_def)
  from alloc_fresh [OF alloc] ok show k: "vals m k = None"
    by (auto simp: slotmap_ok_def slotmap_keys_def)
  have "(\<Sum>x\<in>dom (vals m). opt_mset (vals m' x)) = (\<Sum>x\<in>dom (vals m). opt_mset (vals m x))"
    using k by (intro sum.cong) (auto simp: vals')
  then show "slotmap_values ops m' = add_mset v (slotmap_values ops m)"
    using k finite_dom [OF ok] by (simp add: values_sum [OF ok] values_sum [OF ok'] vals' domIff)
qed

lemma remove_spec:
  assumes "slotmap_remove ops k m = (r, m')" and ok: "slotmap_ok ops m"
  shows "slotmap_ok ops m'" "r = vals m k" "vals m' = (vals m)(k := None)"
    and "slotmap_values ops m = opt_mset r + slotmap_values ops m'"
proof -
  have in_keys: "k \<in> set (slotmap_keys ops m) \<longleftrightarrow> vals m k \<noteq> None"
    using ok by (simp add: slotmap_ok_def)
  show ok': "slotmap_ok ops m'"
  proof (cases "k \<in> set (slotmap_keys ops m)")
    case True
    then have "set (sm_keys ops (sm_free_key ops k (slots m))) = set (sm_keys ops (slots m)) - {k}"
      by (intro free_keys) (simp add: slotmap_keys_def)
    with True assms show ?thesis
      by (auto simp: slotmap_remove_def slotmap_ok_def slotmap_keys_def split: if_splits)
  next
    case False
    with assms show ?thesis by (auto simp: slotmap_remove_def)
  qed
  show r: "r = vals m k" and vals': "vals m' = (vals m)(k := None)"
    using assms(1) in_keys by (auto simp: slotmap_remove_def fun_eq_iff split: if_splits)
  have *: "(\<Sum>x\<in>dom (vals m) - {k}. opt_mset (vals m' x)) = (\<Sum>x\<in>dom (vals m) - {k}. opt_mset (vals m x))"
    by (intro sum.cong) (auto simp: vals')
  show "slotmap_values ops m = opt_mset r + slotmap_values ops m'"
  proof (cases "vals m k")
    case None
    with * show ?thesis by (simp add: values_sum [OF ok] values_sum [OF ok'] vals' r domIff)
  next
    case (Some v)
    then show ?thesis using * finite_dom [OF ok]
      by (simp add: values_sum [OF ok] values_sum [OF ok'] vals' r sum.remove [of _ k] domI)
  qed
qed

lemma fold_remove_spec:
  assumes "slotmap_ok ops m"
  shows "slotmap_ok ops (fold (\<lambda>k m. snd (slotmap_remove ops k m)) ks m) \<and>
    vals (fold (\<lambda>k m. snd (slotmap_remove ops k m)) ks m) k = (if k \<in> set ks then None else vals m k)"
  using assms
proof (induction ks arbitrary: m)
  case (Cons x ks)
  obtain r m' where rm: "slotmap_remove ops x m = (r, m')" by fastforce
  note spec = remove_spec [OF rm Cons.prems]
  from Cons.IH [OF spec(1)] spec(3) rm show ?case by auto
qed simp

lemma retain_spec:
  assumes "slotmap_ok ops m"
  shows "slotmap_ok ops (slotmap_retain ops p m)"
    and "vals (slotmap_retain ops p m) k = (if p k then vals m k else None)"
  using fold_remove_spec [OF assms, of "filter (\<lambda>k. \<not> p k) (slotmap_keys ops m)"] assms
  by (auto simp: slotmap_retain_def slotmap_ok_def)

lemma len_spec: "slotmap_ok ops m \<Longrightarrow> slotmap_len ops m = card (dom (vals m))"
  by (metis slotmap_len_def slotmap_keys_ok distinct_card distinct_keys)

lemma sec_insert_spec:
  assumes "distinct (sec_keys m)" "insert k (set (sec_keys m)) \<subseteq> set (sm_keys ops s)"
    and "k \<notin> set (sec_keys m)"
  shows "\<exists>m'. sec_insert ops k v m = ([], m') \<and> distinct (sec_keys m') \<and>
    set (sec_keys m') = insert k (set (sec_keys m)) \<and> sec_vals m' = (sec_vals m)(k \<mapsto> v)"
proof -
  let ?ks = "sec_insert_key ops k (sec_keys m)"
  have ks: "distinct ?ks" "set ?ks = insert k (set (sec_keys m))"
    using sec_insert_keys [OF assms(1,2)] by auto
  have "filter (\<lambda>j. j = k \<or> j \<notin> set ?ks) (sec_keys m) = []"
    using ks(2) assms(3) by (auto simp: filter_empty_conv)
  with ks show ?thesis by (simp add: sec_insert_def Let_def map_filter_simps)
qed

end

subsection \<open>A generational slot map\<close>

text \<open>
  The scheme the crate documents, as a concrete instance of the interface: a key is an index
  and a version, a slot holds its version and whether it is occupied, an insertion reuses the
  first vacant slot under a higher version, and a secondary map keeps one key per slot, the
  newest. The theorems of the development do not depend on it; their witnesses run on it.
\<close>

type_synonym gen_key = "nat \<times> nat"
type_synonym gen_slots = "(nat \<times> bool) list"

fun gen_keys_from :: "nat \<Rightarrow> gen_slots \<Rightarrow> gen_key list" where
  "gen_keys_from i [] = []"
| "gen_keys_from i ((v, occ) # ss) = (if occ then [(i, v)] else []) @ gen_keys_from (Suc i) ss"

definition gen_alloc_key :: "gen_slots \<Rightarrow> gen_key \<times> gen_slots" where
  "gen_alloc_key ss =
     (let i = first_free (map snd ss) in
      if i < length ss then ((i, Suc (fst (ss ! i))), ss[i := (Suc (fst (ss ! i)), True)])
      else ((length ss, 1), ss @ [(1, True)]))"

definition gen_free_key :: "gen_key \<Rightarrow> gen_slots \<Rightarrow> gen_slots" where
  "gen_free_key k ss =
     (if fst k < length ss \<and> ss ! fst k = (snd k, True) then ss[fst k := (snd k, False)] else ss)"

definition gen_sec_insert :: "gen_key \<Rightarrow> gen_key list \<Rightarrow> gen_key list" where
  "gen_sec_insert k ks =
     (if fst k \<in> set (map fst ks)
      then map (\<lambda>q. if fst q = fst k then (fst k, max (snd q) (snd k)) else q) ks
      else takeWhile (\<lambda>q. fst q < fst k) ks @ k # dropWhile (\<lambda>q. fst q < fst k) ks)"

definition gen_ops :: "(gen_key, gen_slots) slotmap_ops" where
  "gen_ops = \<lparr>sm_new = [], sm_alloc_key = gen_alloc_key, sm_free_key = gen_free_key,
     sm_keys = gen_keys_from 0, sec_insert_key = gen_sec_insert\<rparr>"

lemma set_gen_keys_from:
  "(j, v) \<in> set (gen_keys_from i ss) \<longleftrightarrow> i \<le> j \<and> j - i < length ss \<and> ss ! (j - i) = (v, True)"
proof (induction i ss rule: gen_keys_from.induct)
  case (2 i u occ ss)
  then show ?case by (cases "j = i") (auto simp: nth_Cons' Suc_le_eq)
qed simp

lemma distinct_gen_keys_from: "distinct (gen_keys_from i ss)"
  by (induction i ss rule: gen_keys_from.induct) (auto simp: set_gen_keys_from)

lemma gen_alloc_fresh:
  assumes "gen_alloc_key ss = (k, ss')"
  shows "k \<notin> set (gen_keys_from 0 ss)"
proof -
  let ?i = "first_free (map snd ss)"
  have free: "?i < length ss \<longrightarrow> \<not> snd (ss ! ?i)"
    using first_free_ok [unfolded alloc_ok_def, THEN spec, of "map snd ss"] by auto
  from assms obtain v where "k = (?i, v) \<and> ?i < length ss \<or> k = (length ss, v)"
    by (auto simp: gen_alloc_key_def Let_def split: if_splits)
  with free show ?thesis by (auto simp: set_gen_keys_from)
qed

lemma gen_alloc_keys:
  assumes "gen_alloc_key ss = (k, ss')"
  shows "set (gen_keys_from 0 ss') = insert k (set (gen_keys_from 0 ss))"
proof -
  let ?i = "first_free (map snd ss)"
  have free: "?i \<le> length ss \<and> (?i < length ss \<longrightarrow> \<not> snd (ss ! ?i))"
    using first_free_ok [unfolded alloc_ok_def, THEN spec, of "map snd ss"] by auto
  have "(j, v) \<in> set (gen_keys_from 0 ss') \<longleftrightarrow> (j, v) \<in> insert k (set (gen_keys_from 0 ss))" for j v
    using assms free
    by (cases "j = ?i") (auto simp: gen_alloc_key_def set_gen_keys_from Let_def nth_append nth_list_update split: if_splits)
  then show ?thesis by auto
qed

lemma gen_free_keys:
  assumes "k \<in> set (gen_keys_from 0 ss)"
  shows "set (gen_keys_from 0 (gen_free_key k ss)) = set (gen_keys_from 0 ss) - {k}"
proof -
  obtain i u where k: "k = (i, u)" by fastforce
  with assms have i: "i < length ss" "ss ! i = (u, True)" by (simp_all add: set_gen_keys_from)
  then have free: "gen_free_key k ss = ss[i := (u, False)]" by (simp add: gen_free_key_def k)
  have "(j, v) \<in> set (gen_keys_from 0 (gen_free_key k ss)) \<longleftrightarrow>
      (j, v) \<in> set (gen_keys_from 0 ss) \<and> (j, v) \<noteq> k" for j v
    unfolding free using i by (auto simp: set_gen_keys_from nth_list_update k)
  then show ?thesis by auto
qed

lemma gen_keys_slot_unique:
  "(i, u) \<in> set (gen_keys_from 0 ss) \<Longrightarrow> (i, v) \<in> set (gen_keys_from 0 ss) \<Longrightarrow> u = v"
  by (simp add: set_gen_keys_from)

lemma gen_sec_insert_keys:
  assumes "distinct ks" and sub: "insert k (set ks) \<subseteq> set (gen_keys_from 0 ss)"
  shows "distinct (gen_sec_insert k ks) \<and> set (gen_sec_insert k ks) = insert k (set ks)"
proof (cases "fst k \<in> set (map fst ks)")
  case True
  have same: "q = k" if "q \<in> set ks" "fst q = fst k" for q
    using that sub gen_keys_slot_unique [of "fst k" "snd q" ss "snd k"] by (cases q; cases k) auto
  from True same have "k \<in> set ks" by force
  moreover have "map (\<lambda>q. if fst q = fst k then (fst k, max (snd q) (snd k)) else q) ks = ks"
    by (intro map_idI) (auto dest: same)
  ultimately show ?thesis using True assms(1) by (auto simp: gen_sec_insert_def)
next
  case False
  let ?p = "\<lambda>q. fst q < fst k"
  have eq: "gen_sec_insert k ks = takeWhile ?p ks @ k # dropWhile ?p ks"
    using False by (auto simp: gen_sec_insert_def)
  have "mset (gen_sec_insert k ks) = add_mset k (mset (takeWhile ?p ks @ dropWhile ?p ks))"
    unfolding eq by (simp only: mset_append mset.simps union_mset_add_mset_right)
  then have "mset (gen_sec_insert k ks) = mset (k # ks)" by simp
  moreover from False have "k \<notin> set ks" by force
  ultimately show ?thesis using assms(1)
    by (metis distinct.simps(2) list.simps(15) mset_eq_imp_distinct_iff mset_eq_setD)
qed

interpretation gen: slot_map gen_ops
  by unfold_locales
    (simp_all add: gen_ops_def distinct_gen_keys_from gen_alloc_fresh gen_alloc_keys gen_free_keys
      gen_sec_insert_keys)

end
