(* ===== verification/Registry.thy ===== *)
theory Registry
  imports Node SlotMap
begin

section \<open>Registries (\<open>src/src/registry.rs\<close>)\<close>

text \<open>
  A registry maps node ids to weak references of nodes and, inversely, raw node pointers to
  ids. Its operations are functions of the registry and, where they clone, upgrade or drop a
  reference, of the node heap. A program holds registries behind \<open>Rc<RefCell<Registry>>\<close>: the
  record \<open>world\<close> has a heap of nodes and a heap of registries.
\<close>

record ('k, 's) Registry =
  reg_nodes :: "('k, 's, RelWeak) SlotMap"
  ptr_to_id :: "addr \<Rightarrow> 'k option"

record ('n, 'e, 'k, 's) world =
  mem :: "('n, 'e) node_heap"
  regs :: "('k, 's) Registry heap"

lemma world_updates_swap [simp]: "w\<lparr>regs := g, mem := h\<rparr> = w\<lparr>mem := h, regs := g\<rparr>"
  by simp

subsection \<open>Operations on a registry\<close>

definition registry_new :: "('k, 's) slotmap_ops \<Rightarrow> ('k, 's) Registry" where
  "registry_new ops = \<lparr>reg_nodes = slotmap_with_key ops, ptr_to_id = Map.empty\<rparr>"

text \<open>The derived \<open>Clone\<close>: both maps are copied, and with the slot map the weak references in it.\<close>

definition registry_clone ::
  "('k, 's) slotmap_ops \<Rightarrow> ('k, 's) Registry \<Rightarrow> ('n, 'e) node_heap \<Rightarrow> ('k, 's) Registry \<times> ('n, 'e) node_heap" where
  "registry_clone ops R h =
     (\<lparr>reg_nodes = reg_nodes R, ptr_to_id = ptr_to_id R\<rparr>, fold weak_clone (map snd (slotmap_iter ops (reg_nodes R))) h)"

text \<open>Collecting into a hash map keeps the last id of a pointer.\<close>

definition from_slotmap ::
  "('k, 's) slotmap_ops \<Rightarrow> ('k, 's, RelWeak) SlotMap \<Rightarrow> ('k, 's) Registry" where
  "from_slotmap ops m =
     \<lparr>reg_nodes = m,
      ptr_to_id = map_of (rev (map (\<lambda>(nid, w). (relweak_as_ptr w, nid)) (slotmap_iter ops m)))\<rparr>"

definition get_id :: "RelRc \<Rightarrow> ('k, 's) Registry \<Rightarrow> 'k option" where
  "get_id node R = ptr_to_id R (as_ptr node)"

definition add_node ::
  "('k, 's) slotmap_ops \<Rightarrow> RelRc \<Rightarrow> ('k, 's) Registry \<Rightarrow> ('n, 'e) node_heap \<Rightarrow>
   'k \<times> ('k, 's) Registry \<times> ('n, 'e) node_heap" where
  "add_node ops node R h =
     (case get_id node R of
        Some existing_id \<Rightarrow> (existing_id, R, h)
      | None \<Rightarrow>
          (let (weak_ref, h') = relrc_downgrade node h;
               (nid, m) = slotmap_insert ops weak_ref (reg_nodes R)
           in (nid, \<lparr>reg_nodes = m, ptr_to_id = (ptr_to_id R)(as_ptr node \<mapsto> nid)\<rparr>, h')))"

definition get_id_or_insert ::
  "('k, 's) slotmap_ops \<Rightarrow> RelRc \<Rightarrow> ('k, 's) Registry \<Rightarrow> ('n, 'e) node_heap \<Rightarrow>
   'k \<times> ('k, 's) Registry \<times> ('n, 'e) node_heap" where
  "get_id_or_insert ops node R h =
     (case get_id node R of Some nid \<Rightarrow> (nid, R, h) | None \<Rightarrow> add_node ops node R h)"

definition registry_contains :: "RelRc \<Rightarrow> ('k, 's) Registry \<Rightarrow> bool" where
  "registry_contains node R \<longleftrightarrow> get_id node R \<noteq> None"

text \<open>\<open>get\<close> clones the weak reference, upgrades the clone and drops it.\<close>

definition registry_get ::
  "('k, 's) slotmap_ops \<Rightarrow> 'k \<Rightarrow> ('k, 's) Registry \<Rightarrow> ('n, 'e) node_heap \<Rightarrow>
   RelRc option \<times> ('n, 'e) node_heap" where
  "registry_get ops nid R h =
     (case slotmap_get ops nid (reg_nodes R) of
        None \<Rightarrow> (None, h)
      | Some weak_ref \<Rightarrow>
          (let (r, h') = relweak_upgrade weak_ref (weak_clone weak_ref h)
           in (r, weak_drop weak_ref h')))"

text \<open>
  \<open>contains_id\<close> tests whether \<open>get\<close> finds a node and drops the reference it returned. That
  reference is never the last one, so its drop only decrements the count.
\<close>

definition contains_id ::
  "('k, 's) slotmap_ops \<Rightarrow> 'k \<Rightarrow> ('k, 's) Registry \<Rightarrow> ('n, 'e) node_heap \<Rightarrow>
   bool \<times> ('n, 'e) node_heap" where
  "contains_id ops nid R h =
     (case registry_get ops nid R h of
        (None, h') \<Rightarrow> (False, h')
      | (Some node, h') \<Rightarrow> (True, rc_release node h'))"

definition registry_remove ::
  "('k, 's) slotmap_ops \<Rightarrow> 'k \<Rightarrow> ('k, 's) Registry \<Rightarrow> ('n, 'e) node_heap \<Rightarrow>
   ('k, 's) Registry \<times> ('n, 'e) node_heap" where
  "registry_remove ops nid R h =
     (let (weak_ref, m) = slotmap_remove ops nid (reg_nodes R)
      in case weak_ref of
           None \<Rightarrow> (R\<lparr>reg_nodes := m\<rparr>, h)
         | Some w \<Rightarrow>
             (\<lparr>reg_nodes = m, ptr_to_id = (ptr_to_id R)(relweak_as_ptr w := None)\<rparr>, weak_drop w h))"

text \<open>
  \<open>free_node_ids\<close>: the entries whose weak reference does not upgrade (the reference that
  \<open>upgrade().is_none()\<close> makes is dropped within the expression, so the heap is as before it);
  then the removal of their ids, each dropping its weak reference, and of their pointers.
\<close>

definition dead_entries ::
  "('k, 's) slotmap_ops \<Rightarrow> ('k, 's) Registry \<Rightarrow> ('n, 'e) node_heap \<Rightarrow> ('k \<times> RelWeak) list" where
  "dead_entries ops R h =
     filter (\<lambda>(nid, weak_ref). fst (relweak_upgrade weak_ref h) = None) (slotmap_iter ops (reg_nodes R))"

definition remove_slot ::
  "('k, 's) slotmap_ops \<Rightarrow> 'k \<Rightarrow> ('k, 's, RelWeak) SlotMap \<times> ('n, 'e) node_heap \<Rightarrow>
   ('k, 's, RelWeak) SlotMap \<times> ('n, 'e) node_heap" where
  "remove_slot ops nid st =
     (case st of (m, h) \<Rightarrow>
       (case slotmap_remove ops nid m of
          (None, m') \<Rightarrow> (m', h)
        | (Some w, m') \<Rightarrow> (m', weak_drop w h)))"

definition free_node_ids ::
  "('k, 's) slotmap_ops \<Rightarrow> ('k, 's) Registry \<Rightarrow> ('n, 'e) node_heap \<Rightarrow>
   nat \<times> ('k, 's) Registry \<times> ('n, 'e) node_heap" where
  "free_node_ids ops R h =
     (let dead = dead_entries ops R h;
          (m, h') = fold (remove_slot ops) (map fst dead) (reg_nodes R, h);
          ptrs = fold (\<lambda>ptr f. f(ptr := None)) (map (relweak_as_ptr \<circ> snd) dead) (ptr_to_id R)
      in (slotmap_len ops m, \<lparr>reg_nodes = m, ptr_to_id = ptrs\<rparr>, h'))"

text \<open>\<open>iter\<close> upgrades each entry, and skips those that do not upgrade.\<close>

fun upgrade_entries ::
  "('k \<times> RelWeak) list \<Rightarrow> ('n, 'e) node_heap \<Rightarrow> ('k \<times> RelRc) list \<times> ('n, 'e) node_heap" where
  "upgrade_entries [] h = ([], h)"
| "upgrade_entries ((nid, w) # es) h =
     (case relweak_upgrade w h of
        (None, h') \<Rightarrow> upgrade_entries es h'
      | (Some node, h') \<Rightarrow>
          (let (rest, h'') = upgrade_entries es h' in ((nid, node) # rest, h'')))"

definition registry_iter ::
  "('k, 's) slotmap_ops \<Rightarrow> ('k, 's) Registry \<Rightarrow> ('n, 'e) node_heap \<Rightarrow>
   ('k \<times> RelRc) list \<times> ('n, 'e) node_heap" where
  "registry_iter ops R h = upgrade_entries (slotmap_iter ops (reg_nodes R)) h"

definition registry_len :: "('k, 's) slotmap_ops \<Rightarrow> ('k, 's) Registry \<Rightarrow> nat" where
  "registry_len ops R = slotmap_len ops (reg_nodes R)"

definition registry_is_empty :: "('k, 's) slotmap_ops \<Rightarrow> ('k, 's) Registry \<Rightarrow> bool" where
  "registry_is_empty ops R \<longleftrightarrow> registry_len ops R = 0"

definition as_slotmap :: "('k, 's) Registry \<Rightarrow> ('k, 's, RelWeak) SlotMap" where
  "as_slotmap R = reg_nodes R"

fun add_nodes ::
  "('k, 's) slotmap_ops \<Rightarrow> RelRc list \<Rightarrow> ('k, 's) Registry \<Rightarrow> ('n, 'e) node_heap \<Rightarrow>
   ('k, 's) Registry \<times> ('n, 'e) node_heap" where
  "add_nodes ops [] R h = (R, h)"
| "add_nodes ops (node # ns) R h =
     (let (_, R', h') = add_node ops node R h in add_nodes ops ns R' h')"

definition registry_from_iter ::
  "('k, 's) slotmap_ops \<Rightarrow> RelRc list \<Rightarrow> ('n, 'e) node_heap \<Rightarrow>
   ('k, 's) Registry \<times> ('n, 'e) node_heap" where
  "registry_from_iter ops ns h = add_nodes ops ns (registry_new ops) h"

subsection \<open>Registries behind \<open>Rc<RefCell<Registry>>\<close>\<close>

definition rc_registry ::
  "allocator \<Rightarrow> ('k, 's) Registry \<Rightarrow> ('n, 'e, 'k, 's) world \<Rightarrow> addr \<times> ('n, 'e, 'k, 's) world" where
  "rc_registry al R w = (let (r, g) = rc_new al R (regs w) in (r, w\<lparr>regs := g\<rparr>))"

text \<open>A method called through \<open>registry.borrow_mut()\<close>: it updates the registry and the node heap.\<close>

definition with_registry_mut ::
  "addr \<Rightarrow> (('k, 's) Registry \<Rightarrow> ('n, 'e) node_heap \<Rightarrow> 'r \<times> ('k, 's) Registry \<times> ('n, 'e) node_heap) \<Rightarrow>
   ('n, 'e, 'k, 's) world \<Rightarrow> 'r option \<times> ('n, 'e, 'k, 's) world" where
  "with_registry_mut r f w =
     (case deref (regs w) r of
        None \<Rightarrow> (None, w)
      | Some R \<Rightarrow>
          (let (x, R', h') = f R (mem w)
           in (Some x, w\<lparr>mem := h', regs := set_payload r (\<lambda>_. R') (regs w)\<rparr>)))"

lemma with_registry_mut_mem:
  "mem (snd (with_registry_mut r f w)) =
     (case deref (regs w) r of None \<Rightarrow> mem w | Some R \<Rightarrow> snd (snd (f R (mem w))))"
  by (simp add: with_registry_mut_def split: option.splits prod.splits)

lemma with_registry_mut_regs:
  "deref (regs (snd (with_registry_mut r f w))) x =
     (if x = r then map_option (\<lambda>R. fst (snd (f R (mem w)))) (deref (regs w) r) else deref (regs w) x)"
  by (auto simp: with_registry_mut_def deref_set_payload split: option.splits prod.splits)

definition node_registry :: "RelRc \<Rightarrow> ('n, 'e) node_heap \<Rightarrow> addr option" where
  "node_registry a h = (case deref h a of None \<Rightarrow> None | Some d \<Rightarrow> registry d)"

text \<open>\<open>RelRc::registry\<close>: a strong reference to the node's registry, if it is still alive.\<close>

definition relrc_registry ::
  "RelRc \<Rightarrow> ('n, 'e, 'k, 's) world \<Rightarrow> addr option \<times> ('n, 'e, 'k, 's) world" where
  "relrc_registry a w =
     (case node_registry a (mem w) of
        None \<Rightarrow> (None, w)
      | Some r \<Rightarrow> (let (x, g) = weak_upgrade r (regs w) in (x, w\<lparr>regs := g\<rparr>)))"

text \<open>
  \<open>try_set_register\<close> downgrades the registry first; the weak reference is dropped when the node
  already names a registry and moved into the node otherwise.
\<close>

definition try_set_register ::
  "RelRc \<Rightarrow> addr \<Rightarrow> ('n, 'e, 'k, 's) world \<Rightarrow> bool \<times> ('n, 'e, 'k, 's) world" where
  "try_set_register a r w =
     (let g = rc_downgrade r (regs w) in
      case node_registry a (mem w) of
        Some existing \<Rightarrow> (existing = r, w\<lparr>regs := weak_drop r g\<rparr>)
      | None \<Rightarrow> (True, w\<lparr>mem := set_payload a (\<lambda>d. d\<lparr>registry := Some r\<rparr>) (mem w), regs := g\<rparr>))"

definition try_register_in ::
  "('k, 's) slotmap_ops \<Rightarrow> RelRc \<Rightarrow> addr \<Rightarrow> ('n, 'e, 'k, 's) world \<Rightarrow>
   'k option \<times> ('n, 'e, 'k, 's) world" where
  "try_register_in ops a r w =
     (case try_set_register a r w of
        (False, w') \<Rightarrow> (None, w')
      | (True, w') \<Rightarrow> with_registry_mut r (add_node ops a) w')"

end
