(* ===== verification/Drop.thy ===== *)
theory Drop
  imports Registry
begin

section \<open>Dropping references (\<open>Drop for RelRc\<close> in \<open>src/src/node.rs\<close>)\<close>

text \<open>
  Dropping the last \<open>RelRc\<close> of a node takes the node out of its registry and then drops its
  data: the value, each incoming edge (its source, a \<open>RelRc\<close>, then its weak target), each
  outgoing weak edge, and the weak reference to the registry. Dropping a source may in turn
  drop its data. The pending drops form a stack, in the order in which Rust runs them.
\<close>

datatype drop_task = DropRelRc RelRc | DropRelWeak RelWeak | DropWeakRegistry addr

text \<open>
  The body of \<open>RelRc::drop\<close> for the last reference: the registry field is taken; if the
  registry is alive (\<open>upgrade\<close> makes a strong reference, dropped at the end) and knows the
  node, the node's id is removed. The taken weak reference is dropped last.
\<close>

definition forget_node ::
  "('k, 's) slotmap_ops \<Rightarrow> RelRc \<Rightarrow> ('k, 's) Registry \<Rightarrow> ('n, 'e) node_heap \<Rightarrow>
   unit \<times> ('k, 's) Registry \<times> ('n, 'e) node_heap" where
  "forget_node ops a R h =
     (case get_id a R of None \<Rightarrow> ((), R, h) | Some nid \<Rightarrow> ((), registry_remove ops nid R h))"

definition unregister ::
  "('k, 's) slotmap_ops \<Rightarrow> RelRc \<Rightarrow> ('n, 'e, 'k, 's) world \<Rightarrow> ('n, 'e, 'k, 's) world" where
  "unregister ops a w =
     (case node_registry a (mem w) of
        None \<Rightarrow> w
      | Some r \<Rightarrow>
          (let w1 = w\<lparr>mem := set_payload a (\<lambda>d. d\<lparr>registry := None\<rparr>) (mem w)\<rparr>;
               w2 = (case weak_upgrade r (regs w1) of
                       (None, _) \<Rightarrow> w1
                     | (Some _, g) \<Rightarrow>
                         (let w' = snd (with_registry_mut r (forget_node ops a) (w1\<lparr>regs := g\<rparr>))
                          in w'\<lparr>regs := rc_release r (regs w')\<rparr>))
           in w2\<lparr>regs := weak_drop r (regs w2)\<rparr>))"

text \<open>The drops of the fields of a node's data, followed by that of the implicit weak reference.\<close>

definition field_drops :: "RelRc \<Rightarrow> ('n, 'e) InnerData \<Rightarrow> drop_task list" where
  "field_drops a d =
     concat (map (\<lambda>e. [DropRelRc (source e), DropRelWeak (target e)]) (incoming d)) @
     map (\<lambda>e. DropRelWeak (we_target e)) (outgoing d) @
     (case registry d of None \<Rightarrow> [] | Some r \<Rightarrow> [DropWeakRegistry r]) @
     [DropRelWeak a]"

definition total_strong :: "'a heap \<Rightarrow> nat" where
  "total_strong h = (\<Sum>b\<leftarrow>h. strong b)"

lemma total_strong_upd:
  "a < length h \<Longrightarrow> total_strong (upd a f h) + strong (box h a) = total_strong h + strong (f (box h a))"
  using sum_list_update_cancel [of a h strong "f (box h a)"] by (simp add: total_strong_def upd_def box_def)

lemma total_strong_upd_same:
  "strong (f (box h a)) = strong (box h a) \<Longrightarrow> total_strong (upd a f h) = total_strong h"
  using total_strong_upd [of a h f] by (cases "a < length h") (simp_all add: upd_def list_update_beyond)

lemma total_strong_weak_drop [simp]: "total_strong (weak_drop a h) = total_strong h"
  by (simp add: weak_drop_def total_strong_upd_same)

lemma total_strong_set_payload [simp]: "total_strong (set_payload a f h) = total_strong h"
  by (simp add: set_payload_def total_strong_upd_same)

lemma total_strong_release:
  "0 < strong (box h a) \<Longrightarrow> total_strong (rc_release a h) < total_strong h"
  using total_strong_upd [of a h "\<lambda>b. b\<lparr>strong := strong b - 1\<rparr>"] in_range_strong [of h a]
  by (simp add: rc_release_def)

lemma total_strong_take:
  "0 < strong (box h a) \<Longrightarrow> rc_take a h = (x, h') \<Longrightarrow> total_strong h' < total_strong h"
  using total_strong_upd [of a h "\<lambda>b. b\<lparr>strong := strong b - 1, payload := None\<rparr>"] in_range_strong [of h a]
  by (auto simp: rc_take_def)

lemma registry_remove_mem:
  "registry_remove ops nid R h = (R', h') \<Longrightarrow> h' = h \<or> (\<exists>x. h' = weak_drop x h)"
  by (auto simp: registry_remove_def split: prod.splits option.splits)

lemma unregister_mem:
  "mem (unregister ops a w) = mem w \<or>
   (\<exists>f. mem (unregister ops a w) = set_payload a f (mem w)) \<or>
   (\<exists>f x. mem (unregister ops a w) = weak_drop x (set_payload a f (mem w)))"
  by (auto simp: unregister_def with_registry_mut_def forget_node_def Let_def dest!: registry_remove_mem
      split: option.splits prod.splits)

lemma unregister_strong:
  "strong (box (mem (unregister ops a w)) x) = strong (box (mem w) x)"
  "total_strong (mem (unregister ops a w)) = total_strong (mem w)"
  using unregister_mem [of ops a w] by (auto simp: heap_simps)

function drop_tasks ::
  "('k, 's) slotmap_ops \<Rightarrow> drop_task list \<Rightarrow> ('n, 'e, 'k, 's) world \<Rightarrow> ('n, 'e, 'k, 's) world" where
  "drop_tasks ops [] w = w"
| "drop_tasks ops (DropRelWeak a # ts) w = drop_tasks ops ts (w\<lparr>mem := weak_drop a (mem w)\<rparr>)"
| "drop_tasks ops (DropWeakRegistry r # ts) w = drop_tasks ops ts (w\<lparr>regs := weak_drop r (regs w)\<rparr>)"
| "drop_tasks ops (DropRelRc a # ts) w =
     (if strong_count a (mem w) = 0 then drop_tasks ops ts w
      else if strong_count a (mem w) > 1 then drop_tasks ops ts (w\<lparr>mem := rc_release a (mem w)\<rparr>)
      else
        (let w1 = unregister ops a w;
             (data, h) = rc_take a (mem w1)
         in drop_tasks ops
              ((case data of None \<Rightarrow> [] | Some d \<Rightarrow> field_drops a d) @ ts) (w1\<lparr>mem := h\<rparr>)))"
  by pat_completeness auto
termination
proof (relation "measures [\<lambda>(ops, ts, w). total_strong (mem w), \<lambda>(ops, ts, w). length ts]", goal_cases)
  case (6 ops a ts w w1 x data h)
  then have "rc_take a (mem w1) = (data, h)" and "0 < strong (box (mem w1) a)"
    by (simp_all add: strong_count_def unregister_strong)
  then have "total_strong h < total_strong (mem w1)" by (intro total_strong_take)
  with 6 show ?case by (simp add: unregister_strong)
qed (auto simp: total_strong_release strong_count_def)

text \<open>The drop of a \<open>RelRc\<close> handle.\<close>

definition relrc_drop ::
  "('k, 's) slotmap_ops \<Rightarrow> RelRc \<Rightarrow> ('n, 'e, 'k, 's) world \<Rightarrow> ('n, 'e, 'k, 's) world" where
  "relrc_drop ops a w = drop_tasks ops [DropRelRc a] w"

text \<open>
  The drop of an \<open>Rc<RefCell<Registry>>\<close> handle: with the last one the registry goes, and
  with it the weak references it stores.
\<close>

definition rc_registry_drop ::
  "('k, 's) slotmap_ops \<Rightarrow> addr \<Rightarrow> ('n, 'e, 'k, 's) world \<Rightarrow> ('n, 'e, 'k, 's) world" where
  "rc_registry_drop ops r w =
     (if strong_count r (regs w) > 1 then w\<lparr>regs := rc_release r (regs w)\<rparr>
      else
        (let (data, g) = rc_take r (regs w) in
         case data of
           None \<Rightarrow> w
         | Some R \<Rightarrow>
             (let w1 = drop_tasks ops
                    (map (\<lambda>e. DropRelWeak (snd e)) (slotmap_iter ops (reg_nodes R))) (w\<lparr>regs := g\<rparr>)
              in w1\<lparr>regs := weak_drop r (regs w1)\<rparr>)))"

text \<open>\<open>n_outgoing\<close> counts the edges that \<open>all_outgoing\<close> returns, and drops them.\<close>

definition n_outgoing ::
  "('k, 's) slotmap_ops \<Rightarrow> RelRc \<Rightarrow> ('n, 'e, 'k, 's) world \<Rightarrow> nat \<times> ('n, 'e, 'k, 's) world" where
  "n_outgoing ops a w =
     (let (edges, h) = all_outgoing a (mem w)
      in (length edges, drop_tasks ops (map (\<lambda>e. DropRelRc (e_target e)) edges) (w\<lparr>mem := h\<rparr>)))"

end
