(* ===== verification/History.thy ===== *)
theory History
  imports Drop
begin

section \<open>History graphs (\<open>src/src/history.rs\<close>)\<close>

text \<open>
  A history graph owns a set of nodes, stored by node id, and a handle of the registry that
  assigns the ids. Its queries read the node heap and the registry. Those that a program
  reaches through \<open>&self\<close> but that upgrade references return the changed world as well.
\<close>

record 'k HistoryGraph =
  hg_nodes :: "('k, RelRc) SecondaryMap"
  hg_registry :: addr

record 'k EdgeId =
  eid_target :: 'k
  eid_index :: nat

text \<open>The derived order of \<open>EdgeId\<close>: first by the target, then by the index.\<close>

definition EdgeId_le :: "('k::linorder, 'z::linorder) EdgeId_scheme \<Rightarrow> ('k, 'z) EdgeId_scheme \<Rightarrow> bool" where
  "EdgeId_le e f \<longleftrightarrow> (eid_target e, eid_index e, EdgeId.more e) \<le> (eid_target f, eid_index f, EdgeId.more f)"

definition EdgeId_lt :: "('k::linorder, 'z::linorder) EdgeId_scheme \<Rightarrow> ('k, 'z) EdgeId_scheme \<Rightarrow> bool" where
  "EdgeId_lt e f \<longleftrightarrow> (eid_target e, eid_index e, EdgeId.more e) < (eid_target f, eid_index f, EdgeId.more f)"

instantiation EdgeId_ext :: (linorder, linorder) linorder
begin

definition less_eq_EdgeId_ext :: "('a, 'b) EdgeId_ext \<Rightarrow> ('a, 'b) EdgeId_ext \<Rightarrow> bool" where
  "less_eq_EdgeId_ext = EdgeId_le"

definition less_EdgeId_ext :: "('a, 'b) EdgeId_ext \<Rightarrow> ('a, 'b) EdgeId_ext \<Rightarrow> bool" where
  "less_EdgeId_ext = EdgeId_lt"

instance
  by standard (auto simp: less_eq_EdgeId_ext_def less_EdgeId_ext_def EdgeId_le_def EdgeId_lt_def)

end

lemma EdgeId_less_iff:
  "e < f \<longleftrightarrow> eid_target e < eid_target f \<or> eid_target e = eid_target f \<and> eid_index e < eid_index (f :: 'k::linorder EdgeId)"
  by (auto simp: less_EdgeId_ext_def EdgeId_lt_def)

subsection \<open>Queries\<close>

definition hg_get_id :: "'k HistoryGraph \<Rightarrow> RelRc \<Rightarrow> ('n, 'e, 'k, 's) world \<Rightarrow> 'k option" where
  "hg_get_id g node w =
     (case deref (regs w) (hg_registry g) of None \<Rightarrow> None | Some R \<Rightarrow> get_id node R)"

definition get_node_id :: "'k HistoryGraph \<Rightarrow> RelRc \<Rightarrow> ('n, 'e, 'k, 's) world \<Rightarrow> 'k option" where
  "get_node_id g node w =
     (case hg_get_id g node w of
        None \<Rightarrow> None
      | Some nid \<Rightarrow> if sec_contains_key nid (hg_nodes g) then Some nid else None)"

definition hg_registry_ref :: "'k HistoryGraph \<Rightarrow> addr" where
  "hg_registry_ref g = hg_registry g"

definition all_node_ids :: "'k HistoryGraph \<Rightarrow> 'k list" where
  "all_node_ids g = sec_keys (hg_nodes g)"

definition hg_contains_id :: "'k HistoryGraph \<Rightarrow> 'k \<Rightarrow> bool" where
  "hg_contains_id g nid \<longleftrightarrow> sec_contains_key nid (hg_nodes g)"

definition hg_contains :: "'k HistoryGraph \<Rightarrow> RelRc \<Rightarrow> ('n, 'e, 'k, 's) world \<Rightarrow> bool" where
  "hg_contains g node w =
     (case hg_get_id g node w of None \<Rightarrow> False | Some nid \<Rightarrow> hg_contains_id g nid)"

definition get_node :: "'k HistoryGraph \<Rightarrow> 'k \<Rightarrow> RelRc option" where
  "get_node g nid = sec_get nid (hg_nodes g)"

definition get_edge ::
  "'k HistoryGraph \<Rightarrow> 'k EdgeId \<Rightarrow> ('n, 'e, 'k, 's) world \<Rightarrow> 'e InnerEdgeData option" where
  "get_edge g eid w =
     (case get_node g (eid_target eid) of
        None \<Rightarrow> None
      | Some node \<Rightarrow>
          (case incoming_at node (eid_index eid) (mem w) of
             None \<Rightarrow> None
           | Some e \<Rightarrow> if hg_contains g (source e) w then Some e else None))"

definition contains_edge :: "'k HistoryGraph \<Rightarrow> 'k EdgeId \<Rightarrow> ('n, 'e, 'k, 's) world \<Rightarrow> bool" where
  "contains_edge g eid w \<longleftrightarrow> get_edge g eid w \<noteq> None"

definition edge_source :: "'k HistoryGraph \<Rightarrow> 'k EdgeId \<Rightarrow> ('n, 'e, 'k, 's) world \<Rightarrow> 'k option" where
  "edge_source g eid w =
     (case get_edge g eid w of None \<Rightarrow> None | Some e \<Rightarrow> get_node_id g (source e) w)"

definition edge_target :: "'k HistoryGraph \<Rightarrow> 'k EdgeId \<Rightarrow> ('n, 'e, 'k, 's) world \<Rightarrow> 'k option" where
  "edge_target g eid w = (if contains_edge g eid w then Some (eid_target eid) else None)"

definition incoming_edges :: "'k HistoryGraph \<Rightarrow> 'k \<Rightarrow> ('n, 'e, 'k, 's) world \<Rightarrow> 'k EdgeId list" where
  "incoming_edges g nid w =
     (let n = (case get_node g nid of None \<Rightarrow> 0 | Some node \<Rightarrow> n_incoming node (mem w))
      in filter (\<lambda>e. contains_edge g e w)
           (map (\<lambda>i. \<lparr>eid_target = nid, eid_index = i\<rparr>) [0..<n]))"

definition hg_parents :: "'k HistoryGraph \<Rightarrow> 'k \<Rightarrow> ('n, 'e, 'k, 's) world \<Rightarrow> 'k list" where
  "hg_parents g nid w = List.map_filter (\<lambda>e. edge_source g e w) (incoming_edges g nid w)"

text \<open>
  \<open>outgoing_edges\<close> upgrades the outgoing edges of the node, keeps those whose target is in the
  graph and drops the strong edges again.
\<close>

definition outgoing_edges ::
  "('k, 's) slotmap_ops \<Rightarrow> 'k HistoryGraph \<Rightarrow> 'k \<Rightarrow> ('n, 'e, 'k, 's) world \<Rightarrow>
   'k EdgeId list \<times> ('n, 'e, 'k, 's) world" where
  "outgoing_edges ops g nid w =
     (case get_node g nid of
        None \<Rightarrow> ([], w)
      | Some node \<Rightarrow>
          (let (edges, h) = all_outgoing node (mem w);
               w1 = w\<lparr>mem := h\<rparr>
           in (List.map_filter (\<lambda>e. map_option (\<lambda>t. \<lparr>eid_target = t, eid_index = e_index e\<rparr>)
                                      (get_node_id g (e_target e) w1)) edges,
               drop_tasks ops (map (\<lambda>e. DropRelRc (e_target e)) edges) w1)))"

definition hg_children ::
  "('k, 's) slotmap_ops \<Rightarrow> 'k HistoryGraph \<Rightarrow> 'k \<Rightarrow> ('n, 'e, 'k, 's) world \<Rightarrow>
   'k list \<times> ('n, 'e, 'k, 's) world" where
  "hg_children ops g nid w =
     (let (es, w') = outgoing_edges ops g nid w
      in (List.map_filter (\<lambda>e. edge_target g e w') es, w'))"

subsection \<open>Insertion\<close>

text \<open>
  \<open>insert_node\<close> takes the node by value: it is dropped when the node is in the graph already or
  cannot be registered, and owned by the graph otherwise.
\<close>

definition insert_node ::
  "('k, 's) slotmap_ops \<Rightarrow> RelRc \<Rightarrow> 'k HistoryGraph \<times> ('n, 'e, 'k, 's) world \<Rightarrow>
   'k option \<times> 'k HistoryGraph \<times> ('n, 'e, 'k, 's) world" where
  "insert_node ops node gw =
     (case gw of (g, w) \<Rightarrow>
       (case get_node_id g node w of
          Some nid \<Rightarrow> (Some nid, g, relrc_drop ops node w)
        | None \<Rightarrow>
            (case try_register_in ops node (hg_registry g) w of
               (None, w1) \<Rightarrow> (None, g, relrc_drop ops node w1)
             | (Some nid, w1) \<Rightarrow>
                 (let (old, m) = sec_insert ops nid node (hg_nodes g)
                  in (Some nid, g\<lparr>hg_nodes := m\<rparr>, drop_tasks ops (map DropRelRc old) w1)))))"

fun insert_nodes ::
  "('k, 's) slotmap_ops \<Rightarrow> RelRc list \<Rightarrow> 'k HistoryGraph \<times> ('n, 'e, 'k, 's) world \<Rightarrow>
   'k HistoryGraph \<times> ('n, 'e, 'k, 's) world" where
  "insert_nodes ops [] gw = gw"
| "insert_nodes ops (node # ns) gw = insert_nodes ops ns (snd (insert_node ops node gw))"

definition history_new ::
  "('k, 's) slotmap_ops \<Rightarrow> RelRc list \<Rightarrow> addr \<Rightarrow> ('n, 'e, 'k, 's) world \<Rightarrow>
   'k HistoryGraph \<times> ('n, 'e, 'k, 's) world" where
  "history_new ops ns r w = insert_nodes ops ns (\<lparr>hg_nodes = sec_new, hg_registry = r\<rparr>, w)"

definition history_with_registry ::
  "('k, 's) slotmap_ops \<Rightarrow> addr \<Rightarrow> ('n, 'e, 'k, 's) world \<Rightarrow>
   'k HistoryGraph \<times> ('n, 'e, 'k, 's) world" where
  "history_with_registry ops r w = history_new ops [] r w"

text \<open>The derived \<open>Default\<close>: no nodes, and a new registry behind an \<open>Rc\<close>.\<close>

definition history_default ::
  "allocator \<Rightarrow> ('k, 's) slotmap_ops \<Rightarrow> ('n, 'e, 'k, 's) world \<Rightarrow> 'k HistoryGraph \<times> ('n, 'e, 'k, 's) world" where
  "history_default al ops w =
     (let (r, w') = rc_registry al (registry_new ops) w in (\<lparr>hg_nodes = sec_new, hg_registry = r\<rparr>, w'))"

text \<open>\<open>from_nodes\<close> makes a new registry and puts it behind an \<open>Rc\<close>.\<close>

definition history_from_nodes ::
  "allocator \<Rightarrow> ('k, 's) slotmap_ops \<Rightarrow> RelRc list \<Rightarrow> ('n, 'e, 'k, 's) world \<Rightarrow>
   'k HistoryGraph \<times> ('n, 'e, 'k, 's) world" where
  "history_from_nodes al ops ns w =
     (let (r, w') = rc_registry al (registry_new ops) w in history_new ops ns r w')"

text \<open>
  \<open>insert_ancestors\<close> recurses over the parents that the graph does not contain. The recursion
  spends one unit of fuel per level; \<open>None\<close> is running out of it, which never happens with as
  much fuel as there are cells, because the graph is acyclic (theorem \<open>insert_ancestors_spec\<close>
  in \<open>History_Correct\<close>).
\<close>

fun insert_ancestors_fuel ::
  "nat \<Rightarrow> ('k, 's) slotmap_ops \<Rightarrow> RelRc \<Rightarrow> 'k HistoryGraph \<times> ('n, 'e, 'k, 's) world \<Rightarrow>
   ('k \<times> 'k HistoryGraph \<times> ('n, 'e, 'k, 's) world) res option"
and insert_parents_fuel ::
  "nat \<Rightarrow> ('k, 's) slotmap_ops \<Rightarrow> RelRc list \<Rightarrow> 'k HistoryGraph \<times> ('n, 'e, 'k, 's) world \<Rightarrow>
   ('k HistoryGraph \<times> ('n, 'e, 'k, 's) world) res option" where
  "insert_ancestors_fuel 0 ops node gw = None"
| "insert_ancestors_fuel (Suc n) ops node gw =
     (case insert_parents_fuel n ops (all_parents node (mem (snd gw))) gw of
        None \<Rightarrow> None
      | Some (Inl p) \<Rightarrow> Some (Inl p)
      | Some (Inr (g, w)) \<Rightarrow>
          (case insert_node ops node (g, w\<lparr>mem := relrc_clone node (mem w)\<rparr>) of
             (None, _) \<Rightarrow> Some (Inl (Expect ''node not registered''))
           | (Some nid, g', w') \<Rightarrow> Some (Inr (nid, g', relrc_drop ops node w'))))"
| "insert_parents_fuel n ops [] gw = Some (Inr gw)"
| "insert_parents_fuel n ops (p # ps) gw =
     (if hg_contains (fst gw) p (snd gw) then insert_parents_fuel n ops ps gw
      else
        (case insert_ancestors_fuel n ops p (fst gw, (snd gw)\<lparr>mem := relrc_clone p (mem (snd gw))\<rparr>) of
           None \<Rightarrow> None
         | Some (Inl q) \<Rightarrow> Some (Inl q)
         | Some (Inr (_, gw')) \<Rightarrow> insert_parents_fuel n ops ps gw'))"

definition insert_ancestors ::
  "('k, 's) slotmap_ops \<Rightarrow> RelRc \<Rightarrow> 'k HistoryGraph \<times> ('n, 'e, 'k, 's) world \<Rightarrow>
   ('k \<times> 'k HistoryGraph \<times> ('n, 'e, 'k, 's) world) res option" where
  "insert_ancestors ops node gw = insert_ancestors_fuel (Suc (length (mem (snd gw)))) ops node gw"

text \<open>
  Dropping a graph drops its nodes and then its registry handle. A clone of a graph clones
  both.
\<close>

definition history_drop ::
  "('k, 's) slotmap_ops \<Rightarrow> 'k HistoryGraph \<Rightarrow> ('n, 'e, 'k, 's) world \<Rightarrow> ('n, 'e, 'k, 's) world" where
  "history_drop ops g w =
     rc_registry_drop ops (hg_registry g) (drop_tasks ops (map DropRelRc (sec_values (hg_nodes g))) w)"

definition history_clone ::
  "'k HistoryGraph \<Rightarrow> ('n, 'e, 'k, 's) world \<Rightarrow> 'k HistoryGraph \<times> ('n, 'e, 'k, 's) world" where
  "history_clone g w =
     (g, w\<lparr>mem := fold rc_clone (sec_values (hg_nodes g)) (mem w),
          regs := rc_clone (hg_registry g) (regs w)\<rparr>)"

end
