(* ===== verification/Shape.thy ===== *)
theory Shape
  imports Node
begin

section \<open>The shape of the graph\<close>

text \<open>
  The part of the memory invariant that is about edges only. A shape gives, for each live node,
  its incoming edges and its outgoing weak edges. The invariant \<open>shape_inv\<close>: the target of an
  incoming edge is the node that owns it; an outgoing weak edge to a live node is there exactly
  for the incoming edges of that node that come from here, and only once; the relation from
  parents to children has no cycle. The weaker invariant \<open>shape_core\<close> is for memories in which
  the data of a node has been copied into another node: the copy has edges whose target is the
  original, and of a weak edge it only says that its index is in range when its target is alive. The locale
  \<open>shape_law\<close> is what the rest of the memory invariant needs of either: it survives the
  creation of a node, its disappearance and the pruning of dead outgoing edges, and has no cycle.
\<close>

type_synonym 'e shape = "addr \<Rightarrow> ('e InnerEdgeData list \<times> WeakEdge list) option"

definition shape :: "('n, 'e) node_heap \<Rightarrow> 'e shape" where
  "shape h a = map_option (\<lambda>d. (incoming d, outgoing d)) (deref h a)"

definition parent_rel :: "'e shape \<Rightarrow> (addr \<times> addr) set" where
  "parent_rel s = {(p, c). \<exists>es os. s c = Some (es, os) \<and> p \<in> source ` set es}"

definition shape_inv :: "'e shape \<Rightarrow> bool" where
  "shape_inv s \<longleftrightarrow>
     (\<forall>a es os. s a = Some (es, os) \<longrightarrow> (\<forall>e\<in>set es. target e = a) \<and> distinct os) \<and>
     (\<forall>p es os c es' os' i. s p = Some (es, os) \<longrightarrow> s c = Some (es', os') \<longrightarrow>
        (WeakEdge_new i c \<in> set os \<longleftrightarrow> i < length es' \<and> source (es' ! i) = p)) \<and>
     acyclic (parent_rel s)"

lemma shape_inv_targets: "shape_inv s \<Longrightarrow> s a = Some (es, os) \<Longrightarrow> e \<in> set es \<Longrightarrow> target e = a"
  by (simp add: shape_inv_def)

lemma shape_inv_distinct: "shape_inv s \<Longrightarrow> s a = Some (es, os) \<Longrightarrow> distinct os"
  by (simp add: shape_inv_def)

lemma shape_inv_outgoing:
  "shape_inv s \<Longrightarrow> s p = Some (es, os) \<Longrightarrow> s c = Some (es', os') \<Longrightarrow>
   WeakEdge_new i c \<in> set os \<longleftrightarrow> i < length es' \<and> source (es' ! i) = p"
  by (simp add: shape_inv_def)

lemma shape_inv_acyclic: "shape_inv s \<Longrightarrow> acyclic (parent_rel s)"
  by (simp add: shape_inv_def)

lemma shape_invI:
  assumes "\<And>a es os e. s a = Some (es, os) \<Longrightarrow> e \<in> set es \<Longrightarrow> target e = a"
    and "\<And>a es os. s a = Some (es, os) \<Longrightarrow> distinct os"
    and "\<And>p es os c es' os' i. s p = Some (es, os) \<Longrightarrow> s c = Some (es', os') \<Longrightarrow>
      WeakEdge_new i c \<in> set os \<longleftrightarrow> i < length es' \<and> source (es' ! i) = p"
    and "acyclic (parent_rel s)"
  shows "shape_inv s"
  using assms by (simp add: shape_inv_def)

text \<open>A node disappears, or loses the outgoing edges whose target is gone.\<close>

lemma shape_inv_kill:
  assumes "shape_inv s"
  shows "shape_inv (s(a := None))"
proof (rule shape_invI)
  have "parent_rel (s(a := None)) \<subseteq> parent_rel s" by (auto simp: parent_rel_def split: if_splits)
  with assms show "acyclic (parent_rel (s(a := None)))"
    by (blast intro: acyclic_subset shape_inv_acyclic)
next
  fix p es os c es' os' i
  assume "(s(a := None)) p = Some (es, os)" "(s(a := None)) c = Some (es', os')"
  then have "s p = Some (es, os)" "s c = Some (es', os')" by (simp_all split: if_splits)
  with assms show "WeakEdge_new i c \<in> set os \<longleftrightarrow> i < length es' \<and> source (es' ! i) = p"
    by (rule shape_inv_outgoing)
qed (use assms in \<open>auto dest: shape_inv_targets shape_inv_distinct split: if_splits\<close>)

lemma shape_inv_prune:
  assumes inv: "shape_inv s" and a: "s a = Some (es, os)"
    and os': "os' = filter (\<lambda>e. s (we_target e) \<noteq> None) os"
  shows "shape_inv (s(a \<mapsto> (es, os')))"
proof (rule shape_invI)
  have "parent_rel (s(a \<mapsto> (es, os'))) = parent_rel s"
    using a by (auto simp: parent_rel_def split: if_splits)
  with inv show "acyclic (parent_rel (s(a \<mapsto> (es, os'))))" by (simp add: shape_inv_acyclic)
next
  fix p ep op c ec oc i
  assume p: "(s(a \<mapsto> (es, os'))) p = Some (ep, op)" and c: "(s(a \<mapsto> (es, os'))) c = Some (ec, oc)"
  from c a obtain oc0 where c0: "s c = Some (ec, oc0)" by (auto split: if_splits)
  from p a obtain op0 where p0: "s p = Some (ep, op0)"
      and "WeakEdge_new i c \<in> set op \<longleftrightarrow> WeakEdge_new i c \<in> set op0"
    using c0 os' by (cases "p = a") auto
  with shape_inv_outgoing [OF inv p0 c0, of i]
  show "WeakEdge_new i c \<in> set op \<longleftrightarrow> i < length ec \<and> source (ec ! i) = p" by simp
qed (use inv a os' in \<open>auto dest: shape_inv_targets shape_inv_distinct split: if_splits\<close>)

text \<open>A node is created: its parents get one more outgoing edge for each edge to it.\<close>

fun new_outgoing_from :: "nat \<Rightarrow> addr \<Rightarrow> addr list \<Rightarrow> addr \<Rightarrow> WeakEdge list" where
  "new_outgoing_from i a [] x = []"
| "new_outgoing_from i a (p # ps) x =
     (if p = x then [WeakEdge_new i a] else []) @ new_outgoing_from (Suc i) a ps x"

abbreviation new_outgoing :: "addr \<Rightarrow> addr list \<Rightarrow> addr \<Rightarrow> WeakEdge list" where
  "new_outgoing \<equiv> new_outgoing_from 0"

lemma set_new_outgoing_from:
  "WeakEdge_new j c \<in> set (new_outgoing_from i a ps x) \<longleftrightarrow>
   c = a \<and> i \<le> j \<and> j - i < length ps \<and> ps ! (j - i) = x"
proof (induction ps arbitrary: i)
  case (Cons p ps)
  consider "j < i" | "j = i" | m where "j = Suc (i + m)" by (metis less_iff_Suc_add not_less_iff_gr_or_eq)
  then show ?case using Cons.IH [of "Suc i"] by cases auto
qed simp

lemma new_outgoing_from_target: "e \<in> set (new_outgoing_from i a ps x) \<Longrightarrow> we_target e = a"
  by (induction i a ps x rule: new_outgoing_from.induct) (auto split: if_splits)

lemma distinct_new_outgoing_from: "distinct (new_outgoing_from i a ps x)"
  by (induction i a ps x rule: new_outgoing_from.induct) (auto simp: set_new_outgoing_from)

lemma set_new_outgoing:
  "WeakEdge_new i c \<in> set (new_outgoing a ps x) \<longleftrightarrow> c = a \<and> i < length ps \<and> ps ! i = x"
  by (simp add: set_new_outgoing_from)

definition extend_shape :: "addr \<Rightarrow> 'e InnerEdgeData list \<Rightarrow> 'e shape \<Rightarrow> 'e shape" where
  "extend_shape a es s = (\<lambda>x. if x = a then Some (es, [])
     else map_option (\<lambda>(ex, ox). (ex, ox @ new_outgoing a (map source es) x)) (s x))"

lemma acyclic_new_sink:
  assumes "acyclic r" and sub: "r' \<subseteq> r \<union> UNIV \<times> {a}" and "a \<notin> Domain r'"
  shows "acyclic r'"
proof (rule acyclicI, intro allI notI)
  have step: "(x, y) \<in> r'\<^sup>+ \<Longrightarrow> y \<noteq> a \<Longrightarrow> (x, y) \<in> r\<^sup>+" for x y
  proof (induction rule: trancl_induct)
    case (base y)
    with sub show ?case by (auto intro: r_into_trancl)
  next
    case (step y z)
    with assms(3) sub have "y \<noteq> a" "(y, z) \<in> r" by auto
    with step.IH show ?case by (meson trancl.trancl_into_trancl)
  qed
  fix x assume cyc: "(x, x) \<in> r'\<^sup>+"
  then have "x \<in> Domain r'" by (metis Domain.DomainI trancl_domain)
  with assms(3) have "x \<noteq> a" by auto
  with cyc step \<open>acyclic r\<close> show False by (auto simp: acyclic_def)
qed

lemma extend_shape_outgoing:
  assumes inv: "shape_inv s" and fresh: "s a = None"
    and es: "\<forall>e\<in>set es. target e = a \<and> s (source e) \<noteq> None"
    and unref: "\<And>x ex ox. s x = Some (ex, ox) \<Longrightarrow> (\<forall>e\<in>set ex. source e \<noteq> a) \<and> (\<forall>e\<in>set ox. we_target e \<noteq> a)"
    and p: "extend_shape a es s p = Some (ep, op)" and c: "extend_shape a es s c = Some (ec, oc)"
  shows "WeakEdge_new i c \<in> set op \<longleftrightarrow> i < length ec \<and> source (ec ! i) = p"
proof (cases "p = a")
  case True
  with p have "op = []" by (simp add: extend_shape_def)
  moreover have "\<forall>e\<in>set ec. source e \<noteq> a"
    using c es fresh unref by (fastforce simp: extend_shape_def split: if_splits)
  ultimately show ?thesis using True by auto
next
  case False
  with p obtain op0 where s: "s p = Some (ep, op0)" and op: "op = op0 @ new_outgoing a (map source es) p"
    by (auto simp: extend_shape_def)
  show ?thesis
  proof (cases "c = a")
    case True
    with c have "ec = es" by (simp add: extend_shape_def)
    moreover have "WeakEdge_new i a \<notin> set op0" using unref [OF s] by auto
    ultimately show ?thesis using True op by (auto simp: set_new_outgoing)
  next
    case False
    with c obtain oc0 where "s c = Some (ec, oc0)" by (auto simp: extend_shape_def)
    from shape_inv_outgoing [OF inv s this, of i] False op show ?thesis by (auto simp: set_new_outgoing)
  qed
qed

definition unreferenced :: "addr \<Rightarrow> 'e shape \<Rightarrow> bool" where
  "unreferenced a s \<longleftrightarrow> (\<forall>x ex ox. s x = Some (ex, ox) \<longrightarrow>
     (\<forall>e\<in>set ex. source e \<noteq> a \<and> target e \<noteq> a) \<and> (\<forall>e\<in>set ox. we_target e \<noteq> a))"

lemma unreferencedD:
  assumes "unreferenced a s" "s x = Some (ex, ox)"
  shows "(\<forall>e\<in>set ex. source e \<noteq> a) \<and> (\<forall>e\<in>set ox. we_target e \<noteq> a)" "e \<in> set ex \<Longrightarrow> target e \<noteq> a"
  using assms by (auto simp: unreferenced_def)

lemma extend_shape_acyclic:
  assumes "acyclic (parent_rel s)" "s a = None" "\<forall>e\<in>set es. s (source e) \<noteq> None" "unreferenced a s"
  shows "acyclic (parent_rel (extend_shape a es s))"
proof (rule acyclic_new_sink [OF assms(1)])
  show "parent_rel (extend_shape a es s) \<subseteq> parent_rel s \<union> UNIV \<times> {a}"
    by (auto simp: parent_rel_def extend_shape_def split: if_splits)
  show "a \<notin> Domain (parent_rel (extend_shape a es s))"
    using assms(2,3) unreferencedD(1) [OF assms(4)] by (fastforce simp: parent_rel_def extend_shape_def split: if_splits)
qed

lemma extend_shape_distinct:
  assumes unref: "unreferenced a s" and s: "\<And>x ex ox. s x = Some (ex, ox) \<Longrightarrow> distinct ox"
    and x: "extend_shape a es s x = Some (ex, ox)"
  shows "distinct ox"
proof (cases "x = a")
  case False
  with x obtain ox0 where s0: "s x = Some (ex, ox0)" and ox: "ox = ox0 @ new_outgoing a (map source es) x"
    by (auto simp: extend_shape_def)
  have "e \<notin> set (new_outgoing a (map source es) x)" if "e \<in> set ox0" for e
    using unreferencedD(1) [OF unref s0] that by (auto dest: new_outgoing_from_target)
  with s [OF s0] ox distinct_new_outgoing_from show ?thesis by auto
qed (use x in \<open>simp add: extend_shape_def\<close>)

lemma shape_inv_new:
  assumes inv: "shape_inv s" and fresh: "s a = None"
    and es: "\<forall>e\<in>set es. target e = a \<and> s (source e) \<noteq> None" and unref: "unreferenced a s"
  shows "shape_inv (extend_shape a es s)"
proof (rule shape_invI)
  show "acyclic (parent_rel (extend_shape a es s))"
    using extend_shape_acyclic [OF shape_inv_acyclic [OF inv] fresh _ unref] es by blast
next
  fix x ex ox assume x: "extend_shape a es s x = Some (ex, ox)"
  show "distinct ox" by (rule extend_shape_distinct [OF unref shape_inv_distinct [OF inv] x])
  fix e assume "e \<in> set ex"
  with x es inv show "target e = x"
    by (auto simp: extend_shape_def dest: shape_inv_targets split: if_splits)
next
  fix p ep op c ec oc i
  assume "extend_shape a es s p = Some (ep, op)" "extend_shape a es s c = Some (ec, oc)"
  from extend_shape_outgoing [OF inv fresh es unreferencedD(1) [OF unref] this]
  show "WeakEdge_new i c \<in> set op \<longleftrightarrow> i < length ec \<and> source (ec ! i) = p" .
qed

subsection \<open>Shapes with copied nodes\<close>

text \<open>A weak edge is valid when its target is dead or has an incoming edge at its index.\<close>

definition valid_weak :: "'e shape \<Rightarrow> WeakEdge \<Rightarrow> bool" where
  "valid_weak s e \<longleftrightarrow> (\<forall>es os. s (we_target e) = Some (es, os) \<longrightarrow> we_index e < length es)"

definition shape_core :: "'e shape \<Rightarrow> bool" where
  "shape_core s \<longleftrightarrow>
     (\<forall>a es os. s a = Some (es, os) \<longrightarrow> distinct os \<and> (\<forall>e\<in>set os. valid_weak s e) \<and>
        (\<forall>i<length es. valid_weak s (WeakEdge_new i (target (es ! i))))) \<and>
     acyclic (parent_rel s)"

lemma shape_coreD:
  assumes "shape_core s"
  shows "acyclic (parent_rel s)" "s a = Some (es, os) \<Longrightarrow> distinct os"
    and "s a = Some (es, os) \<Longrightarrow> e \<in> set os \<Longrightarrow> valid_weak s e"
    and "s a = Some (es, os) \<Longrightarrow> i < length es \<Longrightarrow> valid_weak s (WeakEdge_new i (target (es ! i)))"
  using assms by (auto simp: shape_core_def)

lemma shape_coreI:
  assumes "acyclic (parent_rel s)" "\<And>a es os. s a = Some (es, os) \<Longrightarrow> distinct os"
    and "\<And>a es os e. s a = Some (es, os) \<Longrightarrow> e \<in> set os \<Longrightarrow> valid_weak s e"
    and "\<And>a es os i. s a = Some (es, os) \<Longrightarrow> i < length es \<Longrightarrow> valid_weak s (WeakEdge_new i (target (es ! i)))"
  shows "shape_core s"
  using assms by (simp add: shape_core_def)

lemma shape_core_kill:
  assumes "shape_core s"
  shows "shape_core (s(a := None))"
proof -
  have "parent_rel (s(a := None)) \<subseteq> parent_rel s" by (auto simp: parent_rel_def split: if_splits)
  then have "acyclic (parent_rel (s(a := None)))" using shape_coreD(1) [OF assms] by (blast intro: acyclic_subset)
  moreover have "valid_weak (s(a := None)) e" if "valid_weak s e" for e using that by (simp add: valid_weak_def)
  ultimately show ?thesis using shape_coreD(2-4) [OF assms] by (intro shape_coreI) (auto split: if_splits)
qed

text \<open>Replacing the outgoing edges of a node by some of them.\<close>

lemma shape_core_prune:
  assumes core: "shape_core s" and a: "s a = Some (es, os)"
    and os': "os' = filter (\<lambda>e. s (we_target e) \<noteq> None) os"
  shows "shape_core (s(a \<mapsto> (es, os')))"
proof -
  have "parent_rel (s(a \<mapsto> (es, os'))) = parent_rel s" using a by (auto simp: parent_rel_def split: if_splits)
  then have "acyclic (parent_rel (s(a \<mapsto> (es, os'))))" using shape_coreD(1) [OF core] by simp
  moreover have "valid_weak (s(a \<mapsto> (es, os'))) e \<longleftrightarrow> valid_weak s e" for e using a by (auto simp: valid_weak_def)
  ultimately show ?thesis
    using shape_coreD(2-4) [OF core] a by (intro shape_coreI) (auto simp: os' split: if_splits)
qed

lemma shape_core_new:
  assumes core: "shape_core s" and fresh: "s a = None"
    and es: "\<forall>e\<in>set es. target e = a \<and> s (source e) \<noteq> None" and unref: "unreferenced a s"
  shows "shape_core (extend_shape a es s)"
proof (rule shape_coreI)
  let ?s = "extend_shape a es s"
  show "acyclic (parent_rel ?s)"
    using extend_shape_acyclic [OF shape_coreD(1) [OF core] fresh _ unref] es by blast
  have valid: "valid_weak ?s e" if "valid_weak s e" "we_target e \<noteq> a" for e
    using that by (auto simp: valid_weak_def extend_shape_def)
  fix x ex ox assume x: "?s x = Some (ex, ox)"
  show "distinct ox" by (rule extend_shape_distinct [OF unref shape_coreD(2) [OF core] x])
  show "valid_weak ?s e" if "e \<in> set ox" for e
  proof (cases "we_target e = a")
    case True
    from x that obtain ox0 where "s x = Some (ex, ox0)" "e \<in> set ox0 \<or> e \<in> set (new_outgoing a (map source es) x)"
      by (auto simp: extend_shape_def split: if_splits)
    with unreferencedD(1) [OF unref] True have "e \<in> set (new_outgoing a (map source es) x)" by blast
    with set_new_outgoing [of "we_index e" a a "map source es" x] WeakEdge_new_same [of e, unfolded True]
    have "we_index e < length es" by simp
    with True show ?thesis
      by (simp add: valid_weak_def extend_shape_def)
  next
    case False
    with that x have "e \<in> set (snd (the (s x)))" "s x \<noteq> None"
      by (auto simp: extend_shape_def dest: new_outgoing_from_target split: if_splits)
    with valid [OF _ False] shape_coreD(3) [OF core, of x "fst (the (s x))" "snd (the (s x))" e] show ?thesis by auto
  qed
  show "valid_weak ?s (WeakEdge_new i (target (ex ! i)))" if "i < length ex" for i
  proof (cases "x = a")
    case True
    with x that es show ?thesis by (simp add: extend_shape_def valid_weak_def)
  next
    case False
    with x obtain ox0 where "s x = Some (ex, ox0)" by (auto simp: extend_shape_def)
    from shape_coreD(4) [OF core this that] unreferencedD(2) [OF unref this] that show ?thesis by (intro valid) simp_all
  qed
qed

text \<open>A node gets a copy of the data of another one.\<close>

lemma shape_core_copy:
  assumes core: "shape_core s" and a: "s a = Some (es, os)" and fresh: "s b = None" and unref: "unreferenced b s"
    and src: "\<forall>e\<in>set es. s (source e) \<noteq> None"
  shows "shape_core (s(b \<mapsto> (es, os)))"
proof (rule shape_coreI)
  let ?s = "s(b \<mapsto> (es, os))"
  show "acyclic (parent_rel ?s)"
  proof (rule acyclic_new_sink [OF shape_coreD(1) [OF core]])
    show "parent_rel ?s \<subseteq> parent_rel s \<union> UNIV \<times> {b}" by (auto simp: parent_rel_def split: if_splits)
    show "b \<notin> Domain (parent_rel ?s)"
      using fresh src unreferencedD(1) [OF unref] by (fastforce simp: parent_rel_def split: if_splits)
  qed
  have valid: "valid_weak ?s e" if "valid_weak s e" "we_target e \<noteq> b" for e
    using that by (simp add: valid_weak_def)
  fix x ex ox assume "?s x = Some (ex, ox)"
  then obtain y where y: "s y = Some (ex, ox)" using a by (auto split: if_splits)
  show "distinct ox" by (rule shape_coreD(2) [OF core y])
  show "valid_weak ?s e" if "e \<in> set ox" for e
    using that shape_coreD(3) [OF core y] unreferencedD(1) [OF unref y] by (intro valid) auto
  show "valid_weak ?s (WeakEdge_new i (target (ex ! i)))" if "i < length ex" for i
    using that shape_coreD(4) [OF core y that] unreferencedD(2) [OF unref y] by (intro valid) simp_all
qed

subsection \<open>What the memory invariant needs of a shape\<close>

locale shape_law =
  fixes I :: "'e shape \<Rightarrow> bool"
  assumes no_cycle: "I s \<Longrightarrow> acyclic (parent_rel s)"
    and kill: "I s \<Longrightarrow> I (s(a := None))"
    and prune: "I s \<Longrightarrow> s a = Some (es, os) \<Longrightarrow> os' = filter (\<lambda>e. s (we_target e) \<noteq> None) os \<Longrightarrow> I (s(a \<mapsto> (es, os')))"
    and create: "I s \<Longrightarrow> s a = None \<Longrightarrow> \<forall>e\<in>set es. target e = a \<and> s (source e) \<noteq> None \<Longrightarrow> unreferenced a s \<Longrightarrow>
      I (extend_shape a es s)"

interpretation tidy?: shape_law shape_inv
  by unfold_locales (simp_all add: shape_inv_acyclic shape_inv_kill shape_inv_prune shape_inv_new)

interpretation core: shape_law shape_core
  by unfold_locales (simp_all add: shape_coreD(1) shape_core_kill shape_core_prune shape_core_new)

lemma shape_inv_core:
  assumes "shape_inv s"
  shows "shape_core s"
proof (rule shape_coreI)
  fix a es os e assume a: "s a = Some (es, os)"
  show "distinct os" by (rule shape_inv_distinct [OF assms a])
  show "valid_weak s e" if "e \<in> set os" for e
    using shape_inv_outgoing [OF assms a, of "we_target e" _ _ "we_index e"] that by (simp add: valid_weak_def)
  show "valid_weak s (WeakEdge_new i (target (es ! i)))" if "i < length es" for i
    using shape_inv_targets [OF assms a, of "es ! i"] a that by (simp add: valid_weak_def)
qed (rule shape_inv_acyclic [OF assms])

end
