(* ===== verification/Ownership.thy ===== *)
theory Ownership
  imports Drop Shape
begin

section \<open>Ownership accounting\<close>

text \<open>
  The invariant of the whole memory. Every reference is owned by something: a field of a live
  node, a registry, or the program (the multisets \<open>S\<close>, \<open>W\<close>, \<open>R\<close>, \<open>V\<close> of its strong
  and weak node references and strong and weak registry references). The invariant says that
  the counts of every cell are exactly the number of references to it, that a value is there
  exactly while its strong count is positive, that the shape of the graph satisfies \<open>I\<close>, and that every registry's
  two maps are inverse to each other. With \<open>shape_inv\<close> for \<open>I\<close> it is \<open>world_ok\<close>, with \<open>shape_core\<close> it is \<open>world_core\<close>; what
  does not look at edges is proved for any \<open>I\<close>, and the rest in the locale \<open>shape_law\<close>.
\<close>

subsection \<open>The invariant\<close>

definition src_refs :: "('n, 'e) InnerData \<Rightarrow> addr multiset" where
  "src_refs d = mset (map source (incoming d))"

definition wk_refs :: "('n, 'e) InnerData \<Rightarrow> addr multiset" where
  "wk_refs d = mset (map target (incoming d)) + mset (map we_target (outgoing d))"

definition reg_ref :: "('n, 'e) InnerData \<Rightarrow> addr multiset" where
  "reg_ref d = opt_mset (registry d)"

definition slot_refs :: "('k, 's) slotmap_ops \<Rightarrow> ('k, 's) Registry \<Rightarrow> addr multiset" where
  "slot_refs ops R = slotmap_values ops (reg_nodes R)"

definition strong_ok :: "('n, 'e, 'k, 's) world \<Rightarrow> addr multiset \<Rightarrow> bool" where
  "strong_ok w S \<longleftrightarrow> (\<forall>a. strong (box (mem w) a) = count (refs src_refs (mem w)) a + count S a)"

definition weak_ok :: "('k, 's) slotmap_ops \<Rightarrow> ('n, 'e, 'k, 's) world \<Rightarrow> addr multiset \<Rightarrow> bool" where
  "weak_ok ops w W \<longleftrightarrow>
     (\<forall>a. weak (box (mem w) a) =
        count (refs wk_refs (mem w)) a + count (refs (slot_refs ops) (regs w)) a + count W a +
        (if deref (mem w) a = None then 0 else 1))"

definition reg_strong_ok :: "('n, 'e, 'k, 's) world \<Rightarrow> addr multiset \<Rightarrow> bool" where
  "reg_strong_ok w R \<longleftrightarrow> (\<forall>r. strong (box (regs w) r) = count R r)"

definition reg_weak_ok :: "('n, 'e, 'k, 's) world \<Rightarrow> addr multiset \<Rightarrow> bool" where
  "reg_weak_ok w V \<longleftrightarrow>
     (\<forall>r. weak (box (regs w) r) =
        count (refs reg_ref (mem w)) r + count V r + (if deref (regs w) r = None then 0 else 1))"

definition live_ok :: "'a heap \<Rightarrow> bool" where
  "live_ok h \<longleftrightarrow> (\<forall>a. deref h a = None \<longleftrightarrow> strong (box h a) = 0)"

definition registry_ok :: "('k, 's) slotmap_ops \<Rightarrow> ('k, 's) Registry \<Rightarrow> bool" where
  "registry_ok ops R \<longleftrightarrow> slotmap_ok ops (reg_nodes R) \<and>
     (\<forall>p k. ptr_to_id R p = Some k \<longleftrightarrow> vals (reg_nodes R) k = Some p)"

definition regs_ok :: "('k, 's) slotmap_ops \<Rightarrow> ('n, 'e, 'k, 's) world \<Rightarrow> bool" where
  "regs_ok ops w \<longleftrightarrow> (\<forall>r R. deref (regs w) r = Some R \<longrightarrow> registry_ok ops R)"

definition world_inv ::
  "('e shape \<Rightarrow> bool) \<Rightarrow> ('k, 's) slotmap_ops \<Rightarrow> ('n, 'e, 'k, 's) world \<Rightarrow>
   addr multiset \<Rightarrow> addr multiset \<Rightarrow> addr multiset \<Rightarrow> addr multiset \<Rightarrow> bool" where
  "world_inv I ops w S W R V \<longleftrightarrow>
     strong_ok w S \<and> weak_ok ops w W \<and> reg_strong_ok w R \<and> reg_weak_ok w V \<and>
     live_ok (mem w) \<and> live_ok (regs w) \<and> I (shape (mem w)) \<and> regs_ok ops w"

abbreviation world_ok ::
  "('k, 's) slotmap_ops \<Rightarrow> ('n, 'e, 'k, 's) world \<Rightarrow>
   addr multiset \<Rightarrow> addr multiset \<Rightarrow> addr multiset \<Rightarrow> addr multiset \<Rightarrow> bool" where
  "world_ok \<equiv> world_inv shape_inv"

abbreviation world_core ::
  "('k, 's) slotmap_ops \<Rightarrow> ('n, 'e, 'k, 's) world \<Rightarrow>
   addr multiset \<Rightarrow> addr multiset \<Rightarrow> addr multiset \<Rightarrow> addr multiset \<Rightarrow> bool" where
  "world_core \<equiv> world_inv shape_core"

lemmas world_ok_def = world_inv_def [where I = shape_inv]

lemma world_ok_core: "world_ok ops w S W R V \<Longrightarrow> world_core ops w S W R V"
  by (simp add: world_inv_def shape_inv_core)

lemma world_okI:
  "strong_ok w S \<Longrightarrow> weak_ok ops w W \<Longrightarrow> reg_strong_ok w R \<Longrightarrow> reg_weak_ok w V \<Longrightarrow>
   live_ok (mem w) \<Longrightarrow> live_ok (regs w) \<Longrightarrow> I (shape (mem w)) \<Longrightarrow> regs_ok ops w \<Longrightarrow>
   world_inv I ops w S W R V"
  by (simp add: world_inv_def)

lemma world_okD:
  assumes "world_inv I ops w S W R V"
  shows "strong_ok w S" "weak_ok ops w W" "reg_strong_ok w R" "reg_weak_ok w V"
    "live_ok (mem w)" "live_ok (regs w)" "I (shape (mem w))" "regs_ok ops w"
  using assms by (simp_all add: world_inv_def)

lemmas world_ok_shape = world_okD(7) [where I = shape_inv]

lemmas count_defs = strong_ok_def weak_ok_def reg_strong_ok_def reg_weak_ok_def

text \<open>What a reference tells about the cell it points to.\<close>

lemma owned_strong: "world_inv I ops w S W R V \<Longrightarrow> a \<in># S \<Longrightarrow> 0 < strong (box (mem w) a)"
  by (auto simp: world_inv_def strong_ok_def)

lemma owned_weak: "world_inv I ops w S W R V \<Longrightarrow> a \<in># W \<Longrightarrow> 0 < weak (box (mem w) a)"
  by (auto simp: world_inv_def weak_ok_def)

lemma owned_reg: "world_inv I ops w S W R V \<Longrightarrow> r \<in># R \<Longrightarrow> 0 < strong (box (regs w) r)"
  by (auto simp: world_inv_def reg_strong_ok_def)

lemma owned_wreg: "world_inv I ops w S W R V \<Longrightarrow> r \<in># V \<Longrightarrow> 0 < weak (box (regs w) r)"
  by (auto simp: world_inv_def reg_weak_ok_def)

lemma world_registry_ok: "world_inv I ops w S W R V \<Longrightarrow> deref (regs w) r = Some Rg \<Longrightarrow> registry_ok ops Rg"
  by (simp add: world_inv_def regs_ok_def)

lemma alive_iff_deref:
  assumes "live_ok h"
  shows "0 < strong (box h a) \<longleftrightarrow> (\<exists>d. deref h a = Some d)"
  using assms [unfolded live_ok_def, THEN spec, of a] by (cases "deref h a") simp_all

lemma alive_weak: "world_inv I ops w S W R V \<Longrightarrow> deref (mem w) a = Some d \<Longrightarrow> 0 < weak (box (mem w) a)"
  by (simp add: world_inv_def weak_ok_def)

lemma shape_eqI: "(\<And>a. deref h' a = deref h a) \<Longrightarrow> shape h' = shape h"
  by (simp add: shape_def fun_eq_iff)

subsection \<open>Steps that only change counts\<close>

lemma clone_ok:
  assumes "world_inv I ops w S W R V" "0 < strong (box (mem w) a)"
  shows "world_inv I ops (w\<lparr>mem := rc_clone a (mem w)\<rparr>) (add_mset a S) W R V"
  using assms in_range_strong [OF assms(2)]
  by (auto simp: world_inv_def count_defs live_ok_def regs_ok_def heap_simps refs_simps
      shape_eqI [of "rc_clone a (mem w)" "mem w"])

lemma release_ok:
  assumes "world_inv I ops w (add_mset a S) W R V" "1 < strong (box (mem w) a)"
  shows "world_inv I ops (w\<lparr>mem := rc_release a (mem w)\<rparr>) S W R V"
  using assms
  by (auto simp: world_inv_def count_defs live_ok_def regs_ok_def heap_simps refs_simps
      shape_eqI [of "rc_release a (mem w)" "mem w"])

lemma weak_clone_ok:
  assumes "world_inv I ops w S W R V" "0 < weak (box (mem w) a)"
  shows "world_inv I ops (w\<lparr>mem := weak_clone a (mem w)\<rparr>) S (add_mset a W) R V"
  using assms in_range_weak [OF assms(2)]
  by (auto simp: world_inv_def count_defs live_ok_def regs_ok_def heap_simps refs_simps
      shape_eqI [of "weak_clone a (mem w)" "mem w"])

lemma weak_drop_ok:
  assumes "world_inv I ops w S (add_mset a W) R V"
  shows "world_inv I ops (w\<lparr>mem := weak_drop a (mem w)\<rparr>) S W R V"
  using assms
  by (auto simp: world_inv_def count_defs live_ok_def regs_ok_def heap_simps refs_simps
      shape_eqI [of "weak_drop a (mem w)" "mem w"])

lemma reg_clone_ok:
  assumes "world_inv I ops w S W R V" "0 < strong (box (regs w) r)"
  shows "world_inv I ops (w\<lparr>regs := rc_clone r (regs w)\<rparr>) S W (add_mset r R) V"
  using assms in_range_strong [OF assms(2)]
  by (auto simp: world_inv_def count_defs live_ok_def regs_ok_def heap_simps refs_simps)

lemma reg_release_ok:
  assumes "world_inv I ops w S W (add_mset r R) V" "1 < strong (box (regs w) r)"
  shows "world_inv I ops (w\<lparr>regs := rc_release r (regs w)\<rparr>) S W R V"
  using assms by (auto simp: world_inv_def count_defs live_ok_def regs_ok_def heap_simps refs_simps)

lemma reg_weak_clone_ok:
  assumes "world_inv I ops w S W R V" "0 < weak (box (regs w) r)"
  shows "world_inv I ops (w\<lparr>regs := rc_downgrade r (regs w)\<rparr>) S W R (add_mset r V)"
  using assms in_range_weak [OF assms(2)]
  by (auto simp: world_inv_def count_defs live_ok_def regs_ok_def heap_simps refs_simps)

lemma reg_weak_drop_ok:
  assumes "world_inv I ops w S W R (add_mset r V)"
  shows "world_inv I ops (w\<lparr>regs := weak_drop r (regs w)\<rparr>) S W R V"
  using assms by (auto simp: world_inv_def count_defs live_ok_def regs_ok_def heap_simps refs_simps)

subsection \<open>Steps on the fields of nodes and registries\<close>

lemma refs_set_payload:
  assumes "deref h a = Some d"
  shows "refs g (set_payload a f h) + g d = refs g h + g (f d)"
  using refs_upd [OF in_range_deref [OF assms], of g "\<lambda>b. b\<lparr>payload := map_option f (payload b)\<rparr>"] assms
  by (simp add: set_payload_def)

lemma count_refs_set_payload:
  assumes "deref h a = Some d"
  shows "count (refs g (set_payload a f h)) x + count (g d) x = count (refs g h) x + count (g (f d)) x"
  using arg_cong [OF refs_set_payload [OF assms, of g f], of "\<lambda>m. count m x"] by simp

lemma shape_set_payload:
  assumes "\<And>d. incoming (f d) = incoming d" "\<And>d. outgoing (f d) = outgoing d"
  shows "shape (set_payload a f h) = shape h"
proof
  fix x
  show "shape (set_payload a f h) x = shape h x"
    by (cases "deref h a") (simp_all add: shape_def deref_set_payload assms)
qed

lemma live_ok_set_payload [simp]: "live_ok (set_payload a f h) \<longleftrightarrow> live_ok h"
proof -
  have "deref (set_payload a f h) x = None \<longleftrightarrow> deref h x = None" for x
    by (simp add: deref_set_payload)
  then show ?thesis by (simp add: live_ok_def strong_set_payload)
qed

lemma refs_set_registry [refs_simps]:
  "refs src_refs (set_payload a (\<lambda>d. d\<lparr>registry := r\<rparr>) h) = refs src_refs h"
  "refs wk_refs (set_payload a (\<lambda>d. d\<lparr>registry := r\<rparr>) h) = refs wk_refs h"
  by (simp_all add: refs_set_payload_same src_refs_def wk_refs_def)

lemma clear_registry_ok:
  fixes w :: "('n, 'e, 'k, 's) world"
  assumes ok: "world_inv I ops w S W R V" and r: "node_registry a (mem w) = Some r"
  shows "world_inv I ops (w\<lparr>mem := set_payload a (\<lambda>d. d\<lparr>registry := None\<rparr>) (mem w)\<rparr>) S W R (add_mset r V)"
proof -
  let ?f = "\<lambda>d. d\<lparr>registry := None\<rparr> :: ('n, 'e) InnerData"
  from r obtain d where d: "deref (mem w) a = Some d" and reg: "registry d = Some r"
    by (auto simp: node_registry_def split: option.splits)
  have "count (refs reg_ref (set_payload a ?f (mem w))) x + (if x = r then 1 else 0) =
      count (refs reg_ref (mem w)) x" for x
    using count_refs_set_payload [OF d, of reg_ref ?f x] reg by (auto simp: reg_ref_def split: if_splits)
  then have "count (refs reg_ref (mem w)) x =
      count (refs reg_ref (set_payload a ?f (mem w))) x + (if x = r then 1 else 0)" for x
    by simp
  then have "reg_weak_ok (w\<lparr>mem := set_payload a ?f (mem w)\<rparr>) (add_mset r V)"
    using world_okD(4) [OF ok] by (simp add: reg_weak_ok_def)
  with ok show ?thesis
    by (auto simp: world_inv_def count_defs regs_ok_def heap_simps refs_simps shape_set_payload)
qed

lemma set_registry_ok:
  fixes w :: "('n, 'e, 'k, 's) world"
  assumes ok: "world_inv I ops w S W R (add_mset r V)" and r: "node_registry a (mem w) = None"
    and alive: "0 < strong (box (mem w) a)"
  shows "world_inv I ops (w\<lparr>mem := set_payload a (\<lambda>d. d\<lparr>registry := Some r\<rparr>) (mem w)\<rparr>) S W R V"
proof -
  let ?f = "\<lambda>d. d\<lparr>registry := Some r\<rparr> :: ('n, 'e) InnerData"
  from alive ok obtain d where d: "deref (mem w) a = Some d"
    by (auto simp: world_inv_def alive_iff_deref)
  with r have reg: "registry d = None" by (simp add: node_registry_def)
  have "count (refs reg_ref (set_payload a ?f (mem w))) x =
      count (refs reg_ref (mem w)) x + (if x = r then 1 else 0)" for x
    using count_refs_set_payload [OF d, of reg_ref ?f x] reg by (auto simp: reg_ref_def split: if_splits)
  then have "reg_weak_ok (w\<lparr>mem := set_payload a ?f (mem w)\<rparr>) V"
    using world_okD(4) [OF ok] by (simp add: reg_weak_ok_def)
  with ok show ?thesis
    by (auto simp: world_inv_def count_defs regs_ok_def heap_simps refs_simps shape_set_payload)
qed

text \<open>
  A registry is replaced by another well-formed one: the weak references it no longer holds go
  to the program, those it newly holds come from it.
\<close>

lemma set_registry_payload_ok:
  assumes ok: "world_inv I ops w S W R V" and r: "deref (regs w) r = Some Rg"
    and new: "registry_ok ops Rg'" and refs: "slot_refs ops Rg' + W' = slot_refs ops Rg + W"
  shows "world_inv I ops (w\<lparr>regs := set_payload r (\<lambda>_. Rg') (regs w)\<rparr>) S W' R V"
proof -
  have "count (refs (slot_refs ops) (set_payload r (\<lambda>_. Rg') (regs w))) x + count W' x =
      count (refs (slot_refs ops) (regs w)) x + count W x" for x
    using count_refs_set_payload [OF r, of "slot_refs ops" "\<lambda>_. Rg'" x] arg_cong [OF refs, of "\<lambda>m. count m x"]
    by simp
  then have "weak_ok ops (w\<lparr>regs := set_payload r (\<lambda>_. Rg') (regs w)\<rparr>) W'"
    using world_okD(2) [OF ok] by (simp add: weak_ok_def add.assoc)
  moreover have "regs_ok ops (w\<lparr>regs := set_payload r (\<lambda>_. Rg') (regs w)\<rparr>)"
    using world_okD(8) [OF ok] new by (auto simp: regs_ok_def heap_simps split: if_splits)
  ultimately show ?thesis using ok
    by (auto simp: world_inv_def count_defs heap_simps)
qed

subsection \<open>Taking the last reference\<close>

context shape_law
begin

lemma take_ok:
  fixes w :: "('n, 'e, 'k, 's) world"
  assumes ok: "world_inv I ops w (add_mset a S) W R V" and one: "strong (box (mem w) a) = 1"
    and take: "rc_take a (mem w) = (data, h)"
  shows "\<exists>d. data = Some d \<and>
    world_inv I ops (w\<lparr>mem := h\<rparr>) (src_refs d + S) (add_mset a (wk_refs d + W)) R (reg_ref d + V)"
proof -
  let ?f = "\<lambda>b. b\<lparr>strong := strong b - 1, payload := None\<rparr> :: ('n, 'e) InnerData rcbox"
  from one ok obtain d where d: "deref (mem w) a = Some d"
    by (metis alive_iff_deref world_okD(5) zero_less_one)
  have h: "h = upd a ?f (mem w)" and data: "data = Some d" using take d by (auto simp: rc_take_def)
  have a: "a < length (mem w)" by (rule in_range_deref [OF d])
  have refs: "count (refs g h) x + count (g d) x = count (refs g (mem w)) x" for g :: "_ \<Rightarrow> addr multiset" and x
    using arg_cong [OF refs_upd [OF a, of g ?f], of "\<lambda>m. count m x"] d by (simp add: h)
  have box_h: "box h x = (if x = a then ?f (box (mem w) a) else box (mem w) x)" for x
    using a by (simp add: h box_upd)
  have "strong_ok (w\<lparr>mem := h\<rparr>) (src_refs d + S)"
  proof -
    { fix x
      have "strong (box h x) + (if x = a then 1 else 0) = strong (box (mem w) x)"
        using one by (simp add: box_h)
      with world_okD(1) [OF ok] refs [of src_refs x]
      have "strong (box h x) = count (refs src_refs h) x + count (src_refs d + S) x"
        by (simp add: strong_ok_def split: if_splits) }
    then show ?thesis by (simp add: strong_ok_def)
  qed
  moreover have "weak_ok ops (w\<lparr>mem := h\<rparr>) (add_mset a (wk_refs d + W))"
  proof -
    { fix x
      have "weak (box h x) = weak (box (mem w) x)" by (simp add: box_h)
      with world_okD(2) [OF ok] refs [of wk_refs x] d
      have "weak (box h x) = count (refs wk_refs h) x + count (refs (slot_refs ops) (regs w)) x +
          count (add_mset a (wk_refs d + W)) x + (if deref h x = None then 0 else 1)"
        by (auto simp: weak_ok_def box_h) }
    then show ?thesis by (simp add: weak_ok_def)
  qed
  moreover have "reg_weak_ok (w\<lparr>mem := h\<rparr>) (reg_ref d + V)"
  proof -
    { fix x
      from world_okD(4) [OF ok] refs [of reg_ref x]
      have "weak (box (regs w) x) = count (refs reg_ref h) x + count (reg_ref d + V) x +
          (if deref (regs w) x = None then 0 else 1)"
        by (simp add: reg_weak_ok_def) }
    then show ?thesis by (simp add: reg_weak_ok_def)
  qed
  moreover have "live_ok h" using world_okD(5) [OF ok] one by (auto simp: live_ok_def box_h)
  moreover have "shape h = (shape (mem w))(a := None)" by (auto simp: shape_def fun_eq_iff box_h)
  then have "I (shape h)" using kill [OF world_okD(7) [OF ok]] by simp
  ultimately show ?thesis using ok data
    by (auto simp: world_inv_def reg_strong_ok_def regs_ok_def)
qed

end

end
