(* ===== verification/Drop_Correct.thy ===== *)
theory Drop_Correct
  imports Ownership
begin

section \<open>Registries and drops keep the invariant\<close>

text \<open>
  The operations of a registry, under the documented laws of slot maps, keep its two maps
  inverse to each other, and each accounts for the weak references it stores or gives up. From
  them: registering a node, unregistering it and dropping it keep the invariant of the memory.
\<close>

lemma registry_okD:
  assumes "registry_ok ops R"
  shows "slotmap_ok ops (reg_nodes R)"
    and "ptr_to_id R p = Some k \<longleftrightarrow> vals (reg_nodes R) k = Some p"
  using assms by (auto simp: registry_ok_def)

context slot_map
begin

lemma registry_new_ok: "registry_ok ops (registry_new ops)"
  by (simp add: registry_ok_def registry_new_def with_key_ok) (simp add: slotmap_with_key_def)

lemma registry_new_refs: "slot_refs ops (registry_new ops) = {#}"
  by (simp add: slot_refs_def registry_new_def values_sum [OF with_key_ok]) (simp add: slotmap_with_key_def)

lemma registry_remove_spec:
  assumes ok: "registry_ok ops R" and rm: "registry_remove ops k R h = (R', h')"
  shows "registry_ok ops R'"
    and "slot_refs ops R = opt_mset (vals (reg_nodes R) k) + slot_refs ops R'"
    and "h' = (case vals (reg_nodes R) k of None \<Rightarrow> h | Some a \<Rightarrow> weak_drop a h)"
    and "vals (reg_nodes R') = (vals (reg_nodes R))(k := None)"
    and "ptr_to_id R' = (\<lambda>p. if ptr_to_id R p = Some k then None else ptr_to_id R p)"
proof -
  obtain x m where sm: "slotmap_remove ops k (reg_nodes R) = (x, m)" by fastforce
  note spec = remove_spec [OF sm registry_okD(1) [OF ok]]
  from rm sm have R': "reg_nodes R' = m"
    and h': "h' = (case x of None \<Rightarrow> h | Some a \<Rightarrow> weak_drop a h)"
    and ptr: "ptr_to_id R' = (case x of None \<Rightarrow> ptr_to_id R | Some a \<Rightarrow> (ptr_to_id R)(a := None))"
    by (auto simp: registry_remove_def relweak_as_ptr_def split: option.splits)
  show vals': "vals (reg_nodes R') = (vals (reg_nodes R))(k := None)" using spec R' by simp
  show "slot_refs ops R = opt_mset (vals (reg_nodes R) k) + slot_refs ops R'"
    using spec R' by (simp add: slot_refs_def)
  show "h' = (case vals (reg_nodes R) k of None \<Rightarrow> h | Some a \<Rightarrow> weak_drop a h)"
    using h' spec by simp
  show ptr': "ptr_to_id R' = (\<lambda>p. if ptr_to_id R p = Some k then None else ptr_to_id R p)"
    unfolding ptr fun_eq_iff spec(2) registry_okD(2) [OF ok] by (auto split: option.splits)
  have "ptr_to_id R' p = Some j \<longleftrightarrow> vals (reg_nodes R') j = Some p" for p j
    using registry_okD(2) [OF ok, of p j] by (cases "j = k") (auto simp: vals' ptr')
  with spec(1) R' show "registry_ok ops R'" by (simp add: registry_ok_def)
qed

lemma add_node_new:
  assumes ok: "registry_ok ops R" and add: "add_node ops a R h = (k, R', h')" and new: "get_id a R = None"
  shows "registry_ok ops R'" "h' = rc_downgrade a h" "slot_refs ops R' = add_mset a (slot_refs ops R)"
    and "ptr_to_id R' = (ptr_to_id R)(a \<mapsto> k)" "vals (reg_nodes R') = (vals (reg_nodes R))(k \<mapsto> a)"
    and "vals (reg_nodes R) k = None"
proof -
  obtain m where ins: "slotmap_insert ops a (reg_nodes R) = (k, m)" and h': "h' = rc_downgrade a h"
      and R': "R' = \<lparr>reg_nodes = m, ptr_to_id = (ptr_to_id R)(a \<mapsto> k)\<rparr>"
    using add new by (auto simp: add_node_def relrc_downgrade_def as_ptr_def split: prod.splits)
  note spec = insert_spec [OF ins registry_okD(1) [OF ok]]
  show "h' = rc_downgrade a h" by (rule h')
  show "slot_refs ops R' = add_mset a (slot_refs ops R)" using spec R' by (simp add: slot_refs_def)
  show ptr: "ptr_to_id R' = (ptr_to_id R)(a \<mapsto> k)" and vals': "vals (reg_nodes R') = (vals (reg_nodes R))(k \<mapsto> a)"
    using spec R' by simp_all
  show k: "vals (reg_nodes R) k = None" by (rule spec(2))
  have "ptr_to_id R p \<noteq> Some k" for p using registry_okD(2) [OF ok, of p k] k by simp
  moreover have "vals (reg_nodes R) j \<noteq> Some a" for j
    using registry_okD(2) [OF ok, of a j] new by (simp add: get_id_def as_ptr_def)
  ultimately show "registry_ok ops R'"
    using spec(1,3) R' registry_okD(2) [OF ok] by (auto simp: registry_ok_def)
qed

lemma add_node_existing: "get_id a R = Some k \<Longrightarrow> add_node ops a R h = (k, R, h)"
  by (simp add: add_node_def)

subsection \<open>On the heap of registries\<close>

lemma add_node_world_ok:
  assumes ok: "world_inv I ops w S W R V" and alive: "0 < strong (box (mem w) a)"
  shows "world_inv I ops (snd (with_registry_mut r (add_node ops a) w)) S W R V"
proof (cases "deref (regs w) r")
  case (Some Rg)
  obtain k Rg' h' where add: "add_node ops a Rg (mem w) = (k, Rg', h')" by (metis prod.exhaust)
  have rok: "registry_ok ops Rg" by (rule world_registry_ok [OF ok Some])
  show ?thesis
  proof (cases "get_id a Rg")
    case None
    note spec = add_node_new [OF rok add None]
    from alive ok obtain d where "deref (mem w) a = Some d" by (auto simp: world_inv_def alive_iff_deref)
    then have "0 < weak (box (mem w) a)" by (rule alive_weak [OF ok])
    from weak_clone_ok [OF ok this]
    have "world_inv I ops (w\<lparr>mem := h'\<rparr>) S (add_mset a W) R V"
      by (simp add: spec(2) weak_clone_def rc_downgrade_def)
    from set_registry_payload_ok [OF this, of r Rg Rg' W] Some spec
    have "world_inv I ops (w\<lparr>mem := h', regs := set_payload r (\<lambda>_. Rg') (regs w)\<rparr>) S W R V" by simp
    with Some add show ?thesis by (simp add: with_registry_mut_def)
  next
    case Some': (Some k')
    have "registry_ok ops Rg \<Longrightarrow> world_inv I ops (w\<lparr>regs := set_payload r (\<lambda>_. Rg) (regs w)\<rparr>) S W R V"
      by (intro set_registry_payload_ok [OF ok Some]) simp_all
    with rok Some add_node_existing [OF Some', of "mem w"] show ?thesis
      by (simp add: with_registry_mut_def)
  qed
qed (simp add: with_registry_mut_def ok)

lemma registry_remove_world_ok:
  assumes ok: "world_inv I ops w S W R V"
  shows "world_inv I ops (snd (with_registry_mut r (\<lambda>Rg h. ((), registry_remove ops k Rg h)) w)) S W R V"
proof (cases "deref (regs w) r")
  case (Some Rg)
  obtain Rg' h' where rm: "registry_remove ops k Rg (mem w) = (Rg', h')" by fastforce
  have rok: "registry_ok ops Rg" by (rule world_registry_ok [OF ok Some])
  note spec = registry_remove_spec [OF rok rm]
  from set_registry_payload_ok [OF ok Some spec(1), of "opt_mset (vals (reg_nodes Rg) k) + W"] spec(2)
  have "world_inv I ops (w\<lparr>regs := set_payload r (\<lambda>_. Rg') (regs w)\<rparr>) S (opt_mset (vals (reg_nodes Rg) k) + W) R V"
    by (simp add: ac_simps)
  from weak_drop_ok [of I ops "w\<lparr>regs := set_payload r (\<lambda>_. Rg') (regs w)\<rparr>"] this spec(3)
  have "world_inv I ops (w\<lparr>regs := set_payload r (\<lambda>_. Rg') (regs w), mem := h'\<rparr>) S W R V"
    by (cases "vals (reg_nodes Rg) k") simp_all
  with Some rm show ?thesis by (simp add: with_registry_mut_def)
qed (simp add: with_registry_mut_def ok)

lemma with_registry_mut_strong:
  "strong (box (regs (snd (with_registry_mut r f w))) x) = strong (box (regs w) x)"
  by (simp add: with_registry_mut_def strong_set_payload split: option.splits prod.splits)

lemma with_registry_mut_idle:
  assumes ok: "world_inv I ops w S W R V" and idle: "\<And>Rg. deref (regs w) r = Some Rg \<Longrightarrow> f Rg (mem w) = (x, Rg, mem w)"
  shows "world_inv I ops (snd (with_registry_mut r f w)) S W R V"
proof (cases "deref (regs w) r")
  case (Some Rg)
  then have "registry_ok ops Rg" by (rule world_registry_ok [OF ok])
  from set_registry_payload_ok [OF ok Some this, of W] Some idle [OF Some]
  show ?thesis by (simp add: with_registry_mut_def)
qed (simp add: with_registry_mut_def ok)

subsection \<open>Dropping\<close>

lemma unregister_ok:
  assumes ok: "world_inv I ops w S W R V"
  shows "world_inv I ops (unregister ops a w) S W R V"
proof (cases "node_registry a (mem w)")
  case (Some r)
  define w1 where "w1 = w\<lparr>mem := set_payload a (\<lambda>d. d\<lparr>registry := None\<rparr>) (mem w)\<rparr>"
  have ok1: "world_inv I ops w1 S W R (add_mset r V)"
    unfolding w1_def by (rule clear_registry_ok [OF ok Some])
  show ?thesis
  proof (cases "strong (box (regs w1) r) = 0")
    case True
    with Some reg_weak_drop_ok [OF ok1] show ?thesis
      by (simp add: unregister_def Let_def w1_def weak_upgrade_def strong_count_def)
  next
    case False
    define w2 where "w2 = w1\<lparr>regs := rc_clone r (regs w1)\<rparr>"
    define w3 where "w3 = snd (with_registry_mut r (forget_node ops a) w2)"
    have ok2: "world_inv I ops w2 S W (add_mset r R) (add_mset r V)"
      unfolding w2_def using False by (intro reg_clone_ok [OF ok1]) simp
    have ok3: "world_inv I ops w3 S W (add_mset r R) (add_mset r V)"
    proof (cases "deref (regs w2) r")
      case None
      with ok2 show ?thesis by (simp add: w3_def with_registry_mut_def)
    next
      case Rg: (Some Rg)
      show ?thesis
      proof (cases "get_id a Rg")
        case None
        with Rg show ?thesis unfolding w3_def
          by (intro with_registry_mut_idle [OF ok2]) (auto simp: forget_node_def)
      next
        case Some': (Some nid)
        with Rg registry_remove_world_ok [OF ok2, of r nid] show ?thesis
          by (simp add: w3_def with_registry_mut_def forget_node_def)
      qed
    qed
    have "1 < strong (box (regs w3) r)"
      using False in_range_strong [of "regs w1" r]
      by (simp add: w3_def with_registry_mut_strong w2_def heap_simps)
    from reg_weak_drop_ok [OF reg_release_ok [OF ok3 this]] Some False show ?thesis
      by (simp add: unregister_def Let_def w1_def [symmetric] weak_upgrade_def strong_count_def
          w2_def [symmetric] w3_def [symmetric])
  qed
qed (simp add: unregister_def ok)

end

text \<open>What the pending drops own.\<close>

lemma registry_absent:
  assumes "slot_map ops" and ok: "registry_ok ops R" and a: "a \<notin># slot_refs ops R"
  shows "get_id a R = None" "slotmap_get ops k (reg_nodes R) \<noteq> Some a"
proof -
  have "vals (reg_nodes R) k \<noteq> Some a" for k
  proof
    assume k: "vals (reg_nodes R) k = Some a"
    with registry_okD(1) [OF ok] have "k \<in> set (slotmap_keys ops (reg_nodes R))" by (simp add: slotmap_ok_def)
    with k have "a \<in># slot_refs ops R" by (auto simp: slot_refs_def slotmap_values_def)
    with a show False by simp
  qed
  with registry_okD [OF ok] show "get_id a R = None" "slotmap_get ops k (reg_nodes R) \<noteq> Some a"
    by (auto simp: get_id_def as_ptr_def slotmap_get_ok intro: option.exhaust)
qed

fun task_strong :: "drop_task \<Rightarrow> addr multiset" where
  "task_strong (DropRelRc a) = {#a#}" | "task_strong _ = {#}"

fun task_weak :: "drop_task \<Rightarrow> addr multiset" where
  "task_weak (DropRelWeak a) = {#a#}" | "task_weak _ = {#}"

fun task_wreg :: "drop_task \<Rightarrow> addr multiset" where
  "task_wreg (DropWeakRegistry r) = {#r#}" | "task_wreg _ = {#}"

abbreviation tasks_own :: "(drop_task \<Rightarrow> addr multiset) \<Rightarrow> drop_task list \<Rightarrow> addr multiset" where
  "tasks_own f ts \<equiv> (\<Sum>t\<leftarrow>ts. f t)"

lemma tasks_own_edges:
  "tasks_own task_strong (concat (map (\<lambda>e. [DropRelRc (source e), DropRelWeak (target e)]) es)) = mset (map source es)"
  "tasks_own task_weak (concat (map (\<lambda>e. [DropRelRc (source e), DropRelWeak (target e)]) es)) = mset (map target es)"
  "tasks_own task_wreg (concat (map (\<lambda>e. [DropRelRc (source e), DropRelWeak (target e)]) es)) = {#}"
  "tasks_own task_strong (map (\<lambda>e. DropRelWeak (we_target e)) os) = {#}"
  "tasks_own task_weak (map (\<lambda>e. DropRelWeak (we_target e)) os) = mset (map we_target os)"
  "tasks_own task_wreg (map (\<lambda>e. DropRelWeak (we_target e)) os) = {#}"
  by (induction es, simp_all) (induction os, simp_all)+

lemma field_drops_own:
  "tasks_own task_strong (field_drops a d) = src_refs d"
  "tasks_own task_weak (field_drops a d) = add_mset a (wk_refs d)"
  "tasks_own task_wreg (field_drops a d) = reg_ref d"
  by (cases "registry d";
      simp add: field_drops_def tasks_own_edges [simplified] src_refs_def wk_refs_def reg_ref_def)+

context shape_law
begin

lemma drop_tasks_ok:
  "slot_map ops \<Longrightarrow>
   world_inv I ops w (tasks_own task_strong ts + S) (tasks_own task_weak ts + W) R (tasks_own task_wreg ts + V) \<Longrightarrow>
   world_inv I ops (drop_tasks ops ts w) S W R V"
proof (induction ops ts w rule: drop_tasks.induct)
  case (1 ops w)
  then show ?case by simp
next
  case (2 ops a ts w)
  then show ?case by (simp add: weak_drop_ok)
next
  case (3 ops r ts w)
  then show ?case by (simp add: reg_weak_drop_ok)
next
  case (4 ops a ts w)
  let ?S = "tasks_own task_strong ts + S" and ?W = "tasks_own task_weak ts + W"
    and ?V = "tasks_own task_wreg ts + V"
  have ok: "world_inv I ops w (add_mset a ?S) ?W R ?V" using "4.prems" by simp
  then have pos: "0 < strong (box (mem w) a)" by (rule owned_strong) simp
  show ?case
  proof (cases "1 < strong (box (mem w) a)")
    case True
    with "4.IH"(2) "4.prems"(1) pos release_ok [OF ok True] show ?thesis
      by (simp add: strong_count_def)
  next
    case False
    with pos have one: "strong (box (mem (unregister ops a w)) a) = 1"
      by (simp add: unregister_strong)
    obtain data h where take: "rc_take a (mem (unregister ops a w)) = (data, h)" by fastforce
    from take_ok [OF slot_map.unregister_ok [OF "4.prems"(1) ok, of a] one take]
    obtain d where d: "data = Some d" and "world_inv I ops ((unregister ops a w)\<lparr>mem := h\<rparr>)
        (src_refs d + ?S) (add_mset a (wk_refs d + ?W)) R (reg_ref d + ?V)"
      by blast
    then have "world_inv I ops ((unregister ops a w)\<lparr>mem := h\<rparr>)
        (tasks_own task_strong (field_drops a d @ ts) + S) (tasks_own task_weak (field_drops a d @ ts) + W) R
        (tasks_own task_wreg (field_drops a d @ ts) + V)"
      by (simp add: field_drops_own add.assoc)
    with "4.IH"(3) [OF _ _ refl take [symmetric] refl "4.prems"(1)] d take pos False show ?thesis
      by (simp add: strong_count_def)
  qed
qed

lemma relrc_drop_ok:
  "slot_map ops \<Longrightarrow> world_inv I ops w (add_mset a S) W R V \<Longrightarrow> world_inv I ops (relrc_drop ops a w) S W R V"
  unfolding relrc_drop_def by (intro drop_tasks_ok) simp_all

end

end
