(* ===== verification/Node_Correct.thy ===== *)
theory Node_Correct
  imports Drop_Correct
begin

section \<open>Creating and traversing nodes keeps the invariant\<close>

text \<open>
  The effect of \<open>new\<close>, \<open>with_parents\<close> and \<open>all_outgoing\<close> on every cell of the heap and on
  the references stored in it, and from it that they keep the invariant of the memory.
\<close>

subsection \<open>A fresh cell\<close>

lemma fresh_cell:
  assumes ok: "world_inv I ops w S W R V" and free: "weak (box (mem w) a) = 0"
  shows "deref (mem w) a = None" "strong (box (mem w) a) = 0" "a \<notin># S" "a \<notin># W"
    and "a \<notin># refs src_refs (mem w)" "a \<notin># refs wk_refs (mem w)" "a \<notin># refs (slot_refs ops) (regs w)"
proof -
  from world_okD(2) [OF ok] free have *: "count (refs wk_refs (mem w)) a + count (refs (slot_refs ops) (regs w)) a +
      count W a + (if deref (mem w) a = None then 0 else 1) = 0"
    by (simp add: weak_ok_def)
  then show none: "deref (mem w) a = None" by (simp split: if_splits)
  with world_okD(5) [OF ok] show strong: "strong (box (mem w) a) = 0" by (simp add: live_ok_def)
  from * show "a \<notin># W" "a \<notin># refs wk_refs (mem w)" "a \<notin># refs (slot_refs ops) (regs w)"
    by (simp_all add: not_in_iff)
  from world_okD(1) [OF ok] strong have "count (refs src_refs (mem w)) a + count S a = 0"
    by (simp add: strong_ok_def)
  then show "a \<notin># S" "a \<notin># refs src_refs (mem w)" by (simp_all add: not_in_iff)
qed

lemma shape_unref:
  assumes "a \<notin># refs src_refs h" "a \<notin># refs wk_refs h"
  shows "unreferenced a (shape h)"
  using assms by (force simp: unreferenced_def in_refs_iff shape_def src_refs_def wk_refs_def)

subsection \<open>The effect of \<open>with_parents\<close>\<close>

definition new_edges :: "addr \<Rightarrow> (RelRc \<times> 'e) list \<Rightarrow> 'e InnerEdgeData list" where
  "new_edges a ps = map (\<lambda>(p, v). InnerEdgeData_new v p a) ps"

lemma new_edges_simps [simp]:
  "length (new_edges a ps) = length ps" "map source (new_edges a ps) = map fst ps"
  "map target (new_edges a ps) = replicate (length ps) a"
  by (induction ps) (auto simp: new_edges_def)

lemma new_edges_target: "e \<in> set (new_edges a ps) \<Longrightarrow> target e = a \<and> source e \<in> set (map fst ps)"
  by (auto simp: new_edges_def intro: rev_image_eqI)

lemma build_incoming_edges: "fst (build_incoming a ps h) = new_edges a ps"
  by (induction a ps h rule: build_incoming.induct) (auto simp: new_edges_def split: prod.splits)

lemma build_incoming_heap:
  "length (snd (build_incoming a ps h)) = length h"
  "refs g (snd (build_incoming a ps h)) = refs g h"
  "a < length h \<Longrightarrow> box (snd (build_incoming a ps h)) x =
     (if x = a then (box h a)\<lparr>weak := weak (box h a) + length ps\<rparr> else box h x)"
  by (induction a ps h rule: build_incoming.induct)
    (auto simp: refs_simps weak_clone_def box_upd split: prod.splits)

lemma register_outgoing_heap:
  assumes "\<forall>e\<in>set es. target e = a \<and> source e \<noteq> a" "a < length h"
  shows "box (register_outgoing_edges i es h) x =
    (if x = a then (box h a)\<lparr>weak := weak (box h a) + length es\<rparr>
     else (box h x)\<lparr>payload := map_option (\<lambda>d. d\<lparr>outgoing := outgoing d @ new_outgoing_from i a (map source es) x\<rparr>)
             (deref h x)\<rparr>)"
  using assms
proof (induction es arbitrary: i h)
  case Nil
  then show ?case by (cases "deref h x") simp_all
next
  case (Cons e es)
  let ?h = "set_payload (source e) (push_outgoing (WeakEdge_new i a)) (weak_clone a h)"
  have IH: "box (register_outgoing_edges (Suc i) es ?h) x =
    (if x = a then (box ?h a)\<lparr>weak := weak (box ?h a) + length es\<rparr>
     else (box ?h x)\<lparr>payload := map_option (\<lambda>d. d\<lparr>outgoing := outgoing d @ new_outgoing_from (Suc i) a (map source es) x\<rparr>)
             (deref ?h x)\<rparr>)"
    using Cons.prems by (intro Cons.IH) simp_all
  have a: "box ?h a = (box h a)\<lparr>weak := weak (box h a) + 1\<rparr>"
    using Cons.prems by (simp add: set_payload_def weak_clone_def box_upd)
  have "box ?h x = (if x = source e then (box h x)\<lparr>payload := map_option (push_outgoing (WeakEdge_new i a)) (deref h x)\<rparr>
      else box h x)" if "x \<noteq> a"
    using that by (cases "x < length h") (auto simp: set_payload_def weak_clone_def box_upd)
  with IH a Cons.prems show ?case
    by (cases "deref h x"; cases "x = source e") (simp_all add: inner_edge_downgrade_def push_outgoing_def)
qed

lemma register_outgoing_refs:
  assumes "\<forall>e\<in>set es. target e = a \<and> deref h (source e) \<noteq> None"
  shows "refs src_refs (register_outgoing_edges i es h) = refs src_refs h \<and>
    refs reg_ref (register_outgoing_edges i es h) = refs reg_ref h \<and>
    refs wk_refs (register_outgoing_edges i es h) = replicate_mset (length es) a + refs wk_refs h"
  using assms
proof (induction es arbitrary: i h)
  case (Cons e es)
  let ?h = "set_payload (source e) (push_outgoing (WeakEdge_new i a)) (weak_clone a h)"
  have live: "\<forall>e\<in>set es. target e = a \<and> deref ?h (source e) \<noteq> None"
    using Cons.prems by (auto simp: heap_simps)
  have same: "refs src_refs ?h = refs src_refs h" "refs reg_ref ?h = refs reg_ref h"
    by (simp_all add: refs_set_payload_same src_refs_def reg_ref_def push_outgoing_def refs_counts_only)
  from Cons.prems obtain d where "deref (weak_clone a h) (source e) = Some d"
    by (auto simp: heap_simps)
  from refs_set_payload [OF this, of wk_refs "push_outgoing (WeakEdge_new i a)"]
  have "refs wk_refs ?h = add_mset a (refs wk_refs h)"
    by (simp add: wk_refs_def push_outgoing_def refs_counts_only)
  with Cons.IH [OF live, of "Suc i"] same Cons.prems show ?case
    by (simp add: inner_edge_downgrade_def)
qed simp

lemma with_parents_heap:
  fixes h :: "('n, 'e) node_heap"
  assumes al: "alloc_ok al" and new: "with_parents al v ps h = (a, h')"
    and parents: "\<forall>p\<in>set (map fst ps). p \<noteq> al (occupied h) \<and> deref h p \<noteq> None"
    and free: "deref h (al (occupied h)) = None"
  shows "a = al (occupied h)"
    and "box h' x = (if x = a
      then \<lparr>strong = 1, weak = 1 + 2 * length ps, payload = Some (InnerData_with_incoming v (new_edges a ps))\<rparr>
      else (box h x)\<lparr>payload := map_option (\<lambda>d. d\<lparr>outgoing := outgoing d @ new_outgoing a (map fst ps) x\<rparr>)
             (deref h x)\<rparr>)"
    and "refs src_refs h' = mset (map fst ps) + refs src_refs h"
    and "refs wk_refs h' = replicate_mset (2 * length ps) a + refs wk_refs h"
    and "refs reg_ref h' = refs reg_ref h"
proof -
  let ?d = "InnerData_with_incoming v (new_edges a ps) :: ('n, 'e) InnerData"
  define h1 where "h1 = put (al (occupied h)) \<lparr>strong = 0, weak = 1, payload = None\<rparr> h"
  define h3 where "h3 = snd (build_incoming a ps (weak_clone a h1))"
  define h5 where "h5 = rc_cyclic_init a ?d (weak_drop a h3)"
  show a: "a = al (occupied h)"
    using new by (auto simp: with_parents_def rc_cyclic_alloc_def Let_def split: prod.splits)
  have es: "build_incoming a ps (weak_clone a h1) = (new_edges a ps, h3)"
    using build_incoming_edges [of a ps "weak_clone a h1"] by (simp add: h3_def prod_eq_iff)
  have h': "h' = register_outgoing_edges 0 (new_edges a ps) h5"
    using new es by (simp add: with_parents_def rc_cyclic_alloc_def Let_def a [symmetric] h1_def h5_def)
  have le: "a \<le> length h" unfolding a by (rule allocator_free(1) [OF al])
  then have in1: "a < length h1" by (auto simp: h1_def a [symmetric] put_def)
  have box1: "box h1 x = (if x = a then \<lparr>strong = 0, weak = 1, payload = None\<rparr> else box h x)" for x
    using le by (simp add: h1_def a [symmetric] box_put)
  have box3: "box h3 x = (if x = a then \<lparr>strong = 0, weak = 2 + length ps, payload = None\<rparr> else box h x)" for x
    unfolding h3_def using in1 by (simp add: build_incoming_heap weak_clone_def box_upd box1)
  have in3: "a < length h3" by (simp add: h3_def build_incoming_heap in1)
  have box5: "box h5 x = (if x = a then \<lparr>strong = 1, weak = 1 + length ps, payload = Some ?d\<rparr> else box h x)" for x
    using in3 by (simp add: h5_def rc_cyclic_init_def weak_drop_def box_upd box3)
  have in5: "a < length h5" by (simp add: h5_def rc_defs in3)
  have tgt: "\<forall>e\<in>set (new_edges a ps). target e = a \<and> source e \<noteq> a"
    using parents new_edges_target [of _ a ps] a by blast
  have live: "\<forall>e\<in>set (new_edges a ps). target e = a \<and> deref h5 (source e) \<noteq> None"
  proof
    fix e assume e: "e \<in> set (new_edges a ps)"
    with new_edges_target parents a have "target e = a" "source e \<noteq> a" "deref h (source e) \<noteq> None" by blast+
    then show "target e = a \<and> deref h5 (source e) \<noteq> None" by (simp add: box5)
  qed
  show "box h' x = (if x = a
      then \<lparr>strong = 1, weak = 1 + 2 * length ps, payload = Some ?d\<rparr>
      else (box h x)\<lparr>payload := map_option (\<lambda>d. d\<lparr>outgoing := outgoing d @ new_outgoing a (map fst ps) x\<rparr>)
             (deref h x)\<rparr>)"
    unfolding h' register_outgoing_heap [OF tgt in5] by (simp add: box5)
  have "refs g h1 = refs g h" for g :: "_ \<Rightarrow> addr multiset"
    unfolding h1_def a [symmetric] using le free a by (simp add: refs_put)
  then have "refs g h5 = g ?d + refs g h" for g :: "_ \<Rightarrow> addr multiset"
    using refs_upd [of a "weak_drop a h3" g "\<lambda>b. b\<lparr>strong := 1, payload := Some ?d\<rparr>"] in3
    by (simp add: h5_def rc_cyclic_init_def box1 box3 heap_simps refs_counts_only h3_def build_incoming_heap
        add.commute)
  moreover have "replicate_mset (2 * n) a = replicate_mset n a + replicate_mset n a" for n
    by (rule multiset_eqI) simp
  ultimately show "refs src_refs h' = mset (map fst ps) + refs src_refs h"
    and "refs reg_ref h' = refs reg_ref h"
    and "refs wk_refs h' = replicate_mset (2 * length ps) a + refs wk_refs h"
    using register_outgoing_refs [OF live, of 0]
    by (simp_all add: h' src_refs_def reg_ref_def wk_refs_def InnerData_with_incoming_def del: mset_map)
qed

lemma new_outgoing_from_filter:
  "new_outgoing_from i a ps x =
     map (\<lambda>j. WeakEdge_new (i + j) a) (filter (\<lambda>j. ps ! j = x) [0..<length ps])"
proof (induction ps arbitrary: i)
  case (Cons p ps)
  have "[0..<length (p # ps)] = 0 # map Suc [0..<length ps]" by (simp add: upt_conv_Cons map_Suc_upt del: upt_Suc)
  with Cons.IH [of "Suc i"] show ?case by (simp add: filter_map comp_def)
qed simp

lemma with_parents_effect_ok:
  assumes al: "alloc_ok al" and ok: "world_inv I ops w (mset (map fst ps) + S) W R V"
    and new: "with_parents al v ps (mem w) = (a, h')"
  shows "weak (box (mem w) a) = 0" "box h' x =
    (if x = a then \<lparr>strong = 1, weak = 1 + 2 * length ps,
        payload = Some \<lparr>node_value = v, incoming = map (\<lambda>(p, e). \<lparr>edge_value = e, source = p, target = a\<rparr>) ps,
                        outgoing = [], registry = None\<rparr>\<rparr>
     else (box (mem w) x)\<lparr>payload := map_option (\<lambda>d. d\<lparr>outgoing := outgoing d @
             map (\<lambda>i. \<lparr>we_index = i, we_target = a\<rparr>) (filter (\<lambda>i. fst (ps ! i) = x) [0..<length ps])\<rparr>)
             (deref (mem w) x)\<rparr>)"
proof -
  let ?a = "al (occupied (mem w))"
  note fresh = fresh_cell [OF ok allocator_free(2) [OF al, of "mem w"]]
  have par: "\<forall>p\<in>set (map fst ps). p \<noteq> ?a \<and> deref (mem w) p \<noteq> None"
    using fresh(3) owned_strong [OF ok] alive_iff_deref [OF world_okD(5) [OF ok]] by fastforce
  note heap = with_parents_heap [OF al new par fresh(1)]
  show "weak (box (mem w) a) = 0" using heap(1) allocator_free(2) [OF al] by simp
  have "filter (\<lambda>j. map fst ps ! j = x) [0..<length ps] = filter (\<lambda>j. fst (ps ! j) = x) [0..<length ps]"
    by (rule filter_cong) simp_all
  then show "box h' x = (if x = a then \<lparr>strong = 1, weak = 1 + 2 * length ps,
        payload = Some \<lparr>node_value = v, incoming = map (\<lambda>(p, e). \<lparr>edge_value = e, source = p, target = a\<rparr>) ps,
                        outgoing = [], registry = None\<rparr>\<rparr>
     else (box (mem w) x)\<lparr>payload := map_option (\<lambda>d. d\<lparr>outgoing := outgoing d @
             map (\<lambda>i. \<lparr>we_index = i, we_target = a\<rparr>) (filter (\<lambda>i. fst (ps ! i) = x) [0..<length ps])\<rparr>)
             (deref (mem w) x)\<rparr>)"
    by (simp add: heap(2) InnerData_with_incoming_def new_edges_def InnerEdgeData_new_def new_outgoing_from_filter
        WeakEdge_new_def)
qed

context shape_law
begin

lemma with_parents_ok:
  assumes al: "alloc_ok al" and ok: "world_inv I ops w (mset (map fst ps) + S) W R V"
    and new: "with_parents al v ps (mem w) = (a, h')"
  shows "world_inv I ops (w\<lparr>mem := h'\<rparr>) (add_mset a S) W R V"
proof -
  let ?h = "mem w"
  have a: "a = al (occupied ?h)"
    using new by (auto simp: with_parents_def rc_cyclic_alloc_def Let_def split: prod.splits)
  then have free: "weak (box ?h a) = 0" using allocator_free(2) [OF al] by simp
  note fresh = fresh_cell [OF ok free]
  have parents: "\<forall>p\<in>set (map fst ps). p \<noteq> al (occupied ?h) \<and> deref ?h p \<noteq> None"
  proof
    fix p assume "p \<in> set (map fst ps)"
    then have p: "p \<in># mset (map fst ps) + S" by simp
    with fresh(3) a have "p \<noteq> al (occupied ?h)" by blast
    with owned_strong [OF ok p] world_okD(5) [OF ok] show "p \<noteq> al (occupied ?h) \<and> deref ?h p \<noteq> None"
      by (auto simp: live_ok_def)
  qed
  note eff = with_parents_heap [OF al new parents fresh(1) [unfolded a]]
  have "count (mset (map fst ps)) a + count S a = 0" using fresh(3) by (simp add: not_in_iff del: mset_map)
  then have "strong_ok (w\<lparr>mem := h'\<rparr>) (add_mset a S)"
    using world_okD(1) [OF ok] fresh(5) by (auto simp: strong_ok_def eff(2,3) not_in_iff)
  moreover have "weak_ok ops (w\<lparr>mem := h'\<rparr>) W"
    using world_okD(2) [OF ok] fresh(4,6,7) by (auto simp: weak_ok_def eff(2,4) not_in_iff)
  moreover have "live_ok h'" using world_okD(5) [OF ok] by (auto simp: live_ok_def eff(2))
  moreover have "shape h' = extend_shape a (new_edges a ps) (shape ?h)"
    by (auto simp: shape_def extend_shape_def eff(2) fun_eq_iff option.map_comp o_def InnerData_with_incoming_def)
  moreover have "I (extend_shape a (new_edges a ps) (shape ?h))"
  proof (rule create [OF world_okD(7) [OF ok]])
    show "shape ?h a = None" using fresh(1) by (simp add: shape_def)
    show "\<forall>e\<in>set (new_edges a ps). target e = a \<and> shape ?h (source e) \<noteq> None"
      using new_edges_target [of _ a ps] parents by (fastforce simp: shape_def)
  qed (rule shape_unref [OF fresh(5,6)])
  ultimately show ?thesis using ok by (auto simp: world_inv_def reg_strong_ok_def reg_weak_ok_def regs_ok_def eff(5))
qed

end

text \<open>A node without parents made by \<open>new\<close> is the one \<open>with_parents\<close> makes of no parents.\<close>

lemma relrc_new_is_with_parents:
  assumes "alloc_ok al"
  shows "relrc_new al v h = with_parents al v [] h"
proof -
  let ?a = "al (occupied h)"
  have "?a \<le> length h" by (rule allocator_free(1) [OF assms])
  then show ?thesis
    by (auto simp: relrc_new_def rc_new_def with_parents_def rc_cyclic_alloc_def Let_def InnerData_new_def
        InnerData_with_incoming_def rc_defs upd_def box_def put_def nth_append list_update_append)
qed

subsection \<open>The effect of \<open>all_outgoing\<close>\<close>

abbreviation alive :: "'a heap \<Rightarrow> addr \<Rightarrow> bool" where
  "alive h a \<equiv> 0 < strong (box h a)"

definition strong_edge :: "WeakEdge \<Rightarrow> Edge" where
  "strong_edge e = \<lparr>e_index = we_index e, e_target = we_target e\<rparr>"

abbreviation live_edges :: "'a heap \<Rightarrow> WeakEdge list \<Rightarrow> WeakEdge list" where
  "live_edges h es \<equiv> filter (\<lambda>e. alive h (we_target e)) es"

abbreviation dead_edges :: "'a heap \<Rightarrow> WeakEdge list \<Rightarrow> WeakEdge list" where
  "dead_edges h es \<equiv> filter (\<lambda>e. \<not> alive h (we_target e)) es"

lemma retain_outgoing_effect:
  assumes "retain_outgoing es h = (kept, edges, h')"
  shows "kept = live_edges h es \<and> edges = map strong_edge kept \<and>
    refs g h' = refs g h \<and> deref h' x = deref h x \<and>
    strong (box h' x) = strong (box h x) + count_list (map we_target kept) x \<and>
    weak (box h' x) = weak (box h x) - count_list (map we_target (dead_edges h es)) x"
  using assms
proof (induction es arbitrary: h kept edges)
  case (Cons e es)
  show ?case
  proof (cases "alive h (we_target e)")
    case True
    let ?h = "rc_clone (we_target e) h"
    have same: "alive ?h y \<longleftrightarrow> alive h y" for y using True by (auto simp: heap_simps)
    obtain kept' edges' where rec: "retain_outgoing es ?h = (kept', edges', h')"
        and kept: "kept = e # kept'" "edges = strong_edge e # edges'"
      using Cons.prems True
      by (auto simp: weak_edge_upgrade_alive strong_edge_def split: prod.splits)
    from Cons.IH [OF rec] have IH: "kept' = live_edges h es" "edges' = map strong_edge kept'"
        "refs g h' = refs g ?h" "deref h' x = deref ?h x"
        "strong (box h' x) = strong (box ?h x) + count_list (map we_target kept') x"
        "weak (box h' x) = weak (box ?h x) - count_list (map we_target (dead_edges h es)) x"
      by (simp_all only: same)
    show ?thesis using True in_range_strong [OF True] by (simp add: IH kept refs_counts_only heap_simps)
  next
    case False
    let ?h = "weak_drop (we_target e) h"
    have rec: "retain_outgoing es ?h = (kept, edges, h')"
      using Cons.prems False by (simp add: weak_edge_upgrade_dead)
    from Cons.IH [OF rec] False show ?thesis by (simp add: refs_counts_only heap_simps)
  qed
qed simp

lemma retain_outgoing_spec:
  assumes "retain_outgoing es h = (kept, edges, h')"
  shows "kept = live_edges h es" "edges = map strong_edge kept" "refs g h' = refs g h" "deref h' x = deref h x"
    "strong (box h' x) = strong (box h x) + count_list (map we_target kept) x"
    "weak (box h' x) = weak (box h x) - count_list (map we_target (dead_edges h es)) x"
  using retain_outgoing_effect [OF assms] by blast+

lemma count_live_dead:
  "count_list (map f es) x = count_list (map f (live_edges h es)) x + count_list (map f (dead_edges h es)) x"
  by (induction es) auto

lemma all_outgoing_edges:
  "fst (all_outgoing a h) = map strong_edge (live_edges h (all_outgoing_weak_ref a h))"
proof -
  obtain kept edges h1 where ret: "retain_outgoing (all_outgoing_weak_ref a h) h = (kept, edges, h1)"
    by (metis prod.exhaust)
  then show ?thesis using retain_outgoing_spec(1,2) [OF ret] by (simp add: all_outgoing_def)
qed

context shape_law
begin

lemma all_outgoing_ok:
  fixes w :: "('n, 'e, 'k, 's) world"
  assumes ok: "world_inv I ops w S W R V" and live: "alive (mem w) a"
    and out: "all_outgoing a (mem w) = (edges, h')"
  shows "world_inv I ops (w\<lparr>mem := h'\<rparr>) (mset (map e_target edges) + S) W R V"
proof -
  from live ok obtain d where d: "deref (mem w) a = Some d" by (auto simp: world_inv_def alive_iff_deref)
  then have os: "all_outgoing_weak_ref a (mem w) = outgoing d" by (simp add: all_outgoing_weak_ref_def)
  obtain kept edges1 h1 where ret: "retain_outgoing (outgoing d) (mem w) = (kept, edges1, h1)"
    by (metis prod.exhaust)
  note eff = retain_outgoing_spec [OF ret]
  let ?dead = "map we_target (dead_edges (mem w) (outgoing d))"
  let ?f = "\<lambda>d. d\<lparr>outgoing := kept\<rparr> :: ('n, 'e) InnerData"
  have h': "h' = set_payload a ?f h1" and edges: "map e_target edges = map we_target kept"
    using out ret os eff(2) by (auto simp: all_outgoing_def strong_edge_def)
  have d1: "deref h1 a = Some d" using eff(4) d by metis
  have same: "refs src_refs h' = refs src_refs (mem w)" "refs reg_ref h' = refs reg_ref (mem w)"
    by (simp_all add: h' refs_set_payload_same src_refs_def reg_ref_def eff(3))
  have wk: "count (refs wk_refs (mem w)) x = count (refs wk_refs h') x + count_list ?dead x" for x
    using count_refs_set_payload [OF d1, of wk_refs ?f x] count_live_dead [of we_target "outgoing d" x "mem w"]
    by (simp add: h' wk_refs_def eff(3) count_mset eff(1) del: mset_map)
  have deref': "deref h' x = (if x = a then Some (?f d) else deref (mem w) x)" for x
    using eff(4) d1 by (simp add: h' deref_set_payload)
  have strong': "strong (box h' x) = strong (box (mem w) x) + count_list (map we_target kept) x" for x
    by (simp add: h' strong_set_payload eff(5))
  have weak': "weak (box h' x) = weak (box (mem w) x) - count_list ?dead x" for x
    by (simp add: h' weak_set_payload eff(6))
  have "strong_ok (w\<lparr>mem := h'\<rparr>) (mset (map e_target edges) + S)"
    using world_okD(1) [OF ok] by (simp add: strong_ok_def same edges strong' count_mset del: mset_map)
  moreover have "weak_ok ops (w\<lparr>mem := h'\<rparr>) W"
    using world_okD(2) [OF ok] d by (auto simp: weak_ok_def wk deref' weak')
  moreover have "live_ok h'"
  proof -
    have "count_list (map we_target kept) x = 0" if "\<not> alive (mem w) x" for x
      using that eff(1) by (auto simp: count_list_0_iff)
    then have "strong (box h' x) = 0 \<longleftrightarrow> strong (box (mem w) x) = 0" for x
      by (auto simp: strong')
    with world_okD(5) [OF ok] live show ?thesis by (auto simp: live_ok_def deref')
  qed
  moreover have "I (shape h')"
  proof -
    have "kept = filter (\<lambda>e. shape (mem w) (we_target e) \<noteq> None) (outgoing d)"
      using world_okD(5) [OF ok] by (auto simp: eff(1) live_ok_def shape_def intro!: filter_cong)
    moreover have "shape h' = (shape (mem w))(a \<mapsto> (incoming d, kept))"
      by (auto simp: shape_def deref' fun_eq_iff)
    ultimately show ?thesis using prune [OF world_okD(7) [OF ok]] d by (simp add: shape_def)
  qed
  ultimately show ?thesis using ok
    by (auto simp: world_inv_def reg_strong_ok_def reg_weak_ok_def regs_ok_def same)
qed

end

end
