(* ===== verification/Registry_Correct.thy ===== *)
theory Registry_Correct
  imports Node_Correct
begin

section \<open>Registries: functional behaviour and invariant\<close>

text \<open>
  What each registry operation returns and leaves behind, for any slot map that keeps its
  documented promises, and that each keeps the memory invariant when it runs on a registry
  behind an \<open>Rc\<close>.
\<close>

lemma registry_get_effect:
  assumes ok: "registry_ok ops R"
  shows "fst (registry_get ops k R h) =
      (case vals (reg_nodes R) k of Some a \<Rightarrow> if alive h a then Some a else None | None \<Rightarrow> None)"
    and "snd (registry_get ops k R h) =
      (case fst (registry_get ops k R h) of Some a \<Rightarrow> rc_clone a h | None \<Rightarrow> h)"
proof -
  have "weak_drop a (rc_clone a (weak_clone a h)) = rc_clone a h" for a h
    by (cases "a < length h"; simp add: rc_defs upd_def box_def list_update_beyond)
  note undo = weak_drop_clone this
  have eq: "registry_get ops k R h =
      (case vals (reg_nodes R) k of None \<Rightarrow> (None, h)
       | Some a \<Rightarrow> if alive h a then (Some a, rc_clone a h) else (None, h))"
    by (simp add: registry_get_def slotmap_get_ok [OF registry_okD(1) [OF ok]] relweak_upgrade_def
        weak_upgrade_def strong_count_def heap_simps undo split: option.splits)
  show "fst (registry_get ops k R h) =
      (case vals (reg_nodes R) k of Some a \<Rightarrow> if alive h a then Some a else None | None \<Rightarrow> None)"
    and "snd (registry_get ops k R h) =
      (case fst (registry_get ops k R h) of Some a \<Rightarrow> rc_clone a h | None \<Rightarrow> h)"
    by (simp_all add: eq split: option.splits)
qed

lemma contains_id_effect:
  assumes ok: "registry_ok ops R"
  shows "contains_id ops k R h = (\<exists>a. vals (reg_nodes R) k = Some a \<and> alive h a, h)"
proof -
  have "registry_get ops k R h = (fst (registry_get ops k R h), snd (registry_get ops k R h))" by simp
  then show ?thesis
    unfolding contains_id_def registry_get_effect [OF ok]
    by (auto simp: release_clone split: option.splits)
qed

subsection \<open>Freeing dead ids\<close>

lemma dead_entries_iff:
  assumes "registry_ok ops R"
  shows "(k, a) \<in> set (dead_entries ops R h) \<longleftrightarrow> vals (reg_nodes R) k = Some a \<and> \<not> alive h a"
  using registry_okD(1) [OF assms]
  by (auto simp: dead_entries_def set_slotmap_iter relweak_upgrade_def weak_upgrade_def strong_count_def)

context slot_map
begin

lemma distinct_iter_keys: "distinct (map fst (slotmap_iter ops m))"
  by (simp add: slotmap_iter_def map_fst_map_filter)

lemma distinct_dead_entries: "distinct (map fst (dead_entries ops R h))"
  unfolding dead_entries_def by (rule distinct_map_filter [OF distinct_iter_keys])

text \<open>Removing the slots and then the pointers is removing the ids one by one.\<close>

abbreviation remove_each where
  "remove_each ks R h \<equiv> fold (\<lambda>k (R, h). registry_remove ops k R h) ks (R, h)"

lemma remove_each_split:
  assumes "registry_ok ops R" "distinct (map fst es)" "\<forall>(k, p)\<in>set es. vals (reg_nodes R) k = Some p"
  shows "remove_each (map fst es) R h =
    (let (m, h') = fold (remove_slot ops) (map fst es) (reg_nodes R, h)
     in (\<lparr>reg_nodes = m, ptr_to_id = fold (\<lambda>p f. f(p := None)) (map snd es) (ptr_to_id R)\<rparr>, h'))"
  using assms
proof (induction es arbitrary: R h)
  case (Cons e es)
  obtain k p where e: "e = (k, p)" by fastforce
  obtain R1 h1 where rm: "registry_remove ops k R h = (R1, h1)" by fastforce
  obtain x m1 where sm: "slotmap_remove ops k (reg_nodes R) = (x, m1)" by fastforce
  note spec = registry_remove_spec [OF Cons.prems(1) rm]
  from remove_spec(2) [OF sm registry_okD(1) [OF Cons.prems(1)]] Cons.prems(3) e
  have x: "x = Some p" by simp
  with rm sm have R1: "R1 = \<lparr>reg_nodes = m1, ptr_to_id = (ptr_to_id R)(p := None)\<rparr>" and h1: "h1 = weak_drop p h"
    by (auto simp: registry_remove_def relweak_as_ptr_def)
  have "\<forall>(j, q)\<in>set es. vals (reg_nodes R1) j = Some q"
    using Cons.prems(2,3) e by (auto simp: spec(4) rev_image_eqI)
  with Cons.IH [OF spec(1), of h1] Cons.prems(2) e rm sm x R1 h1 show ?case
    by (simp add: remove_slot_def)
qed simp

lemma free_node_ids_removes:
  assumes ok: "registry_ok ops R" and free: "free_node_ids ops R h = (n, R', h')"
  shows "remove_each (map fst (dead_entries ops R h)) R h = (R', h')"
    and "n = slotmap_len ops (reg_nodes R')"
proof -
  have "\<forall>(k, p)\<in>set (dead_entries ops R h). vals (reg_nodes R) k = Some p"
    using dead_entries_iff [OF ok] by auto
  from remove_each_split [OF ok distinct_dead_entries this, of h] free
  show "remove_each (map fst (dead_entries ops R h)) R h = (R', h')" and "n = slotmap_len ops (reg_nodes R')"
    by (auto simp: free_node_ids_def Let_def relweak_as_ptr_def o_def split: prod.splits)
qed

lemma remove_each_spec:
  assumes "registry_ok ops R" "remove_each ks R h = (R', h')"
  shows "registry_ok ops R' \<and> vals (reg_nodes R') k = (if k \<in> set ks then None else vals (reg_nodes R) k)"
  using assms
proof (induction ks arbitrary: R h)
  case (Cons j ks)
  obtain R1 h1 where rm: "registry_remove ops j R h = (R1, h1)" by fastforce
  note spec = registry_remove_spec [OF Cons.prems(1) rm]
  from Cons.IH [OF spec(1)] Cons.prems(2) rm spec(4) show ?case by auto
qed simp

lemma free_node_ids_spec:
  assumes ok: "registry_ok ops R" and free: "free_node_ids ops R h = (n, R', h')"
  shows "registry_ok ops R'"
    and "vals (reg_nodes R') k = Some a \<longleftrightarrow> vals (reg_nodes R) k = Some a \<and> alive h a"
    and "n = card {k. \<exists>a. vals (reg_nodes R) k = Some a \<and> alive h a}"
proof -
  note spec = remove_each_spec [OF ok free_node_ids_removes(1) [OF ok free]]
  show ok': "registry_ok ops R'" using spec by blast
  have dead: "k \<in> set (map fst (dead_entries ops R h)) \<longleftrightarrow> (\<exists>a. vals (reg_nodes R) k = Some a \<and> \<not> alive h a)" for k
    using dead_entries_iff [OF ok, of k] by force
  show vals': "vals (reg_nodes R') k = Some a \<longleftrightarrow> vals (reg_nodes R) k = Some a \<and> alive h a" for k a
    using spec [of k] dead [of k] by auto
  have "dom (vals (reg_nodes R')) = {k. \<exists>a. vals (reg_nodes R) k = Some a \<and> alive h a}"
    using vals' by (auto simp: dom_def)
  then show "n = card {k. \<exists>a. vals (reg_nodes R) k = Some a \<and> alive h a}"
    using free_node_ids_removes(2) [OF ok free] len_spec [OF registry_okD(1) [OF ok']] by simp
qed

subsection \<open>On the heap of registries\<close>

lemma remove_each_world_ok:
  assumes "world_inv I ops w S W R V" "deref (regs w) r = Some Rg" "remove_each ks Rg (mem w) = (Rg', h')"
  shows "world_inv I ops (w\<lparr>mem := h', regs := set_payload r (\<lambda>_. Rg') (regs w)\<rparr>) S W R V"
  using assms
proof (induction ks arbitrary: w Rg)
  case Nil
  have "registry_ok ops Rg" by (rule world_registry_ok [OF Nil.prems(1,2)])
  with Nil set_registry_payload_ok [OF Nil.prems(1,2), of Rg W] show ?case by auto
next
  case (Cons k ks)
  obtain Rg1 h1 where rm: "registry_remove ops k Rg (mem w) = (Rg1, h1)" by fastforce
  define w1 where "w1 = w\<lparr>mem := h1, regs := set_payload r (\<lambda>_. Rg1) (regs w)\<rparr>"
  have "world_inv I ops w1 S W R V"
    using registry_remove_world_ok [OF Cons.prems(1), of r k] Cons.prems(2) rm
    by (simp add: with_registry_mut_def w1_def)
  moreover have "deref (regs w1) r = Some Rg1" using Cons.prems(2) by (simp add: w1_def deref_set_payload)
  moreover have "remove_each ks Rg1 (mem w1) = (Rg', h')" using Cons.prems(3) rm by (simp add: w1_def)
  ultimately have "world_inv I ops (w1\<lparr>mem := h', regs := set_payload r (\<lambda>_. Rg') (regs w1)\<rparr>) S W R V"
    by (rule Cons.IH)
  moreover have "set_payload r (\<lambda>_. Rg') (set_payload r (\<lambda>_. Rg1) (regs w)) = set_payload r (\<lambda>_. Rg') (regs w)"
    by (cases "r < length (regs w)"; cases "deref (regs w) r")
      (simp_all add: set_payload_def upd_def box_def list_update_beyond)
  ultimately show ?case by (simp add: w1_def)
qed

lemma free_node_ids_world_ok:
  assumes ok: "world_inv I ops w S W R V"
  shows "world_inv I ops (snd (with_registry_mut r (free_node_ids ops) w)) S W R V"
proof (cases "deref (regs w) r")
  case (Some Rg)
  then have rok: "registry_ok ops Rg" by (rule world_registry_ok [OF ok])
  obtain n Rg' h' where free: "free_node_ids ops Rg (mem w) = (n, Rg', h')" by (metis prod.exhaust)
  from remove_each_world_ok [OF ok Some free_node_ids_removes(1) [OF rok free]] Some free
  show ?thesis by (simp add: with_registry_mut_def)
qed (simp add: with_registry_mut_def ok)

lemma try_register_in_ok:
  assumes ok: "world_inv I ops w S W R V" and live: "alive (mem w) a" and r: "alive (regs w) r"
  shows "world_inv I ops (snd (try_register_in ops a r w)) S W R V"
proof -
  obtain Rg where Rg: "deref (regs w) r = Some Rg"
    using r world_okD(6) [OF ok] alive_iff_deref by blast
  then have "0 < weak (box (regs w) r)" using world_okD(4) [OF ok] by (simp add: reg_weak_ok_def)
  note down = reg_weak_clone_ok [OF ok this]
  show ?thesis
  proof (cases "node_registry a (mem w)")
    case None
    from set_registry_ok [OF down, of a] None live
    have "world_inv I ops (w\<lparr>mem := set_payload a (\<lambda>d. d\<lparr>registry := Some r\<rparr>) (mem w), regs := rc_downgrade r (regs w)\<rparr>) S W R V"
      by simp
    from add_node_world_ok [OF this, of a r] live None show ?thesis
      by (simp add: try_register_in_def try_set_register_def Let_def strong_set_payload)
  next
    case (Some existing)
    have ok': "world_inv I ops (w\<lparr>regs := weak_drop r (rc_downgrade r (regs w))\<rparr>) S W R V"
      using reg_weak_drop_ok [OF down] by simp
    from add_node_world_ok [OF this, of a r] ok' live Some show ?thesis
      by (simp add: try_register_in_def try_set_register_def Let_def split: bool.splits)
  qed
qed

lemma rc_registry_ok:
  assumes al: "alloc_ok al" and ok: "world_inv I ops w S (slot_refs ops Rg + W) R V" and Rg: "registry_ok ops Rg"
    and new: "rc_registry al Rg w = (r, w')"
  shows "world_inv I ops w' S W (add_mset r R) V" "deref (regs w') r = Some Rg"
proof -
  let ?g = "regs w"
  have r: "r = al (occupied ?g)" and w': "w' = w\<lparr>regs := put r \<lparr>strong = 1, weak = 1, payload = Some Rg\<rparr> ?g\<rparr>"
    using new by (auto simp: rc_registry_def rc_new_def Let_def)
  have le: "r \<le> length ?g" and free: "weak (box ?g r) = 0" using allocator_free [OF al] r by auto
  from world_okD(4) [OF ok] free have *: "count (refs reg_ref (mem w)) r + count V r +
      (if deref ?g r = None then 0 else 1) = 0"
    by (simp add: reg_weak_ok_def)
  then have none: "deref ?g r = None" by (simp split: if_splits)
  with world_okD(6) [OF ok] have strong0: "strong (box ?g r) = 0" by (simp add: live_ok_def)
  show "deref (regs w') r = Some Rg" using le by (simp add: w' box_put)
  show "world_inv I ops w' S W (add_mset r R) V"
    using ok Rg * none strong0 le
    by (auto simp: w' world_inv_def count_defs live_ok_def regs_ok_def box_put refs_put split: if_splits)
qed

lemma reg_take_ok:
  assumes ok: "world_inv I ops w S W (add_mset r R) V" and one: "strong (box (regs w) r) = 1"
    and take: "rc_take r (regs w) = (data, g)"
  shows "\<exists>Rg. data = Some Rg \<and> world_inv I ops (w\<lparr>regs := g\<rparr>) S (slot_refs ops Rg + W) R (add_mset r V)"
proof -
  let ?f = "\<lambda>b. b\<lparr>strong := strong b - 1, payload := None\<rparr> :: ('k, 's) Registry rcbox"
  from one ok obtain Rg where Rg: "deref (regs w) r = Some Rg"
    by (metis alive_iff_deref world_okD(6) zero_less_one)
  have g: "g = upd r ?f (regs w)" and data: "data = Some Rg" using take Rg by (auto simp: rc_take_def)
  have r: "r < length (regs w)" by (rule in_range_deref [OF Rg])
  have refs: "count (refs (slot_refs ops) (regs w)) x = count (refs (slot_refs ops) g) x + count (slot_refs ops Rg) x" for x
    using arg_cong [OF refs_upd [OF r, of "slot_refs ops" ?f], of "\<lambda>m. count m x"] Rg by (simp add: g)
  have box_g: "box g x = (if x = r then ?f (box (regs w) r) else box (regs w) x)" for x
    using r by (simp add: g box_upd)
  have "reg_strong_ok (w\<lparr>regs := g\<rparr>) R" using world_okD(3) [OF ok] one by (auto simp: reg_strong_ok_def box_g)
  moreover have "weak_ok ops (w\<lparr>regs := g\<rparr>) (slot_refs ops Rg + W)"
    using world_okD(2) [OF ok] by (simp add: weak_ok_def refs add.assoc)
  moreover have "reg_weak_ok (w\<lparr>regs := g\<rparr>) (add_mset r V)"
    using world_okD(4) [OF ok] Rg by (auto simp: reg_weak_ok_def box_g)
  moreover have "live_ok g" using world_okD(6) [OF ok] one by (auto simp: live_ok_def box_g)
  moreover have "regs_ok ops (w\<lparr>regs := g\<rparr>)"
    using world_okD(8) [OF ok] by (auto simp: regs_ok_def box_g split: if_splits)
  ultimately show ?thesis using ok data by (auto simp: world_inv_def strong_ok_def)
qed

lemma tasks_own_weak_refs:
  "tasks_own task_strong (map (\<lambda>e. DropRelWeak (f e)) es) = {#}"
  "tasks_own task_weak (map (\<lambda>e. DropRelWeak (f e)) es) = mset (map f es)"
  "tasks_own task_wreg (map (\<lambda>e. DropRelWeak (f e)) es) = {#}"
  by (induction es) simp_all

lemma tasks_own_strong_refs:
  "tasks_own task_strong (map (\<lambda>e. DropRelRc (f e)) es) = mset (map f es)"
  "tasks_own task_weak (map (\<lambda>e. DropRelRc (f e)) es) = {#}"
  "tasks_own task_wreg (map (\<lambda>e. DropRelRc (f e)) es) = {#}"
  by (induction es) simp_all

lemma rc_registry_drop_inv:
  assumes law: "shape_law I" and ok: "world_inv I ops w S W (add_mset r R) V"
  shows "world_inv I ops (rc_registry_drop ops r w) S W R V"
proof (cases "1 < strong (box (regs w) r)")
  case True
  with reg_release_ok [OF ok] show ?thesis by (simp add: rc_registry_drop_def strong_count_def)
next
  case False
  with owned_reg [OF ok, of r] have one: "strong (box (regs w) r) = 1" by simp
  obtain data g where take: "rc_take r (regs w) = (data, g)" by fastforce
  from reg_take_ok [OF ok one take] obtain Rg where data: "data = Some Rg"
      and ok1: "world_inv I ops (w\<lparr>regs := g\<rparr>) S (slot_refs ops Rg + W) R (add_mset r V)"
    by blast
  let ?ts = "map (\<lambda>e. DropRelWeak (snd e)) (slotmap_iter ops (reg_nodes Rg))"
  have "mset (map snd (slotmap_iter ops (reg_nodes Rg))) = slot_refs ops Rg"
    by (simp only: slotmap_iter_snd slot_refs_def slotmap_values_def)
  then have "world_inv I ops (drop_tasks ops ?ts (w\<lparr>regs := g\<rparr>)) S W R (add_mset r V)"
    using ok1 by (intro shape_law.drop_tasks_ok [OF law slot_map_axioms]) (simp only: tasks_own_weak_refs add_0)
  from reg_weak_drop_ok [OF this] show ?thesis
    using False take data by (simp add: rc_registry_drop_def strong_count_def Let_def)
qed

lemma n_outgoing_inv:
  assumes law: "shape_law I" and ok: "world_inv I ops w S W R V" and live: "alive (mem w) a"
  shows "world_inv I ops (snd (n_outgoing ops a w)) S W R V"
proof -
  obtain edges h where out: "all_outgoing a (mem w) = (edges, h)" by fastforce
  have "world_inv I ops (drop_tasks ops (map (\<lambda>e. DropRelRc (e_target e)) edges) (w\<lparr>mem := h\<rparr>)) S W R V"
    using shape_law.all_outgoing_ok [OF law ok live out]
    by (intro shape_law.drop_tasks_ok [OF law slot_map_axioms]) (simp only: tasks_own_strong_refs add_0)
  with out show ?thesis by (simp add: n_outgoing_def)
qed

lemmas rc_registry_drop_ok = rc_registry_drop_inv [OF tidy.shape_law_axioms]
lemmas n_outgoing_ok = n_outgoing_inv [OF tidy.shape_law_axioms]

lemma registry_get_ok:
  assumes ok: "world_inv I ops w S W R V" and Rg: "deref (regs w) r = Some Rg"
    and get: "registry_get ops k Rg (mem w) = (x, h)"
  shows "world_inv I ops (w\<lparr>mem := h\<rparr>) (opt_mset x + S) W R V"
proof (cases x)
  case None
  with registry_get_effect(2) [OF world_registry_ok [OF ok Rg], of k "mem w"] get ok show ?thesis by simp
next
  case (Some a)
  with registry_get_effect [OF world_registry_ok [OF ok Rg], of k "mem w"] get
  have "alive (mem w) a" "h = rc_clone a (mem w)" by (auto split: option.splits if_splits)
  with clone_ok [OF ok] Some show ?thesis by simp
qed

lemma add_node_roundtrip:
  assumes ok: "registry_ok ops R" and a: "alive h a" and add: "add_node ops a R h = (k, R', h')"
  shows "get_id a R' = Some k" "fst (registry_get ops k R' h') = Some a"
    and "b \<noteq> a \<Longrightarrow> get_id b R' = get_id b R" "add_node ops a R' h'' = (k, R', h'')"
    and "fst (registry_get ops j R h) = Some b \<Longrightarrow> fst (registry_get ops j R' h') = Some b"
proof -
  have 1: "get_id a R' = Some k \<and> registry_ok ops R' \<and> alive h' a \<and> (b \<noteq> a \<longrightarrow> get_id b R' = get_id b R) \<and>
      (vals (reg_nodes R) j = Some b \<longrightarrow> alive h b \<longrightarrow> vals (reg_nodes R') j = Some b \<and> alive h' b)" for b j
  proof (cases "get_id a R")
    case None
    note new = add_node_new [OF ok add None]
    show ?thesis using new a by (auto simp: get_id_def as_ptr_def heap_simps)
  next
    case (Some k')
    with add_node_existing [OF Some, of h] add ok a show ?thesis by auto
  qed
  then show id: "get_id a R' = Some k" and "b \<noteq> a \<Longrightarrow> get_id b R' = get_id b R" by simp_all
  show "add_node ops a R' h'' = (k, R', h'')" by (rule add_node_existing [OF id])
  have "vals (reg_nodes R') k = Some a"
    using id registry_okD(2) [of ops R' a k] 1 by (simp add: get_id_def as_ptr_def)
  then show "fst (registry_get ops k R' h') = Some a" using 1 by (simp add: registry_get_effect(1))
  show "fst (registry_get ops j R h) = Some b \<Longrightarrow> fst (registry_get ops j R' h') = Some b"
    using 1 [of b j] ok by (auto simp: registry_get_effect(1) split: option.splits if_splits)
qed

lemma registry_remove_get:
  assumes ok: "registry_ok ops R" and rm: "registry_remove ops k R h = (R', h')"
  shows "fst (registry_get ops j R' h') = (if j = k then None else fst (registry_get ops j R h))"
    and "get_id a R' = (if get_id a R = Some k then None else get_id a R)"
  using registry_remove_spec [OF ok rm]
  by (auto simp: registry_get_effect(1) ok get_id_def heap_simps split: option.splits)

lemma free_node_ids_lookup:
  assumes ok: "registry_ok ops R" and free: "free_node_ids ops R h = (n, R', h')"
  shows "registry_ok ops R' \<and>
    slotmap_get ops k (reg_nodes R') =
      (case slotmap_get ops k (reg_nodes R) of Some a \<Rightarrow> if alive h a then Some a else None | None \<Rightarrow> None) \<and>
    get_id a R' = (if alive h a then get_id a R else None) \<and>
    n = card {k. \<exists>a. slotmap_get ops k (reg_nodes R) = Some a \<and> alive h a}"
proof -
  note spec = free_node_ids_spec [OF assms]
  have vals': "vals (reg_nodes R') k = (case vals (reg_nodes R) k of Some a \<Rightarrow> if alive h a then Some a else None | None \<Rightarrow> None)" for k
    by (rule option_eqI) (auto simp: spec(2) split: option.splits)
  have "get_id a R' = (if alive h a then get_id a R else None)"
    by (rule option_eqI) (simp add: get_id_def as_ptr_def registry_okD(2) [OF spec(1)] registry_okD(2) [OF ok] spec(2))
  with spec(1,3) vals' show ?thesis
    by (simp add: slotmap_get_ok [OF registry_okD(1)] ok)
qed

end

end
