(* ===== verification/Liveness.thy ===== *)
theory Liveness
  imports Node_Correct
begin

section \<open>What stays alive\<close>

text \<open>
  The promise of the README: a node stays alive for as long as there are references to it or to
  one of its descendants, and no longer. It follows from the invariant because the graph is
  finite and acyclic.
\<close>

abbreviation parents :: "('n, 'e) node_heap \<Rightarrow> (addr \<times> addr) set" where
  "parents h \<equiv> parent_rel (shape h)"

lemma parents_iff:
  "(p, c) \<in> parents h \<longleftrightarrow> (\<exists>d. deref h c = Some d \<and> p \<in> source ` set (incoming d))"
  by (cases "deref h c") (auto simp: parent_rel_def shape_def)

lemma parents_all_parents: "(p, c) \<in> parents h \<longleftrightarrow> p \<in> set (all_parents c h)"
  by (cases "deref h c") (auto simp: parents_iff all_parents_def all_incoming_def)

lemma parents_src_refs: "(\<exists>c. (p, c) \<in> parents h) \<longleftrightarrow> p \<in># refs src_refs h"
  by (auto simp: parents_iff in_refs_iff src_refs_def)

lemma alive_refs:
  "world_inv I ops w S W R V \<Longrightarrow> alive (mem w) a \<longleftrightarrow> a \<in># S \<or> (\<exists>c. (a, c) \<in> parents (mem w))"
  by (auto simp: world_inv_def strong_ok_def parents_src_refs)

lemma finite_parents: "world_inv I ops w S W R V \<Longrightarrow> finite (parents (mem w))"
proof -
  assume ok: "world_inv I ops w S W R V"
  have "parents (mem w) \<subseteq> {..<length (mem w)} \<times> {..<length (mem w)}"
  proof
    fix pc assume "pc \<in> parents (mem w)"
    moreover obtain p c where pc: "pc = (p, c)" by fastforce
    ultimately obtain d where "deref (mem w) c = Some d" and "(p, c) \<in> parents (mem w)"
      by (auto simp: parents_iff)
    then have "c < length (mem w)" "alive (mem w) p" using alive_refs [OF ok] by (auto dest: in_range_deref)
    then show "pc \<in> {..<length (mem w)} \<times> {..<length (mem w)}" using in_range_strong pc by auto
  qed
  then show ?thesis by (rule finite_subset) simp
qed

lemma parent_alive:
  assumes "world_inv I ops w S W R V" "(p, c) \<in> (parents (mem w))\<^sup>*" "alive (mem w) c"
  shows "alive (mem w) p"
  using assms(2,3) by (induction rule: converse_rtrancl_induct) (use alive_refs [OF assms(1)] in blast)+

context shape_law
begin

lemma wf_children: "world_inv I ops w S W R V \<Longrightarrow> wf ((parents (mem w))\<inverse>)"
  by (intro finite_acyclic_wf_converse finite_parents no_cycle world_okD(7))

lemma wf_parents: "world_inv I ops w S W R V \<Longrightarrow> wf (parents (mem w))"
  by (intro finite_acyclic_wf finite_parents no_cycle world_okD(7))

lemma alive_has_root:
  assumes ok: "world_inv I ops w S W R V"
  shows "alive (mem w) a \<Longrightarrow> \<exists>d\<in>#S. (a, d) \<in> (parents (mem w))\<^sup>*"
proof (induction a rule: wf_induct_rule [OF wf_children [OF ok]])
  case (1 a)
  from "1.prems" alive_refs [OF ok] consider "a \<in># S" | c where "(a, c) \<in> parents (mem w)" by auto
  then show ?case
  proof cases
    case 2
    then obtain d where "deref (mem w) c = Some d" by (auto simp: parents_iff)
    then have "alive (mem w) c" using world_okD(5) [OF ok] alive_iff_deref by blast
    with "1.IH" [of c] 2 show ?thesis by (auto intro: converse_rtrancl_into_rtrancl)
  qed auto
qed

lemma alive_iff_descendant:
  assumes ok: "world_inv I ops w S W R V"
  shows "alive (mem w) a \<longleftrightarrow> (\<exists>d\<in>#S. (a, d) \<in> (parents (mem w))\<^sup>*)"
  using alive_has_root [OF ok] parent_alive [OF ok] owned_strong [OF ok] by blast

lemma nothing_alive: "world_inv I ops w {#} W R V \<Longrightarrow> deref (mem w) a = None \<and> strong (box (mem w) a) = 0"
  using alive_iff_descendant [of ops w "{#}" W R V a] alive_iff_deref [OF world_okD(5), of I ops w "{#}" W R V a]
  by auto

end

lemma no_refs_when_dead: "(\<And>a. deref h a = None) \<Longrightarrow> refs g h = {#}"
  using in_refs_iff [of _ g h] by (metis multiset_nonemptyE option.distinct(1))

context shape_law
begin

lemma all_freed:
  assumes ok: "world_inv I ops w {#} {#} {#} {#}"
  shows "weak (box (mem w) a) = 0" "weak (box (regs w) r) = 0"
proof -
  have mem: "deref (mem w) x = None" for x using nothing_alive [OF ok] by blast
  have regs: "deref (regs w) x = None" for x
    using world_okD(3,6) [OF ok] by (auto simp: reg_strong_ok_def live_ok_def)
  show "weak (box (mem w) a) = 0" "weak (box (regs w) r) = 0"
    using world_okD(2,4) [OF ok] mem regs
    by (simp_all add: weak_ok_def reg_weak_ok_def no_refs_when_dead)
qed

lemma all_cells_free:
  assumes ok: "world_inv I ops w {#} {#} {#} {#}"
  shows "(\<forall>b\<in>set (mem w). weak b = 0) \<and> (\<forall>b\<in>set (regs w). weak b = 0)"
proof -
  have "\<forall>b\<in>set h. weak b = 0" if "\<And>x. weak (box h x) = 0" for h :: "'z heap"
    unfolding all_set_conv_all_nth using that by (force simp: box_def split: if_splits)
  from this [of "mem w"] this [of "regs w"] show ?thesis by (simp add: all_freed [OF ok])
qed

end

lemma outgoing_iff_parent_at:
  assumes "world_ok ops w S W R V" "deref (mem w) p \<noteq> None" "deref (mem w) c \<noteq> None"
  shows "WeakEdge_new i c \<in> set (all_outgoing_weak_ref p (mem w)) \<longleftrightarrow> parent_at c i (mem w) = Some p"
proof -
  from assms(2,3) obtain d d' where d: "deref (mem w) p = Some d" "deref (mem w) c = Some d'" by auto
  then have "shape (mem w) p = Some (incoming d, outgoing d)" "shape (mem w) c = Some (incoming d', outgoing d')"
    by (simp_all add: shape_def)
  from shape_inv_outgoing [OF world_okD(7) [OF assms(1)] this] d show ?thesis
    by (simp add: all_outgoing_weak_ref_def parent_at_def incoming_at_def n_incoming_def all_incoming_def)
qed

lemma all_incoming_target:
  "world_ok ops w S W R V \<Longrightarrow> e \<in> set (all_incoming a (mem w)) \<Longrightarrow> target e = a \<and> alive (mem w) a"
  using shape_inv_targets [OF world_ok_shape, of ops w S W R V a] alive_iff_deref [OF world_okD(5), of shape_inv ops w S W R V a]
  by (auto simp: all_incoming_def shape_def split: option.splits)

lemma all_outgoing_incoming: "all_incoming x (snd (all_outgoing a h)) = all_incoming x h"
proof -
  obtain kept es h1 where r: "retain_outgoing (all_outgoing_weak_ref a h) h = (kept, es, h1)" by (metis prod_cases3)
  then show ?thesis using retain_outgoing_spec(4) [OF r, of x]
    by (cases "deref h x") (auto simp: all_outgoing_def all_incoming_def deref_set_payload)
qed

lemma strong_edge_iff: "e = strong_edge x \<longleftrightarrow> x = WeakEdge_new (e_index e) (e_target e)"
  by (cases x, cases e) (auto simp: strong_edge_def WeakEdge_new_def)

lemma weak_strong_edge: "WeakEdge_new (e_index (strong_edge x)) (e_target (strong_edge x)) = x"
  using strong_edge_iff by metis

lemma strong_edge_inj: "inj strong_edge"
  by (rule injI) (simp add: strong_edge_def)

lemma all_outgoing_exact:
  assumes ok: "world_ok ops w S W R V" and a: "alive (mem w) a" and out: "all_outgoing a (mem w) = (edges, h')"
  shows "set edges = {e. parent_at (e_target e) (e_index e) (mem w) = Some a}"
    and "distinct edges"
    and "deref h' x = map_option (\<lambda>d. if x = a then d\<lparr>outgoing := live_edges (mem w) (outgoing d)\<rparr> else d) (deref (mem w) x)"
proof -
  from a obtain d where d: "deref (mem w) a = Some d" using alive_iff_deref [OF world_okD(5) [OF ok]] by auto
  have edges: "edges = map strong_edge (live_edges (mem w) (outgoing d))"
    using all_outgoing_edges [of a "mem w"] out d by (simp add: all_outgoing_weak_ref_def)
  have "distinct (outgoing d)"
    using shape_inv_distinct [OF world_okD(7) [OF ok], of a "incoming d" "outgoing d"] d by (simp add: shape_def)
  then show "distinct edges"
    unfolding edges distinct_map using inj_on_subset [OF strong_edge_inj] by auto
  have parent: "deref (mem w) c \<noteq> None" if "parent_at c i (mem w) = Some a" for c i
    using that by (auto simp: parent_at_def incoming_at_def n_incoming_def all_incoming_def split: option.splits if_splits)
  have "e \<in> set edges \<longleftrightarrow> WeakEdge_new (e_index e) (e_target e) \<in> set (live_edges (mem w) (outgoing d))" for e
    unfolding edges set_map image_iff strong_edge_iff by blast
  also have "\<dots> e \<longleftrightarrow> parent_at (e_target e) (e_index e) (mem w) = Some a" for e
    using outgoing_iff_parent_at [OF ok, of a "e_target e" "e_index e"] parent d
      alive_iff_deref [OF world_okD(5) [OF ok], of "e_target e"]
    by (auto simp: all_outgoing_weak_ref_def)
  finally show "set edges = {e. parent_at (e_target e) (e_index e) (mem w) = Some a}" by blast
  obtain kept es h1 where r: "retain_outgoing (outgoing d) (mem w) = (kept, es, h1)" by (metis prod_cases3)
  have "h' = set_payload a (\<lambda>d. d\<lparr>outgoing := kept\<rparr>) h1"
    using out d r by (simp add: all_outgoing_def all_outgoing_weak_ref_def)
  then show "deref h' x = map_option (\<lambda>d. if x = a then d\<lparr>outgoing := live_edges (mem w) (outgoing d)\<rparr> else d) (deref (mem w) x)"
    using retain_outgoing_spec(1,4) [OF r] d by (cases "deref (mem w) x") (auto simp: deref_set_payload)
qed

text \<open>With copied nodes, the edges that \<open>all_outgoing\<close> returns still have an index in range.\<close>

lemma edge_deref_outgoing_core:
  assumes ok: "world_core ops w S W R V" and a: "deref (mem w) a \<noteq> None" and out: "all_outgoing a (mem w) = (edges, h')"
    and e: "e \<in> set edges"
  shows "\<exists>d. edge_deref e h' = Inr d"
proof -
  from a obtain d where d: "deref (mem w) a = Some d" by auto
  have edges: "edges = map strong_edge (live_edges (mem w) (outgoing d))"
    using all_outgoing_edges [of a "mem w"] out d by (simp add: all_outgoing_weak_ref_def)
  with e obtain x where x: "x \<in> set (outgoing d)" "alive (mem w) (we_target x)" "e = strong_edge x" by auto
  then obtain d' where d': "deref (mem w) (we_target x) = Some d'" using alive_iff_deref [OF world_okD(5) [OF ok]] by auto
  have "valid_weak (shape (mem w)) x"
    using shape_coreD(3) [OF world_okD(7) [OF ok], of a "incoming d" "outgoing d"] d x(1) by (simp add: shape_def)
  with d' have "we_index x < length (incoming d')" by (simp add: valid_weak_def shape_def)
  moreover have "all_incoming (we_target x) h' = incoming d'"
    using all_outgoing_incoming [of "we_target x" a "mem w"] out d' by (simp add: all_incoming_def)
  ultimately show ?thesis using x(3) by (simp add: edge_deref_def incoming_at_def n_incoming_def strong_edge_def)
qed

lemma edge_deref_all_outgoing:
  assumes ok: "world_ok ops w S W R V" and a: "alive (mem w) a" and out: "all_outgoing a (mem w) = (edges, h')"
    and e: "e \<in> set edges"
  shows "\<exists>d. edge_deref e h' = Inr d \<and> source d = a \<and> target d = e_target e"
proof -
  have p: "parent_at (e_target e) (e_index e) (mem w) = Some a" using all_outgoing_exact(1) [OF ok a out] e by blast
  have "all_incoming x h' = all_incoming x (mem w)" for x
    using all_outgoing_exact(3) [OF ok a out, of x] by (auto simp: all_incoming_def split: option.splits)
  then have "incoming_at x i h' = incoming_at x i (mem w)" for x i by (simp add: incoming_at_def n_incoming_def)
  with p obtain d where d: "incoming_at (e_target e) (e_index e) h' = Some d" "source d = a" "d \<in> set (all_incoming (e_target e) (mem w))"
    by (auto simp: parent_at_def incoming_at_def n_incoming_def split: if_splits)
  moreover have "target d = e_target e"
    using all_incoming_target [OF ok d(3)] by simp
  ultimately show ?thesis by (simp add: edge_deref_def)
qed

end
