(* ===== verification/Drop_Effect.thy ===== *)
theory Drop_Effect
  imports Registry_Correct Liveness
begin

section \<open>What a drop changes\<close>

text \<open>
  A drop never changes a node that survives it; it never adds a registry entry, keeps the entry
  of every survivor, and leaves no entry for a node that it killed in the registry that the node
  was registered in. The relation \<open>drop_effect\<close> says so, and is transitive.
\<close>

definition reg_entry :: "('n, 'e, 'k, 's) world \<Rightarrow> addr \<Rightarrow> 'k \<Rightarrow> addr \<Rightarrow> bool" where
  "reg_entry w r k a \<longleftrightarrow> (\<exists>R. deref (regs w) r = Some R \<and> vals (reg_nodes R) k = Some a)"

definition drop_effect :: "('n, 'e, 'k, 's) world \<Rightarrow> ('n, 'e, 'k, 's) world \<Rightarrow> bool" where
  "drop_effect w w' \<longleftrightarrow>
     (\<forall>a d. deref (mem w') a = Some d \<longrightarrow> deref (mem w) a = Some d) \<and>
     (\<forall>r. deref (regs w') r = None \<longleftrightarrow> deref (regs w) r = None) \<and>
     (\<forall>r k a. reg_entry w' r k a \<longrightarrow> reg_entry w r k a) \<and>
     (\<forall>r k a. reg_entry w r k a \<longrightarrow> deref (mem w') a \<noteq> None \<longrightarrow> reg_entry w' r k a) \<and>
     (\<forall>r k a. node_registry a (mem w) = Some r \<longrightarrow> deref (mem w') a = None \<longrightarrow> \<not> reg_entry w' r k a)"

lemma drop_effectD:
  assumes "drop_effect w w'"
  shows "deref (mem w') a = Some d \<Longrightarrow> deref (mem w) a = Some d"
    and "deref (regs w') r = None \<longleftrightarrow> deref (regs w) r = None"
    and "reg_entry w' r k a \<Longrightarrow> reg_entry w r k a"
    and "reg_entry w r k a \<Longrightarrow> deref (mem w') a \<noteq> None \<Longrightarrow> reg_entry w' r k a"
    and "node_registry a (mem w) = Some r \<Longrightarrow> deref (mem w') a = None \<Longrightarrow> \<not> reg_entry w' r k a"
  using assms unfolding drop_effect_def by blast+

lemma drop_effect_refl_counts:
  assumes "\<And>a. deref h a = deref (mem w) a" "\<And>r. deref g r = deref (regs w) r"
  shows "drop_effect w (w\<lparr>mem := h, regs := g\<rparr>)"
  using assms by (auto simp: drop_effect_def reg_entry_def node_registry_def)

lemma drop_effect_refl [simp]: "drop_effect w w"
  by (auto simp: drop_effect_def node_registry_def)

lemma drop_effect_trans:
  assumes 1: "drop_effect w w1" and 2: "drop_effect w1 w2"
  shows "drop_effect w w2"
  unfolding drop_effect_def
proof (intro conjI allI impI notI)
  fix r k a assume "reg_entry w r k a" "deref (mem w2) a \<noteq> None"
  then show "reg_entry w2 r k a"
    using drop_effectD(1) [OF 2] drop_effectD(4) [OF 1] drop_effectD(4) [OF 2] by (metis option.exhaust option.distinct(1))
next
  fix r k a assume reg: "node_registry a (mem w) = Some r" and dead: "deref (mem w2) a = None" and e: "reg_entry w2 r k a"
  show False
  proof (cases "deref (mem w1) a")
    case None
    with drop_effectD(5) [OF 1 reg] drop_effectD(3) [OF 2 e] show False by blast
  next
    case (Some d)
    with drop_effectD(1) [OF 1] reg have "node_registry a (mem w1) = Some r" by (simp add: node_registry_def)
    with drop_effectD(5) [OF 2 _ dead] e show False by blast
  qed
qed (use drop_effectD(1-3) [OF 1] drop_effectD(1-3) [OF 2] in blast)+

text \<open>Unregistering a node and then taking its data away.\<close>

lemma forget_node_deref: "deref (snd (snd (forget_node ops a R h))) x = deref h x"
  by (auto simp: forget_node_def registry_remove_def heap_simps split: prod.splits option.splits)

lemma unregister_deref:
  "deref (mem (unregister ops a w)) x =
     (if x = a then map_option (\<lambda>d. d\<lparr>registry := None\<rparr>) (deref (mem w) a) else deref (mem w) x)"
proof (cases "node_registry a (mem w)")
  case None
  then have "map_option (\<lambda>d. d\<lparr>registry := None\<rparr>) (deref (mem w) a) = deref (mem w) a"
    by (cases "deref (mem w) a") (simp_all add: node_registry_def)
  with None show ?thesis by (simp add: unregister_def)
next
  case (Some r)
  then show ?thesis
    by (simp add: unregister_def Let_def weak_upgrade_def with_registry_mut_mem deref_set_payload
        forget_node_deref split: option.splits)
qed

lemma unregister_regs:
  "deref (regs (unregister ops a w)) x =
     (if node_registry a (mem w) = Some x \<and> alive (regs w) x
      then map_option (\<lambda>R. fst (snd (forget_node ops a R (set_payload a (\<lambda>d. d\<lparr>registry := None\<rparr>) (mem w)))))
             (deref (regs w) x)
      else deref (regs w) x)"
  by (auto simp: unregister_def Let_def weak_upgrade_def strong_count_def with_registry_mut_regs heap_simps
      split: option.splits)

context slot_map
begin

lemma forget_node_vals:
  assumes "registry_ok ops R"
  shows "vals (reg_nodes (fst (snd (forget_node ops a R h)))) k = Some x \<longleftrightarrow>
    vals (reg_nodes R) k = Some x \<and> x \<noteq> a"
proof (cases "get_id a R")
  case None
  then have "vals (reg_nodes R) k \<noteq> Some a"
    using registry_okD(2) [OF assms, of a k] by (simp add: get_id_def as_ptr_def)
  with None show ?thesis by (auto simp: forget_node_def)
next
  case (Some j)
  obtain R' h' where rm: "registry_remove ops j R h = (R', h')" by fastforce
  have "vals (reg_nodes R) k = Some a \<longleftrightarrow> k = j"
    using registry_okD(2) [OF assms, of a k] Some by (auto simp: get_id_def as_ptr_def)
  with Some rm registry_remove_spec(4) [OF assms rm] show ?thesis by (auto simp: forget_node_def)
qed

lemma unregister_entry:
  assumes ok: "world_inv I ops w S W R V"
  shows "reg_entry (unregister ops a w) r k x \<longleftrightarrow>
    reg_entry w r k x \<and> \<not> (node_registry a (mem w) = Some r \<and> x = a)"
proof (cases "deref (regs w) r")
  case None
  then show ?thesis by (simp add: reg_entry_def unregister_regs)
next
  case (Some Rg)
  then have "alive (regs w) r" using world_okD(6) [OF ok] alive_iff_deref by blast
  with Some forget_node_vals [OF world_registry_ok [OF ok Some]] show ?thesis
    by (auto simp: reg_entry_def unregister_regs)
qed

lemma take_effect:
  assumes ok: "world_inv I ops w S W R V" and take: "rc_take a (mem (unregister ops a w)) = (data, h)"
  shows "drop_effect w ((unregister ops a w)\<lparr>mem := h\<rparr>)"
proof -
  have "h = upd a (\<lambda>b. b\<lparr>strong := strong b - 1, payload := None\<rparr>) (mem (unregister ops a w))"
    using take by (simp add: rc_take_def)
  then have h: "deref h x = (if x = a then None else deref (mem w) x)" for x
    using unregister_deref [of ops a w a]
    by (cases "a < length (mem (unregister ops a w))") (simp_all add: box_upd unregister_deref)
  have entry: "reg_entry ((unregister ops a w)\<lparr>mem := h\<rparr>) r k x \<longleftrightarrow> reg_entry (unregister ops a w) r k x" for r k x
    by (simp add: reg_entry_def)
  have "deref (mem w) x = None \<Longrightarrow> node_registry x (mem w) = None" for x
    by (simp add: node_registry_def)
  then show ?thesis
    unfolding drop_effect_def entry unregister_entry [OF ok]
    by (auto simp: h unregister_regs split: if_splits)
qed

end

context shape_law
begin

lemma drop_tasks_effect:
  "slot_map ops \<Longrightarrow>
   world_inv I ops w (tasks_own task_strong ts + S) (tasks_own task_weak ts + W) R (tasks_own task_wreg ts + V) \<Longrightarrow>
   drop_effect w (drop_tasks ops ts w)"
proof (induction ops ts w rule: drop_tasks.induct)
  case (1 ops w)
  then show ?case by simp
next
  case (2 ops a ts w)
  have "drop_effect w (w\<lparr>mem := weak_drop a (mem w)\<rparr>)"
    using drop_effect_refl_counts [of "weak_drop a (mem w)" w "regs w"] by (simp add: heap_simps)
  with 2 show ?case by (auto intro: drop_effect_trans weak_drop_ok)
next
  case (3 ops r ts w)
  have "drop_effect w (w\<lparr>regs := weak_drop r (regs w)\<rparr>)"
    using drop_effect_refl_counts [of "mem w" w "weak_drop r (regs w)"] by (simp add: heap_simps)
  with 3 show ?case by (auto intro: drop_effect_trans reg_weak_drop_ok)
next
  case (4 ops a ts w)
  let ?S = "tasks_own task_strong ts + S" and ?W = "tasks_own task_weak ts + W"
    and ?V = "tasks_own task_wreg ts + V"
  have ok: "world_inv I ops w (add_mset a ?S) ?W R ?V" using "4.prems" by simp
  then have pos: "0 < strong (box (mem w) a)" by (rule owned_strong) simp
  show ?case
  proof (cases "1 < strong (box (mem w) a)")
    case True
    have "drop_effect w (w\<lparr>mem := rc_release a (mem w)\<rparr>)"
      using drop_effect_refl_counts [of "rc_release a (mem w)" w "regs w"] by (simp add: heap_simps)
    with "4.IH"(2) "4.prems"(1) pos True release_ok [OF ok True] show ?thesis
      by (auto simp: strong_count_def intro: drop_effect_trans)
  next
    case False
    with pos have one: "strong (box (mem (unregister ops a w)) a) = 1"
      by (simp add: unregister_strong)
    obtain data h where take: "rc_take a (mem (unregister ops a w)) = (data, h)" by fastforce
    let ?w = "(unregister ops a w)\<lparr>mem := h\<rparr>"
    from take_ok [OF slot_map.unregister_ok [OF "4.prems"(1) ok, of a] one take]
    obtain d where d: "data = Some d" and "world_inv I ops ?w
        (src_refs d + ?S) (add_mset a (wk_refs d + ?W)) R (reg_ref d + ?V)"
      by blast
    then have "world_inv I ops ?w
        (tasks_own task_strong (field_drops a d @ ts) + S) (tasks_own task_weak (field_drops a d @ ts) + W) R
        (tasks_own task_wreg (field_drops a d @ ts) + V)"
      by (simp add: field_drops_own add.assoc)
    with "4.IH"(3) [OF _ _ refl take [symmetric] refl "4.prems"(1)] d pos False
    have "drop_effect ?w (drop_tasks ops (field_drops a d @ ts) ?w)" by (simp add: strong_count_def)
    with slot_map.take_effect [OF "4.prems"(1) ok take] take d pos False show ?thesis
      by (auto simp: strong_count_def intro: drop_effect_trans)
  qed
qed

lemma relrc_drop_effect:
  "slot_map ops \<Longrightarrow> world_inv I ops w (add_mset a S) W R V \<Longrightarrow> drop_effect w (relrc_drop ops a w)"
  unfolding relrc_drop_def by (rule drop_tasks_effect [of ops w _ S W R V]) simp_all

end

subsection \<open>The effect of registering a node\<close>

lemma try_set_register_cases:
  assumes "try_set_register a r w = (b, w1)"
  shows "b \<longleftrightarrow> node_registry a (mem w) \<in> {None, Some r}"
    and "deref (regs w1) x = deref (regs w) x"
    and "\<not> b \<Longrightarrow> mem w1 = mem w"
    and "b \<Longrightarrow> deref (mem w) a \<noteq> None \<Longrightarrow> node_registry a (mem w1) = Some r"
    and "x \<noteq> a \<Longrightarrow> deref (mem w1) x = deref (mem w) x"
  using assms
  by (cases "node_registry a (mem w)", auto simp: try_set_register_def Let_def heap_simps node_registry_def
      split: option.splits)

lemma try_register_in_fails:
  assumes "node_registry a (mem w) = Some r'" "r' \<noteq> r" "try_register_in ops a r w = (x, w')"
  shows "x = None \<and> mem w' = mem w \<and> (\<forall>y. deref (regs w') y = deref (regs w) y)"
proof -
  obtain b w1 where 1: "try_set_register a r w = (b, w1)" by fastforce
  with try_set_register_cases(1) [OF 1] assms(1,2) have "\<not> b" by simp
  with try_set_register_cases(2,3) [OF 1] 1 assms(3) show ?thesis by (simp add: try_register_in_def)
qed

context slot_map
begin

lemma add_node_vals:
  assumes "registry_ok ops R" "add_node ops a R h = (k, R', h')"
  shows "vals (reg_nodes R') k = Some a" "b \<noteq> a \<Longrightarrow> vals (reg_nodes R') j = Some b \<longleftrightarrow> vals (reg_nodes R) j = Some b"
    and "deref h' x = deref h x" "vals (reg_nodes R) j = Some a \<Longrightarrow> k = j"
proof -
  show "k = j" if "vals (reg_nodes R) j = Some a"
  proof -
    have "get_id a R = Some j" using that registry_okD(2) [OF assms(1)] by (simp add: get_id_def as_ptr_def)
    from add_node_existing [OF this, of h] assms(2) show ?thesis by simp
  qed
  have "vals (reg_nodes R') k = Some a \<and> (b \<noteq> a \<longrightarrow> (vals (reg_nodes R') j = Some b \<longleftrightarrow> vals (reg_nodes R) j = Some b)) \<and>
      deref h' x = deref h x"
  proof (cases "get_id a R")
    case None
    note new = add_node_new [OF assms None]
    then show ?thesis by (auto simp: heap_simps)
  next
    case (Some k')
    with add_node_existing [OF Some, of h] assms(2) registry_okD(2) [OF assms(1), of a k] show ?thesis
      by (simp add: get_id_def as_ptr_def)
  qed
  then show "vals (reg_nodes R') k = Some a" "b \<noteq> a \<Longrightarrow> vals (reg_nodes R') j = Some b \<longleftrightarrow> vals (reg_nodes R) j = Some b"
    "deref h' x = deref h x" by simp_all
qed

lemma try_register_in_succeeds:
  assumes ok: "world_inv I ops w S W Rs V" and a: "deref (mem w) a \<noteq> None" and r: "deref (regs w) r = Some Rg"
    and reg: "node_registry a (mem w) \<in> {None, Some r}" and res: "try_register_in ops a r w = (x, w')"
  shows "\<exists>k. x = Some k \<and> reg_entry w' r k a \<and> node_registry a (mem w') = Some r \<and>
    (\<forall>y j b. b \<noteq> a \<longrightarrow> (reg_entry w' y j b \<longleftrightarrow> reg_entry w y j b)) \<and>
    (\<forall>b. b \<noteq> a \<longrightarrow> node_registry b (mem w') = node_registry b (mem w)) \<and> deref (regs w') r \<noteq> None \<and>
    (\<forall>j. reg_entry w r j a \<longrightarrow> k = j)"
proof -
  obtain b w1 where 1: "try_set_register a r w = (b, w1)" by fastforce
  have b: b using try_set_register_cases(1) [OF 1] reg by simp
  have r1: "deref (regs w1) y = deref (regs w) y" for y using try_set_register_cases(2) [OF 1] .
  obtain k Rg' h' where add: "add_node ops a Rg (mem w1) = (k, Rg', h')" by (metis prod_cases3)
  have w': "x = Some k" "w' = w1\<lparr>mem := h', regs := set_payload r (\<lambda>_. Rg') (regs w1)\<rparr>"
    using res 1 b r add by (auto simp: try_register_in_def with_registry_mut_def r1)
  note vals = add_node_vals [OF world_registry_ok [OF ok r] add]
  have "node_registry a (mem w') = Some r"
    using try_set_register_cases(4) [OF 1 b a] vals(3) by (simp add: w' node_registry_def)
  moreover have "node_registry b (mem w') = node_registry b (mem w)" if "b \<noteq> a" for b
    using try_set_register_cases(5) [OF 1 that] vals(3) by (simp add: w' node_registry_def)
  ultimately show ?thesis using vals r by (auto simp: w' reg_entry_def heap_simps r1)
qed

end

end
