(* ===== verification/Handles.thy ===== *)
theory Handles
  imports Registry_Correct Liveness
begin

section \<open>Duplicating and dropping groups of handles\<close>

text \<open>
  Several operations of the repository duplicate or drop one reference per element of a list:
  the weak edges that \<open>all_incoming_weak\<close> and \<open>all_outgoing_weak\<close> return, the clone and the
  drop of a history graph. The locale \<open>handles\<close> is the interface they rely on: a kind of
  reference that can be duplicated while it is valid and dropped by its owner. It is
  interpreted for the three kinds of reference of the memory model: \<open>RelRc\<close>, \<open>RelWeak\<close> and
  \<open>Rc<RefCell<Registry>>\<close>.
\<close>

locale handles =
  fixes ok :: "'w \<Rightarrow> addr multiset \<Rightarrow> bool"
    and valid :: "'w \<Rightarrow> addr \<Rightarrow> bool"
    and dup :: "addr \<Rightarrow> 'w \<Rightarrow> 'w"
    and discard :: "addr \<Rightarrow> 'w \<Rightarrow> 'w"
  assumes dup_ok: "ok w H \<Longrightarrow> valid w a \<Longrightarrow> ok (dup a w) (add_mset a H)"
    and owned_valid: "ok w H \<Longrightarrow> a \<in># H \<Longrightarrow> valid w a"
    and dup_valid: "valid w b \<Longrightarrow> valid (dup a w) b"
    and discard_ok: "ok w (add_mset a H) \<Longrightarrow> ok (discard a w) H"
begin

lemma dup_all_ok:
  "ok w H \<Longrightarrow> \<forall>a\<in>set xs. valid w a \<Longrightarrow> ok (fold dup xs w) (mset xs + H)"
proof (induction xs arbitrary: w H)
  case (Cons x xs)
  then have "ok (fold dup xs (dup x w)) (mset xs + add_mset x H)"
    by (intro Cons.IH) (auto intro: dup_ok dup_valid)
  then show ?case by simp
qed simp

lemma discard_all_ok: "ok w (mset xs + H) \<Longrightarrow> ok (fold discard xs w) H"
proof (induction xs arbitrary: w)
  case (Cons x xs)
  from Cons.prems have "ok (discard x w) (mset xs + H)" by (intro discard_ok) simp
  then show ?case by (simp add: Cons.IH)
qed simp

text \<open>A group of duplicates can be handed back: the owners are then as before.\<close>

lemma dup_discard_ok:
  assumes "ok w H" "\<forall>a\<in>set xs. valid w a"
  shows "ok (fold discard xs (fold dup xs w)) H"
  by (rule discard_all_ok, rule dup_all_ok) (rule assms)+

end

definition mem_clone :: "addr \<Rightarrow> ('n, 'e, 'k, 's) world \<Rightarrow> ('n, 'e, 'k, 's) world" where
  "mem_clone a w = w\<lparr>mem := rc_clone a (mem w)\<rparr>"

definition mem_weak_clone :: "addr \<Rightarrow> ('n, 'e, 'k, 's) world \<Rightarrow> ('n, 'e, 'k, 's) world" where
  "mem_weak_clone a w = w\<lparr>mem := weak_clone a (mem w)\<rparr>"

definition mem_weak_drop :: "addr \<Rightarrow> ('n, 'e, 'k, 's) world \<Rightarrow> ('n, 'e, 'k, 's) world" where
  "mem_weak_drop a w = w\<lparr>mem := weak_drop a (mem w)\<rparr>"

definition reg_clone :: "addr \<Rightarrow> ('n, 'e, 'k, 's) world \<Rightarrow> ('n, 'e, 'k, 's) world" where
  "reg_clone r w = w\<lparr>regs := rc_clone r (regs w)\<rparr>"

lemma fold_mem_clone: "fold mem_clone xs w = w\<lparr>mem := fold rc_clone xs (mem w)\<rparr>"
  by (induction xs arbitrary: w) (simp_all add: mem_clone_def)

lemma fold_mem_weak_clone: "fold mem_weak_clone xs w = w\<lparr>mem := fold weak_clone xs (mem w)\<rparr>"
  by (induction xs arbitrary: w) (simp_all add: mem_weak_clone_def)

interpretation weak_handles: handles "\<lambda>w W. world_inv I ops w S W R V" "\<lambda>w a. 0 < weak (box (mem w) a)"
  mem_weak_clone mem_weak_drop for I ops S R V
  by unfold_locales
    (simp_all add: mem_weak_clone_def mem_weak_drop_def weak_clone_ok weak_drop_ok owned_weak heap_simps)

sublocale slot_map \<subseteq> strong: handles "\<lambda>w S. world_ok ops w S W R V" "\<lambda>w a. alive (mem w) a"
  mem_clone "relrc_drop ops" for W R V
  by unfold_locales (simp_all add: mem_clone_def clone_ok owned_strong heap_simps relrc_drop_ok slot_map_axioms)

sublocale slot_map \<subseteq> reg: handles "\<lambda>w R. world_ok ops w S W R V" "\<lambda>w r. alive (regs w) r"
  reg_clone "rc_registry_drop ops" for S W V
  by unfold_locales (simp_all add: reg_clone_def reg_clone_ok owned_reg heap_simps rc_registry_drop_ok)

subsection \<open>Weak edges handed out by a node\<close>

lemma alive_weak_count: "world_inv I ops w S W R V \<Longrightarrow> alive (mem w) a \<Longrightarrow> 0 < weak (box (mem w) a)"
  using alive_iff_deref [OF world_okD(5), of I ops w S W R V a] alive_weak by blast

lemma stored_weak_count: "world_inv I ops w S W R V \<Longrightarrow> a \<in># refs wk_refs (mem w) \<Longrightarrow> 0 < weak (box (mem w) a)"
  using world_okD(2) [of I ops w S W R V] by (simp add: weak_ok_def)

lemma incoming_weak_count:
  assumes ok: "world_inv I ops w S W R V" and e: "e \<in> set (all_incoming a (mem w))"
  shows "0 < weak (box (mem w) (target e))"
proof -
  from e obtain d where "deref (mem w) a = Some d" "e \<in> set (incoming d)"
    by (cases "deref (mem w) a") (auto simp: all_incoming_def)
  then have "target e \<in># refs wk_refs (mem w)" by (force simp: in_refs_iff wk_refs_def)
  then show ?thesis by (rule stored_weak_count [OF ok])
qed

lemma all_incoming_weak_edges:
  "map we_target (fst (all_incoming_weak a h)) = map target (all_incoming a h)"
  "snd (all_incoming_weak a h) = fold weak_clone (map target (all_incoming a h)) h"
  by (auto simp: all_incoming_weak_def list_eq_iff_nth_eq nth_enumerate_eq)

lemma all_incoming_weak_ok:
  assumes ok: "world_inv I ops w S W R V" and r: "all_incoming_weak a (mem w) = (es, h)"
  shows "world_inv I ops (w\<lparr>mem := h\<rparr>) S (mset (map we_target es) + W) R V"
proof -
  have "\<forall>t\<in>set (map target (all_incoming a (mem w))). 0 < weak (box (mem w) t)"
    using incoming_weak_count [OF ok] by auto
  from weak_handles.dup_all_ok [OF ok this] all_incoming_weak_edges [of a "mem w"] r show ?thesis
    by (simp add: fold_mem_weak_clone del: map_eq_conv)
qed

lemma outgoing_weak_count:
  assumes ok: "world_inv I ops w S W R V" and e: "e \<in> set (all_outgoing_weak_ref a (mem w))"
  shows "0 < weak (box (mem w) (we_target e))"
proof -
  from e obtain d where d: "deref (mem w) a = Some d" "e \<in> set (outgoing d)"
    by (cases "deref (mem w) a") (auto simp: all_outgoing_weak_ref_def)
  then have "we_target e \<in># refs wk_refs (mem w)" by (force simp: in_refs_iff wk_refs_def)
  then show ?thesis by (rule stored_weak_count [OF ok])
qed

lemma all_outgoing_weak_ok:
  assumes ok: "world_inv I ops w S W R V" and r: "all_outgoing_weak a (mem w) = (es, h)"
  shows "world_inv I ops (w\<lparr>mem := h\<rparr>) S (mset (map we_target es) + W) R V"
proof -
  have "\<forall>t\<in>set (map we_target (all_outgoing_weak_ref a (mem w))). 0 < weak (box (mem w) t)"
    using outgoing_weak_count [OF ok] by auto
  from weak_handles.dup_all_ok [OF ok this] r show ?thesis
    by (auto simp: all_outgoing_weak_def fold_mem_weak_clone)
qed

end
