(* ===== verification/Graph_Spec.thy ===== *)
theory Graph_Spec
  imports Drop_Effect Handles
begin

section \<open>The abstract specification: a garbage-collected graph\<close>

text \<open>
  What a user of \<open>RelRc\<close> is promised, without counts, weak references or registries: an acyclic
  graph of immutable nodes, each with its value and the list of its parents and edge values.
  Creating a node extends the graph; dropping a handle keeps exactly the ancestors of the nodes
  that are still held. \<open>abs_graph\<close> maps a heap to that graph.
\<close>

type_synonym ('n, 'e) graph = "addr \<Rightarrow> ('n \<times> (addr \<times> 'e) list) option"

definition abs_node :: "('n, 'e) InnerData \<Rightarrow> 'n \<times> (addr \<times> 'e) list" where
  "abs_node d = (node_value d, map (\<lambda>e. (source e, edge_value e)) (incoming d))"

definition abs_graph :: "('n, 'e) node_heap \<Rightarrow> ('n, 'e) graph" where
  "abs_graph h = (\<lambda>a. map_option abs_node (deref h a))"

definition graph_parents :: "('n, 'e) graph \<Rightarrow> (addr \<times> addr) set" where
  "graph_parents g = {(p, c). \<exists>v ps. g c = Some (v, ps) \<and> p \<in> fst ` set ps}"

definition ancestors_of :: "addr multiset \<Rightarrow> ('n, 'e) graph \<Rightarrow> addr set" where
  "ancestors_of S g = {a. \<exists>d\<in>#S. (a, d) \<in> (graph_parents g)\<^sup>*}"

definition collect_garbage :: "addr multiset \<Rightarrow> ('n, 'e) graph \<Rightarrow> ('n, 'e) graph" where
  "collect_garbage S g = g |` ancestors_of S g"

inductive graph_step ::
  "('n, 'e) graph \<times> addr multiset \<Rightarrow> ('n, 'e) graph \<times> addr multiset \<Rightarrow> bool" where
  create: "a \<notin> dom g \<Longrightarrow> graph_step (g, mset (map fst ps) + S) (g(a \<mapsto> (v, ps)), add_mset a S)"
| acquire: "a \<in> dom g \<Longrightarrow> graph_step (g, S) (g, add_mset a S)"
| release: "graph_step (g, add_mset a S) (collect_garbage S g, S)"

subsection \<open>The abstraction of each operation\<close>

lemma graph_parents_abs [simp]: "graph_parents (abs_graph h) = parents h"
  by (auto simp: graph_parents_def abs_graph_def abs_node_def parents_iff)
    (metis (no_types, lifting) image_eqI prod.sel(1))

lemma abs_node_updates [simp]:
  "abs_node (d\<lparr>outgoing := os\<rparr>) = abs_node d" "abs_node (d\<lparr>registry := r\<rparr>) = abs_node d"
  by (simp_all add: abs_node_def)

lemma dom_abs_graph: "world_inv I ops w S W R V \<Longrightarrow> a \<in> dom (abs_graph (mem w)) \<longleftrightarrow> alive (mem w) a"
  using alive_iff_deref [OF world_okD(5), of I ops w S W R V a] by (auto simp: abs_graph_def dom_def)

lemma abs_graph_cong:
  "(\<And>a. map_option abs_node (deref h' a) = map_option abs_node (deref h a)) \<Longrightarrow> abs_graph h' = abs_graph h"
  by (simp add: abs_graph_def)

lemma abs_graph_deref: "(\<And>a. deref h' a = deref h a) \<Longrightarrow> abs_graph h' = abs_graph h"
  by (rule abs_graph_cong) simp

lemma abs_graph_counts [simp]:
  "abs_graph (rc_clone a h) = abs_graph h" "abs_graph (weak_clone a h) = abs_graph h"
  "abs_graph (rc_downgrade a h) = abs_graph h" "abs_graph (weak_drop a h) = abs_graph h"
  "abs_graph (rc_release a h) = abs_graph h"
  by (rule abs_graph_deref, simp add: heap_simps)+

lemma abs_graph_set_payload:
  "(\<And>d. abs_node (f d) = abs_node d) \<Longrightarrow> abs_graph (set_payload a f h) = abs_graph h"
  by (rule abs_graph_cong) (simp add: heap_simps option.map_comp comp_def)

lemma abs_graph_fold [simp]:
  "abs_graph (fold weak_clone xs h) = abs_graph h" "abs_graph (fold rc_clone xs h) = abs_graph h"
  by (induction xs arbitrary: h) simp_all

lemma abs_with_parents:
  assumes al: "alloc_ok al" and ok: "world_inv I ops w (mset (map fst ps) + S) W R V"
    and new: "with_parents al v ps (mem w) = (a, h')"
  shows "abs_graph h' = (abs_graph (mem w))(a \<mapsto> (v, ps))" "a \<notin> dom (abs_graph (mem w))"
proof -
  let ?a = "al (occupied (mem w))"
  note fresh = fresh_cell [OF ok allocator_free(2) [OF al, of "mem w"]]
  have par: "\<forall>p\<in>set (map fst ps). p \<noteq> ?a \<and> deref (mem w) p \<noteq> None"
    using fresh(3) owned_strong [OF ok] alive_iff_deref [OF world_okD(5) [OF ok]] by fastforce
  note heap = with_parents_heap [OF al new par fresh(1)]
  have "deref h' x = (if x = a then Some (InnerData_with_incoming v (new_edges a ps))
      else map_option (\<lambda>d. d\<lparr>outgoing := outgoing d @ new_outgoing a (map fst ps) x\<rparr>) (deref (mem w) x))" for x
    by (simp add: heap(2))
  moreover have "abs_node (InnerData_with_incoming v (new_edges a ps)) = (v, ps)"
    by (simp add: abs_node_def InnerData_with_incoming_def new_edges_def case_prod_unfold comp_def)
  ultimately show "abs_graph h' = (abs_graph (mem w))(a \<mapsto> (v, ps))"
    by (simp add: abs_graph_def fun_eq_iff option.map_comp comp_def)
  show "a \<notin> dom (abs_graph (mem w))" using fresh(1) heap(1) by (simp add: abs_graph_def dom_def)
qed

context shape_law
begin

text \<open>A step that only removes nodes removes exactly those that no handle needs.\<close>

lemma survivors_exact:
  assumes ok': "world_inv I ops w' S' W' R' V'"
    and sub: "\<And>a d. deref (mem w') a = Some d \<Longrightarrow> deref (mem w) a = Some d"
  shows "deref (mem w') a = (if \<exists>d\<in>#S'. (a, d) \<in> (parents (mem w))\<^sup>* then deref (mem w) a else None)"
proof -
  have par': "parents (mem w') \<subseteq> parents (mem w)"
    by (auto simp: parents_iff) (use sub in blast)
  have live': "alive (mem w') a \<longleftrightarrow> deref (mem w') a \<noteq> None" for a
    using alive_iff_deref [OF world_okD(5) [OF ok']] by auto
  have keep: "alive (mem w') a" if "(a, d) \<in> (parents (mem w))\<^sup>*" "d \<in># S'" for a d
    using that
  proof (induction rule: converse_rtrancl_induct)
    case base
    then show ?case using owned_strong [OF ok'] by simp
  next
    case (step y z)
    then obtain dz where "deref (mem w') z = Some dz" using live' by auto
    with step sub have "(y, z) \<in> parents (mem w')" by (auto simp: parents_iff)
    with step show ?case using parent_alive [OF ok'] by blast
  qed
  have "deref (mem w') a \<noteq> None \<longleftrightarrow> (\<exists>d\<in>#S'. (a, d) \<in> (parents (mem w))\<^sup>*)"
    using keep alive_iff_descendant [OF ok', of a] rtrancl_mono [OF par'] unfolding live' by blast
  then show ?thesis using sub [of a] by (cases "deref (mem w') a") simp_all
qed

lemmas effect_deref = survivors_exact [OF _ drop_effectD(1)]

lemma abs_survivors:
  assumes "world_inv I ops w' S' W' R' V'" "\<And>a d. deref (mem w') a = Some d \<Longrightarrow> deref (mem w) a = Some d"
  shows "abs_graph (mem w') = collect_garbage S' (abs_graph (mem w))"
proof
  fix a
  show "abs_graph (mem w') a = collect_garbage S' (abs_graph (mem w)) a"
    using survivors_exact [OF assms, of a]
    by (simp add: abs_graph_def collect_garbage_def restrict_map_def ancestors_of_def graph_parents_abs [unfolded abs_graph_def])
qed

lemmas abs_effect = abs_survivors [OF _ drop_effectD(1)]

lemma abs_relrc_drop:
  assumes "slot_map ops" "world_inv I ops w (add_mset a S) W R V"
  shows "abs_graph (mem (relrc_drop ops a w)) = collect_garbage S (abs_graph (mem w))"
  by (rule abs_effect [OF relrc_drop_ok [OF assms] relrc_drop_effect [OF assms]])

lemma drop_relrcs_ok:
  assumes sm: "slot_map ops" and ok: "world_inv I ops w (mset as + S) W R V"
  shows "world_inv I ops (drop_tasks ops (map DropRelRc as) w) S W R V"
    and "drop_effect w (drop_tasks ops (map DropRelRc as) w)"
    and "abs_graph (mem (drop_tasks ops (map DropRelRc as) w)) = collect_garbage S (abs_graph (mem w))"
proof -
  let ?ts = "map DropRelRc as"
  have 1: "world_inv I ops w (tasks_own task_strong ?ts + S) (tasks_own task_weak ?ts + W) R (tasks_own task_wreg ?ts + V)"
    using ok slot_map.tasks_own_strong_refs [OF sm, of "\<lambda>a. a" as] by simp
  note 2 = drop_tasks_ok [OF sm 1]
  show "world_inv I ops (drop_tasks ops ?ts w) S W R V" "drop_effect w (drop_tasks ops ?ts w)"
    "abs_graph (mem (drop_tasks ops ?ts w)) = collect_garbage S (abs_graph (mem w))"
    using 2 drop_tasks_effect [OF sm 1] abs_effect [OF 2 drop_tasks_effect [OF sm 1]] by simp_all
qed

lemma collect_garbage_alive:
  assumes ok: "world_inv I ops w S W R V"
  shows "collect_garbage S (abs_graph (mem w)) = abs_graph (mem w)"
proof -
  have "dom (abs_graph (mem w)) \<subseteq> ancestors_of S (abs_graph (mem w))"
    using alive_iff_descendant [OF ok] dom_abs_graph [OF ok] unfolding ancestors_of_def by simp blast
  then show ?thesis by (simp add: collect_garbage_def restrict_map_superset)
qed

end

text \<open>Collecting garbage depends only on what is held, keeps its ancestors, and can be done in steps.\<close>

lemma collect_garbage_keeps:
  assumes "(x, d) \<in> (graph_parents g)\<^sup>*" "d \<in># S"
  shows "collect_garbage S g x = g x"
  using assms by (auto simp: collect_garbage_def ancestors_of_def restrict_map_def)

lemma graph_parents_mono: "g \<subseteq>\<^sub>m g' \<Longrightarrow> graph_parents g \<subseteq> graph_parents g'"
  unfolding graph_parents_def map_le_def by (smt (verit) Collect_mono case_prodI2 case_prod_conv domI subrelI)

lemma collect_garbage_extends:
  assumes "g \<subseteq>\<^sub>m g'" "collect_garbage S g = g"
  shows "g \<subseteq>\<^sub>m collect_garbage (T + S) g'"
  unfolding map_le_def
proof
  fix x assume x: "x \<in> dom g"
  then have "x \<in> ancestors_of S g" using assms(2) by (auto simp: collect_garbage_def restrict_map_def fun_eq_iff dom_def split: if_splits)
  then obtain d where "d \<in># S" "(x, d) \<in> (graph_parents g)\<^sup>*" by (auto simp: ancestors_of_def)
  then have "collect_garbage (T + S) g' x = g' x"
    using rtrancl_mono [OF graph_parents_mono [OF assms(1)]] by (intro collect_garbage_keeps [of x d]) auto
  with x assms(1) show "g x = collect_garbage (T + S) g' x" by (simp add: map_le_def)
qed

lemma collect_garbage_cong: "set_mset S = set_mset T \<Longrightarrow> collect_garbage S g = collect_garbage T g"
  by (simp add: collect_garbage_def ancestors_of_def)

lemma collect_garbage_collect:
  assumes "set_mset S \<subseteq> set_mset T"
  shows "collect_garbage S (collect_garbage T g) = collect_garbage S g"
proof -
  let ?g = "collect_garbage T g"
  have sub: "?g \<subseteq>\<^sub>m g" by (simp add: collect_garbage_def map_le_def)
  have "(x, d) \<in> (graph_parents ?g)\<^sup>*" if "(x, d) \<in> (graph_parents g)\<^sup>*" "d \<in># S" for x d
    using that
  proof (induction rule: converse_rtrancl_induct)
    case (step x y)
    then have "y \<in> ancestors_of T g" using assms by (auto simp: ancestors_of_def)
    with step.hyps(1) have "(x, y) \<in> graph_parents ?g" by (simp add: graph_parents_def collect_garbage_def)
    with step.IH step.prems show ?case by (meson converse_rtrancl_into_rtrancl)
  qed simp
  then have "ancestors_of S ?g = ancestors_of S g"
    using rtrancl_mono [OF graph_parents_mono [OF sub]] unfolding ancestors_of_def by blast
  moreover have "ancestors_of S g \<subseteq> ancestors_of T g" using assms by (auto simp: ancestors_of_def)
  ultimately show ?thesis by (simp add: collect_garbage_def Int_absorb1)
qed

lemma abs_all_outgoing: "abs_graph (snd (all_outgoing a h)) = abs_graph h"
proof -
  obtain kept edges h1 where r: "retain_outgoing (all_outgoing_weak_ref a h) h = (kept, edges, h1)"
    by (metis prod_cases3)
  have "abs_graph h1 = abs_graph h" using retain_outgoing_spec(4) [OF r] by (rule abs_graph_deref)
  then show ?thesis by (simp add: all_outgoing_def r abs_graph_set_payload)
qed

end
