(* ===== verification/Data_Copy.thy ===== *)
theory Data_Copy
  imports Graph_Spec
begin

section \<open>Copies of the data of nodes and registries\<close>

text \<open>
  \<open>InnerData\<close> and \<open>Registry\<close> derive \<open>Clone\<close>. A program can read the data of a node through
  \<open>Deref\<close>, clone it, put the clone into an \<open>Rc\<close> and make it a node with \<open>From<Rc<InnerData>>\<close>:
  \<open>Rc::new((*a).clone()).into()\<close>. The copy has the edges of the original: their targets are
  the original, and no parent lists them. So that it keeps \<open>world_core\<close>, not \<open>world_ok\<close>.
  An \<open>Rc<InnerData>\<close> that is not made a node is dropped without the code of \<open>Drop for RelRc\<close>: the
  node is then not taken out of its registry.
\<close>

subsection \<open>Definitions\<close>

fun clone_edges :: "'e InnerEdgeData list \<Rightarrow> 'a heap \<Rightarrow> 'e InnerEdgeData list \<times> 'a heap" where
  "clone_edges [] h = ([], h)"
| "clone_edges (e # es) h =
     (let (e', h1) = inner_edge_clone e h; (es', h2) = clone_edges es h1 in (e' # es', h2))"

definition inner_data_clone ::
  "('n, 'e) InnerData \<Rightarrow> ('n, 'e, 'k, 's) world \<Rightarrow> ('n, 'e) InnerData \<times> ('n, 'e, 'k, 's) world" where
  "inner_data_clone d w =
     (let (es, h1) = clone_edges (incoming d) (mem w);
          h2 = fold weak_clone (map we_target (outgoing d)) h1;
          g = (case registry d of None \<Rightarrow> regs w | Some r \<Rightarrow> weak_clone r (regs w))
      in (\<lparr>node_value = node_value d, incoming = es, outgoing = outgoing d, registry = registry d\<rparr>,
          w\<lparr>mem := h2, regs := g\<rparr>))"

text \<open>\<open>Rc::new((*a).clone()).into()\<close>, for a node \<open>a\<close> that is alive.\<close>

definition copy_node ::
  "allocator \<Rightarrow> RelRc \<Rightarrow> ('n, 'e, 'k, 's) world \<Rightarrow> RelRc \<times> ('n, 'e, 'k, 's) world" where
  "copy_node al a w =
     (case relrc_deref a (mem w) of
        None \<Rightarrow> (a, w)
      | Some d \<Rightarrow>
          (let (d', w1) = inner_data_clone d w; (b, h) = rc_new al d' (mem w1)
           in (relrc_from_rc b, w1\<lparr>mem := h\<rparr>)))"

text \<open>The drop of an \<open>Rc<InnerData>\<close>: the fields are dropped with the last one, and nothing is unregistered.\<close>

definition rc_data_drop ::
  "('k, 's) slotmap_ops \<Rightarrow> addr \<Rightarrow> ('n, 'e, 'k, 's) world \<Rightarrow> ('n, 'e, 'k, 's) world" where
  "rc_data_drop ops a w =
     (if strong_count a (mem w) > 1 then w\<lparr>mem := rc_release a (mem w)\<rparr>
      else
        (let (data, h) = rc_take a (mem w)
         in drop_tasks ops (case data of None \<Rightarrow> [] | Some d \<Rightarrow> field_drops a d) (w\<lparr>mem := h\<rparr>)))"

subsection \<open>Cloning the data\<close>

lemma clone_edges_same: "fst (clone_edges es h) = es"
  by (induction es arbitrary: h) (simp_all add: inner_edge_clone_def case_prod_unfold Let_def)

lemma clone_edges_deref: "deref (snd (clone_edges es h)) x = deref h x"
  by (induction es arbitrary: h) (simp_all add: inner_edge_clone_def heap_simps case_prod_unfold Let_def)

lemma clone_edges_refs: "refs g (snd (clone_edges es h)) = refs g h"
  by (induction es arbitrary: h) (simp_all add: inner_edge_clone_def refs_simps case_prod_unfold Let_def)

lemma fold_weak_clone_deref: "deref (fold weak_clone xs h) x = deref h x"
  by (induction xs arbitrary: h) (simp_all add: heap_simps)

lemma clone_edges_ok:
  assumes "world_inv I ops w S W R V" "\<forall>e\<in>set es. alive (mem w) (source e) \<and> 0 < weak (box (mem w) (target e))"
  shows "world_inv I ops (w\<lparr>mem := snd (clone_edges es (mem w))\<rparr>) (mset (map source es) + S) (mset (map target es) + W) R V"
  using assms
proof (induction es arbitrary: w S W)
  case (Cons e es)
  let ?w = "w\<lparr>mem := weak_clone (target e) (rc_clone (source e) (mem w))\<rparr>"
  have "world_inv I ops (w\<lparr>mem := rc_clone (source e) (mem w)\<rparr>) (add_mset (source e) S) W R V"
    using Cons.prems by (intro clone_ok) auto
  from weak_clone_ok [OF this, of "target e"] Cons.prems(2)
  have "world_inv I ops ?w (add_mset (source e) S) (add_mset (target e) W) R V" by (simp add: heap_simps)
  from Cons.IH [OF this] Cons.prems(2) show ?case
    by (simp add: inner_edge_clone_def heap_simps case_prod_unfold Let_def)
qed simp

lemma inner_data_clone_same: "fst (inner_data_clone d w) = d"
  using clone_edges_same [of "incoming d" "mem w"] by (simp add: inner_data_clone_def case_prod_unfold Let_def)

lemma inner_data_clone_deref:
  "deref (mem (snd (inner_data_clone d w))) x = deref (mem w) x"
  "deref (regs (snd (inner_data_clone d w))) r = deref (regs w) r"
  using clone_edges_deref [of "incoming d" "mem w" x]
  by (simp_all add: inner_data_clone_def fold_weak_clone_deref heap_simps case_prod_unfold Let_def split: option.split)

lemma stored_refs_counted:
  assumes ok: "world_inv I ops w S W R V" and d: "deref (mem w) a = Some d"
  shows "\<forall>e\<in>set (incoming d). alive (mem w) (source e) \<and> 0 < weak (box (mem w) (target e))"
    and "\<forall>t\<in>set (map we_target (outgoing d)). 0 < weak (box (mem w) t)"
    and "\<forall>r. registry d = Some r \<longrightarrow> 0 < weak (box (regs w) r)"
proof -
  have "source e \<in># refs src_refs (mem w)" "target e \<in># refs wk_refs (mem w)" if "e \<in> set (incoming d)" for e
    using that d by (force simp: in_refs_iff src_refs_def wk_refs_def)+
  then show "\<forall>e\<in>set (incoming d). alive (mem w) (source e) \<and> 0 < weak (box (mem w) (target e))"
    using stored_weak_count [OF ok] world_okD(1) [OF ok] by (auto simp: strong_ok_def)
  have "we_target e \<in># refs wk_refs (mem w)" if "e \<in> set (outgoing d)" for e
    using that d by (force simp: in_refs_iff wk_refs_def)
  then show "\<forall>t\<in>set (map we_target (outgoing d)). 0 < weak (box (mem w) t)" using stored_weak_count [OF ok] by auto
  have "r \<in># refs reg_ref (mem w)" if "registry d = Some r" for r
    using that d by (force simp: in_refs_iff reg_ref_def)
  then show "\<forall>r. registry d = Some r \<longrightarrow> 0 < weak (box (regs w) r)" using world_okD(4) [OF ok] by (auto simp: reg_weak_ok_def)
qed

lemma inner_data_clone_ok:
  assumes ok: "world_inv I ops w S W R V" and d: "deref (mem w) a = Some d"
  shows "world_inv I ops (snd (inner_data_clone d w)) (src_refs d + S) (wk_refs d + W) R (reg_ref d + V)"
proof -
  note counted = stored_refs_counted [OF ok d]
  let ?h1 = "snd (clone_edges (incoming d) (mem w))" and ?ts = "map we_target (outgoing d)"
  let ?h2 = "fold weak_clone ?ts ?h1"
  note 1 = clone_edges_ok [OF ok counted(1)]
  have "\<forall>t\<in>set ?ts. 0 < weak (box ?h1 t)"
  proof
    fix t assume "t \<in> set ?ts"
    then have "t \<in># refs wk_refs (mem w)" using d by (force simp: in_refs_iff wk_refs_def)
    then show "0 < weak (box ?h1 t)" using stored_weak_count [OF 1, of t] by (simp add: clone_edges_refs)
  qed
  with weak_handles.dup_all_ok [OF 1, of ?ts]
  have 2: "world_inv I ops (w\<lparr>mem := ?h2\<rparr>) (src_refs d + S) (wk_refs d + W) R V"
    by (simp add: fold_mem_weak_clone src_refs_def wk_refs_def ac_simps)
  show ?thesis
  proof (cases "registry d")
    case (Some r)
    with reg_weak_clone_ok [OF 2, of r] counted(3) show ?thesis
      by (simp add: inner_data_clone_def reg_ref_def rc_downgrade_def weak_clone_def case_prod_unfold Let_def)
  qed (use 2 in \<open>simp add: inner_data_clone_def reg_ref_def case_prod_unfold Let_def\<close>)
qed

subsection \<open>A copied node\<close>

text \<open>Putting data whose references the program owns into a new cell, for a shape that allows it.\<close>

lemma rc_new_data_ok:
  assumes al: "alloc_ok al" and ok: "world_inv I ops w (src_refs d + S) (wk_refs d + W) R (reg_ref d + V)"
    and new: "rc_new al d (mem w) = (b, h)" and J: "J ((shape (mem w))(b \<mapsto> (incoming d, outgoing d)))"
  shows "world_inv J ops (w\<lparr>mem := h\<rparr>) (add_mset b S) W R V"
    and "weak (box (mem w) b) = 0" "deref h x = (if x = b then Some d else deref (mem w) x)"
proof -
  have b: "b = al (occupied (mem w))" and h: "h = put b \<lparr>strong = 1, weak = 1, payload = Some d\<rparr> (mem w)"
    using new by (auto simp: rc_new_def Let_def)
  have le: "b \<le> length (mem w)" and free: "weak (box (mem w) b) = 0" using allocator_free [OF al] b by auto
  then show "weak (box (mem w) b) = 0" by simp
  note fresh = fresh_cell [OF ok free]
  have box_h: "box h x = (if x = b then \<lparr>strong = 1, weak = 1, payload = Some d\<rparr> else box (mem w) x)" for x
    using le by (simp add: h box_put)
  then show "deref h x = (if x = b then Some d else deref (mem w) x)" by simp
  have refs: "refs g h = g d + refs g (mem w)" for g :: "_ \<Rightarrow> addr multiset"
    using le fresh(1) by (simp add: h refs_put)
  have "strong_ok (w\<lparr>mem := h\<rparr>) (add_mset b S)"
    using world_okD(1) [OF ok] fresh(3,5) by (auto simp: strong_ok_def box_h refs not_in_iff)
  moreover have "weak_ok ops (w\<lparr>mem := h\<rparr>) W"
    using world_okD(2) [OF ok] fresh(4,6,7) by (auto simp: weak_ok_def box_h refs not_in_iff)
  moreover have "reg_weak_ok (w\<lparr>mem := h\<rparr>) V"
    using world_okD(4) [OF ok] by (simp add: reg_weak_ok_def refs)
  moreover have "live_ok h" using world_okD(5) [OF ok] by (simp add: live_ok_def box_h)
  moreover have "shape h = (shape (mem w))(b \<mapsto> (incoming d, outgoing d))" by (auto simp: shape_def box_h fun_eq_iff)
  ultimately show "world_inv J ops (w\<lparr>mem := h\<rparr>) (add_mset b S) W R V"
    using ok J by (auto simp: world_inv_def reg_strong_ok_def regs_ok_def)
qed

lemma copy_node_ok:
  assumes al: "alloc_ok al" and ok: "world_core ops w S W R V" and d: "deref (mem w) a = Some d"
    and copy: "copy_node al a w = (b, w')"
  shows "world_core ops w' (add_mset b S) W R V"
    and "weak (box (mem w) b) = 0" "deref (mem w') x = (if x = b then Some d else deref (mem w) x)"
    and "deref (regs w') r = deref (regs w) r"
proof -
  obtain w1 where w1: "inner_data_clone d w = (d, w1)" using inner_data_clone_same [of d w] by (metis prod.collapse)
  obtain h where new: "rc_new al d (mem w1) = (b, h)" and w': "w' = w1\<lparr>mem := h\<rparr>"
    using copy d w1 by (auto simp: copy_node_def relrc_deref_def relrc_from_rc_def split: prod.splits)
  have ok1: "world_core ops w1 (src_refs d + S) (wk_refs d + W) R (reg_ref d + V)"
    using inner_data_clone_ok [OF ok d] w1 by simp
  have same: "deref (mem w1) x = deref (mem w) x" "deref (regs w1) r = deref (regs w) r" for x r
    using inner_data_clone_deref(1) [of d w x] inner_data_clone_deref(2) [of d w r] w1 by simp_all
  have free1: "weak (box (mem w1) b) = 0" using new allocator_free(2) [OF al] by (auto simp: rc_new_def Let_def)
  note fresh = fresh_cell [OF ok1 free1]
  have core: "shape_core ((shape (mem w1))(b \<mapsto> (incoming d, outgoing d)))"
  proof (rule shape_core_copy [OF world_okD(7) [OF ok1], of a])
    show "shape (mem w1) a = Some (incoming d, outgoing d)" using d by (simp add: shape_def same)
    show "shape (mem w1) b = None" using fresh(1) by (simp add: shape_def)
    show "unreferenced b (shape (mem w1))" by (rule shape_unref [OF fresh(5,6)])
    show "\<forall>e\<in>set (incoming d). shape (mem w1) (source e) \<noteq> None"
      using stored_refs_counted(1) [OF ok d] alive_iff_deref [OF world_okD(5) [OF ok]] by (auto simp: shape_def same)
  qed
  note res = rc_new_data_ok [where J = shape_core, OF al ok1 new core]
  show "world_core ops w' (add_mset b S) W R V" "deref (regs w') r = deref (regs w) r"
    "deref (mem w') x = (if x = b then Some d else deref (mem w) x)" using res(1,3) by (simp_all add: w' same)
  show "weak (box (mem w) b) = 0"
  proof (rule ccontr)
    assume "weak (box (mem w) b) \<noteq> 0"
    with world_okD(2) [OF ok] fresh(1,4) same(1) [of b] have "b \<in># refs wk_refs (mem w) \<or> b \<in># refs (slot_refs ops) (regs w)"
      by (auto simp: weak_ok_def not_in_iff split: if_splits)
    with fresh(6,7) show False by (auto simp: in_refs_iff same)
  qed
qed

subsection \<open>Dropping an \<open>Rc<InnerData>\<close>, copying a registry\<close>

context shape_law
begin

lemma rc_data_drop_ok:
  assumes ops: "slot_map ops" and ok: "world_inv I ops w (add_mset a S) W R V"
  shows "world_inv I ops (rc_data_drop ops a w) S W R V"
proof (cases "1 < strong (box (mem w) a)")
  case True
  with release_ok [OF ok] show ?thesis by (simp add: rc_data_drop_def strong_count_def)
next
  case False
  with owned_strong [OF ok, of a] have one: "strong (box (mem w) a) = 1" by simp
  obtain data h where take: "rc_take a (mem w) = (data, h)" by fastforce
  from take_ok [OF ok one take] obtain d where d: "data = Some d"
    and "world_inv I ops (w\<lparr>mem := h\<rparr>) (src_refs d + S) (add_mset a (wk_refs d + W)) R (reg_ref d + V)" by blast
  then have "world_inv I ops (drop_tasks ops (field_drops a d) (w\<lparr>mem := h\<rparr>)) S W R V"
    by (intro drop_tasks_ok [OF ops]) (simp add: field_drops_own)
  with False take d show ?thesis by (simp add: rc_data_drop_def strong_count_def)
qed

end

context slot_map
begin

lemma clone_registry_ok:
  assumes al: "alloc_ok al" and ok: "world_inv I ops w S W R V" and r: "deref (regs w) r = Some Rg"
    and cl: "registry_clone ops Rg (mem w) = (Rg', h)" and new: "rc_registry al Rg' (w\<lparr>mem := h\<rparr>) = (r', w')"
  shows "world_inv I ops w' S W (add_mset r' R) V" "deref (regs w') r' = Some Rg"
proof -
  let ?xs = "map snd (slotmap_iter ops (reg_nodes Rg))"
  have Rg': "Rg' = Rg" and h: "h = fold weak_clone ?xs (mem w)" using cl by (auto simp: registry_clone_def)
  have xs: "mset ?xs = slot_refs ops Rg" by (simp only: slotmap_iter_snd slot_refs_def slotmap_values_def)
  have "0 < weak (box (mem w) x)" if "x \<in> set ?xs" for x
  proof -
    have "x \<in># slot_refs ops Rg" using that xs by (metis set_mset_mset)
    then have "x \<in># refs (slot_refs ops) (regs w)" using r by (auto simp: in_refs_iff)
    then show ?thesis using world_okD(2) [OF ok] by (simp add: weak_ok_def)
  qed
  with weak_handles.dup_all_ok [OF ok, of ?xs] have "world_inv I ops (w\<lparr>mem := h\<rparr>) S (slot_refs ops Rg + W) R V"
    by (simp only: fold_mem_weak_clone h xs) simp
  from rc_registry_ok [OF al this world_registry_ok [OF ok r]] new Rg'
  show "world_inv I ops w' S W (add_mset r' R) V" "deref (regs w') r' = Some Rg" by simp_all
qed

end

end
