(* ===== verification/Api.thy ===== *)
theory Api
  imports Data_Copy
begin

section \<open>Programs that use the library\<close>

text \<open>
  A program holds handles: strong and weak references of nodes and references of registries.
  \<open>api_step\<close> has one rule per public operation of \<open>node.rs\<close>, \<open>edge.rs\<close> and \<open>registry.rs\<close>
  that changes a count, a node or a registry, except those that copy the data of a node. (\<open>RelRc::default\<close> is \<open>new\<close>;
  the handles in \<open>WeakEdge\<close> and \<open>Edge\<close> are those of their targets, cloned, upgraded and dropped with them.) A program may call
  them in any order, with the
  handles it owns; a borrowed node (\<open>&RelRc\<close>, for example a parent found in an edge) is any
  node that is alive. The states of the step relation pair the memory with the handles.
  \<open>any_step\<close> adds what a program can do with the derived \<open>Clone\<close> of \<open>InnerData\<close>: make a node of a copy, and
  drop an \<open>Rc<InnerData>\<close> that it has not made a node. (The rule allows it of any strong handle, which includes
  more programs than there are.) An \<open>InnerData\<close> that a program keeps outside of an \<open>Rc\<close> is not part of the state.
\<close>

type_synonym ('n, 'e, 'k, 's) conf =
  "('n, 'e, 'k, 's) world \<times> addr multiset \<times> addr multiset \<times> addr multiset"

inductive api_step ::
  "allocator \<Rightarrow> ('k, 's) slotmap_ops \<Rightarrow> ('n, 'e, 'k, 's) conf \<Rightarrow> ('n, 'e, 'k, 's) conf \<Rightarrow> bool"
  for al :: allocator and ops :: "('k, 's) slotmap_ops" where
  new: "relrc_new al v (mem w) = (a, h) \<Longrightarrow>
    api_step al ops (w, S, W, R) (w\<lparr>mem := h\<rparr>, add_mset a S, W, R)"
| with_parents: "with_parents al v ps (mem w) = (a, h) \<Longrightarrow>
    api_step al ops (w, mset (map fst ps) + S, W, R) (w\<lparr>mem := h\<rparr>, add_mset a S, W, R)"
| clone: "alive (mem w) a \<Longrightarrow>
    api_step al ops (w, S, W, R) (w\<lparr>mem := relrc_clone a (mem w)\<rparr>, add_mset a S, W, R)"
| drop: "api_step al ops (w, add_mset a S, W, R) (relrc_drop ops a w, S, W, R)"
| downgrade: "alive (mem w) a \<Longrightarrow> relrc_downgrade a (mem w) = (x, h) \<Longrightarrow>
    api_step al ops (w, S, W, R) (w\<lparr>mem := h\<rparr>, S, add_mset x W, R)"
| weak_clone: "a \<in># W \<Longrightarrow>
    api_step al ops (w, S, W, R) (w\<lparr>mem := weak_clone a (mem w)\<rparr>, S, add_mset a W, R)"
| weak_drop: "api_step al ops (w, S, add_mset a W, R) (w\<lparr>mem := weak_drop a (mem w)\<rparr>, S, W, R)"
| upgrade: "a \<in># W \<Longrightarrow> relweak_upgrade a (mem w) = (x, h) \<Longrightarrow>
    api_step al ops (w, S, W, R) (w\<lparr>mem := h\<rparr>, opt_mset x + S, W, R)"
| edge_target: "e \<in> set (all_incoming a (mem w)) \<Longrightarrow> inner_edge_target e (mem w) = Inr (x, h) \<Longrightarrow>
    api_step al ops (w, S, W, R) (w\<lparr>mem := h\<rparr>, add_mset x S, W, R)"
| edge_clone: "e \<in> set (all_incoming a (mem w)) \<Longrightarrow> inner_edge_clone e (mem w) = (e', h) \<Longrightarrow>
    api_step al ops (w, S, W, R) (w\<lparr>mem := h\<rparr>, add_mset (source e') S, add_mset (target e') W, R)"
| incoming_weak: "incoming_weak a i (mem w) = (x, h) \<Longrightarrow>
    api_step al ops (w, S, W, R) (w\<lparr>mem := h\<rparr>, S, opt_mset (map_option we_target x) + W, R)"
| all_incoming_weak: "all_incoming_weak a (mem w) = (es, h) \<Longrightarrow>
    api_step al ops (w, S, W, R) (w\<lparr>mem := h\<rparr>, S, mset (map we_target es) + W, R)"
| all_outgoing_weak: "all_outgoing_weak a (mem w) = (es, h) \<Longrightarrow>
    api_step al ops (w, S, W, R) (w\<lparr>mem := h\<rparr>, S, mset (map we_target es) + W, R)"
| all_outgoing: "alive (mem w) a \<Longrightarrow> all_outgoing a (mem w) = (es, h) \<Longrightarrow>
    api_step al ops (w, S, W, R) (w\<lparr>mem := h\<rparr>, mset (map e_target es) + S, W, R)"
| n_outgoing: "alive (mem w) a \<Longrightarrow>
    api_step al ops (w, S, W, R) (snd (n_outgoing ops a w), S, W, R)"
| new_registry: "rc_registry al (registry_new ops) w = (r, w') \<Longrightarrow>
    api_step al ops (w, S, W, R) (w', S, W, add_mset r R)"
| clone_registry: "r \<in># R \<Longrightarrow>
    api_step al ops (w, S, W, R) (w\<lparr>regs := rc_clone r (regs w)\<rparr>, S, W, add_mset r R)"
| copy_registry: "r \<in># R \<Longrightarrow> deref (regs w) r = Some Rg \<Longrightarrow> registry_clone ops Rg (mem w) = (Rg', h) \<Longrightarrow>
    rc_registry al Rg' (w\<lparr>mem := h\<rparr>) = (r', w') \<Longrightarrow> api_step al ops (w, S, W, R) (w', S, W, add_mset r' R)"
| drop_registry: "api_step al ops (w, S, W, add_mset r R) (rc_registry_drop ops r w, S, W, R)"
| node_registry: "alive (mem w) a \<Longrightarrow> relrc_registry a w = (x, w') \<Longrightarrow>
    api_step al ops (w, S, W, R) (w', S, W, opt_mset x + R)"
| register: "alive (mem w) a \<Longrightarrow> r \<in># R \<Longrightarrow>
    api_step al ops (w, S, W, R) (snd (try_register_in ops a r w), S, W, R)"
| add_node: "alive (mem w) a \<Longrightarrow> r \<in># R \<Longrightarrow>
    api_step al ops (w, S, W, R) (snd (with_registry_mut r (add_node ops a) w), S, W, R)"
| get_id_or_insert: "alive (mem w) a \<Longrightarrow> r \<in># R \<Longrightarrow>
    api_step al ops (w, S, W, R) (snd (with_registry_mut r (get_id_or_insert ops a) w), S, W, R)"
| get: "r \<in># R \<Longrightarrow> deref (regs w) r = Some Rg \<Longrightarrow> registry_get ops k Rg (mem w) = (x, h) \<Longrightarrow>
    api_step al ops (w, S, W, R) (w\<lparr>mem := h\<rparr>, opt_mset x + S, W, R)"
| remove: "r \<in># R \<Longrightarrow>
    api_step al ops (w, S, W, R)
      (snd (with_registry_mut r (\<lambda>Rg h. ((), registry_remove ops k Rg h)) w), S, W, R)"
| free_node_ids: "r \<in># R \<Longrightarrow>
    api_step al ops (w, S, W, R) (snd (with_registry_mut r (free_node_ids ops) w), S, W, R)"
| iter: "r \<in># R \<Longrightarrow> deref (regs w) r = Some Rg \<Longrightarrow> registry_iter ops Rg (mem w) = (es, h) \<Longrightarrow>
    api_step al ops (w, S, W, R) (w\<lparr>mem := h\<rparr>, mset (map snd es) + S, W, R)"

inductive any_step ::
  "allocator \<Rightarrow> ('k, 's) slotmap_ops \<Rightarrow> ('n, 'e, 'k, 's) conf \<Rightarrow> ('n, 'e, 'k, 's) conf \<Rightarrow> bool"
  for al :: allocator and ops :: "('k, 's) slotmap_ops" where
  api: "api_step al ops c c' \<Longrightarrow> any_step al ops c c'"
| copy: "alive (mem w) a \<Longrightarrow> copy_node al a w = (b, w') \<Longrightarrow>
    any_step al ops (w, S, W, R) (w', add_mset b S, W, R)"
| data_drop: "any_step al ops (w, add_mset a S, W, R) (rc_data_drop ops a w, S, W, R)"

definition empty_world :: "('n, 'e, 'k, 's) world" where
  "empty_world = \<lparr>mem = [], regs = []\<rparr>"

definition start :: "('n, 'e, 'k, 's) conf" where
  "start = (empty_world, {#}, {#}, {#})"

fun conf_inv :: "('e shape \<Rightarrow> bool) \<Rightarrow> ('k, 's) slotmap_ops \<Rightarrow> ('n, 'e, 'k, 's) conf \<Rightarrow> bool" where
  "conf_inv I ops (w, S, W, R) \<longleftrightarrow> world_inv I ops w S W R {#}"

abbreviation conf_ok :: "('k, 's) slotmap_ops \<Rightarrow> ('n, 'e, 'k, 's) conf \<Rightarrow> bool" where
  "conf_ok \<equiv> conf_inv shape_inv"

fun conf_graph :: "('n, 'e, 'k, 's) conf \<Rightarrow> ('n, 'e) graph \<times> addr multiset" where
  "conf_graph (w, S, W, R) = (abs_graph (mem w), S)"

subsection \<open>Every step keeps the memory invariant\<close>

lemma empty_world_ok: "world_ok ops (empty_world :: ('n, 'e, 'k, 's) world) {#} {#} {#} {#}"
proof -
  have "deref [] a = None" for a by simp
  then show ?thesis
    by (simp add: world_ok_def empty_world_def count_defs refs_def live_ok_def regs_ok_def shape_inv_def
        shape_def parent_rel_def acyclic_def)
qed

lemma upgrade_ok:
  assumes "world_inv I ops w S W R V" "weak_upgrade a (mem w) = (x, h)"
  shows "world_inv I ops (w\<lparr>mem := h\<rparr>) (opt_mset x + S) W R V"
  using assms clone_ok [OF assms(1), of a]
  by (auto simp: weak_upgrade_def strong_count_def split: if_splits)

lemma inner_edge_target_ok:
  assumes "world_inv I ops w S W R V" "inner_edge_target e (mem w) = Inr (x, h)"
  shows "world_inv I ops (w\<lparr>mem := h\<rparr>) (add_mset x S) W R V"
  using assms upgrade_ok [OF assms(1), of "target e" "Some x" h]
  by (auto simp: inner_edge_target_def split: prod.splits option.splits)

lemma inner_edge_clone_ok:
  assumes ok: "world_inv I ops w S W R V" and e: "e \<in> set (all_incoming a (mem w))"
    and cl: "inner_edge_clone e (mem w) = (e', h)"
  shows "world_inv I ops (w\<lparr>mem := h\<rparr>) (add_mset (source e') S) (add_mset (target e') W) R V"
proof -
  have "(source e, a) \<in> parents (mem w)" using e by (simp add: parents_all_parents all_parents_def)
  then have "alive (mem w) (source e)" using alive_refs [OF ok] by blast
  from weak_clone_ok [OF clone_ok [OF ok this], of "target e"] incoming_weak_count [OF ok e]
  show ?thesis using cl by (auto simp: inner_edge_clone_def heap_simps)
qed

lemma incoming_weak_ok:
  assumes ok: "world_inv I ops w S W R V" and r: "incoming_weak a i (mem w) = (x, h)"
  shows "world_inv I ops (w\<lparr>mem := h\<rparr>) S (opt_mset (map_option we_target x) + W) R V"
proof (cases "incoming_at a i (mem w)")
  case (Some e)
  then have "e \<in> set (all_incoming a (mem w))" by (auto simp: incoming_at_def n_incoming_def split: if_splits)
  from weak_clone_ok [OF ok incoming_weak_count [OF ok this]] Some r show ?thesis by (auto simp: incoming_weak_def)
qed (use ok r in \<open>auto simp: incoming_weak_def\<close>)

lemma get_id_or_insert_add_node: "get_id_or_insert ops a = add_node ops a"
  by (simp add: fun_eq_iff get_id_or_insert_def add_node_def split: option.split)

lemma upgrade_entries_ok:
  assumes "world_inv I ops w S W R V" "upgrade_entries es (mem w) = (ns, h)"
  shows "world_inv I ops (w\<lparr>mem := h\<rparr>) (mset (map snd ns) + S) W R V"
  using assms
proof (induction es arbitrary: w S ns h)
  case (Cons e es)
  obtain nid x where e: "e = (nid, x)" by fastforce
  obtain y h1 where up: "weak_upgrade x (mem w) = (y, h1)" by fastforce
  obtain ns' h' where rest: "upgrade_entries es h1 = (ns', h')" by fastforce
  have IH: "world_inv I ops (w\<lparr>mem := h'\<rparr>) (mset (map snd ns') + (opt_mset y + S)) W R V"
    using Cons.IH [OF upgrade_ok [OF Cons.prems(1) up], of ns' h'] rest by simp
  show ?case using IH Cons.prems(2) up rest e
    by (cases y) (auto simp: relweak_upgrade_def add.commute)
qed simp

lemma relrc_registry_ok:
  assumes "world_inv I ops w S W R V" "relrc_registry a w = (x, w')"
  shows "world_inv I ops w' S W (opt_mset x + R) V"
proof (cases "node_registry a (mem w)")
  case (Some r)
  with assms(2) have "if alive (regs w) r then x = Some r \<and> w' = w\<lparr>regs := rc_clone r (regs w)\<rparr> else x = None \<and> w' = w"
    by (auto simp: relrc_registry_def weak_upgrade_def strong_count_def split: if_splits)
  then show ?thesis using assms(1) reg_clone_ok [OF assms(1), of r] by (cases "alive (regs w) r") simp_all
qed (use assms in \<open>simp add: relrc_registry_def\<close>)

context shape_law
begin

lemma api_step_ok:
  assumes ops: "slot_map ops" and al: "alloc_ok al" and step: "api_step al ops c c'" and ok: "conf_inv I ops c"
  shows "conf_inv I ops c'"
  using step ok
proof cases
  case (new v w a h S W R)
  with ok show ?thesis using with_parents_ok [OF al, of ops w "[]"] by (simp add: relrc_new_is_with_parents [OF al])
next
  case (new_registry w r w' S W R)
  with ok show ?thesis
    using slot_map.rc_registry_ok(1) [OF ops al _ slot_map.registry_new_ok [OF ops], of I w S W R]
    by (simp add: slot_map.registry_new_refs [OF ops])
next
  case (downgrade w a x h S W R)
  with ok show ?thesis
    using weak_clone_ok [of I ops w S W R "{#}" a] alive_weak_count [of I ops w S W R "{#}" a]
    by (auto simp: relrc_downgrade_def rc_downgrade_def weak_clone_def)
next
  case (upgrade a W w x h S R)
  with ok show ?thesis by (auto simp: relweak_upgrade_def intro: upgrade_ok)
next
  case (iter r R w Rg es h S W)
  with ok show ?thesis by (auto simp: registry_iter_def simp del: mset_map intro: upgrade_entries_ok)
qed (auto simp: relrc_clone_def get_id_or_insert_add_node simp del: mset_map intro: with_parents_ok [OF al] clone_ok
  relrc_drop_ok [OF ops] weak_clone_ok weak_drop_ok owned_weak owned_reg reg_clone_ok
  inner_edge_target_ok inner_edge_clone_ok incoming_weak_ok all_incoming_weak_ok all_outgoing_weak_ok all_outgoing_ok
  relrc_registry_ok slot_map.n_outgoing_inv [OF ops shape_law_axioms] slot_map.rc_registry_drop_inv [OF ops shape_law_axioms]
  slot_map.clone_registry_ok(1) [OF ops al]
  slot_map.try_register_in_ok [OF ops] slot_map.add_node_world_ok [OF ops]
  slot_map.registry_get_ok [OF ops] slot_map.registry_remove_world_ok [OF ops]
  slot_map.free_node_ids_world_ok [OF ops])

end

definition reachable ::
  "allocator \<Rightarrow> ('k, 's) slotmap_ops \<Rightarrow> ('n, 'e, 'k, 's) conf \<Rightarrow> bool" where
  "reachable al ops c \<longleftrightarrow> (api_step al ops)\<^sup>*\<^sup>* start c"

definition reachable_any ::
  "allocator \<Rightarrow> ('k, 's) slotmap_ops \<Rightarrow> ('n, 'e, 'k, 's) conf \<Rightarrow> bool" where
  "reachable_any al ops c \<longleftrightarrow> (any_step al ops)\<^sup>*\<^sup>* start c"

lemma reachable_start: "reachable al ops (\<lparr>mem = [], regs = []\<rparr>, {#}, {#}, {#})"
  by (simp add: reachable_def start_def empty_world_def)

lemma reachable_step: "reachable al ops c \<Longrightarrow> api_step al ops c c' \<Longrightarrow> reachable al ops c'"
  unfolding reachable_def by (rule rtranclp.rtrancl_into_rtrancl)

lemma reachable_any_step: "reachable_any al ops c \<Longrightarrow> any_step al ops c c' \<Longrightarrow> reachable_any al ops c'"
  unfolding reachable_any_def by (rule rtranclp.rtrancl_into_rtrancl)

lemma reachable_imp_any: "reachable al ops c \<Longrightarrow> reachable_any al ops c"
  unfolding reachable_def reachable_any_def using mono_rtranclp [of "api_step al ops" "any_step al ops"] any_step.api by blast

lemmas reachable_new = reachable_step [OF _ api_step.new]
lemmas reachable_with_parents = reachable_step [OF _ api_step.with_parents]
lemmas reachable_clone = reachable_step [OF _ api_step.clone]
lemmas reachable_drop = reachable_step [OF _ api_step.drop]
lemmas reachable_new_registry = reachable_step [OF _ api_step.new_registry]
lemmas reachable_register = reachable_step [OF _ api_step.register]

lemma reachable_ok:
  assumes "slot_map ops" "alloc_ok al" "reachable al ops c"
  shows "conf_ok ops c"
  using assms(3) unfolding reachable_def
  by (induction rule: rtranclp_induct) (auto simp: start_def empty_world_ok intro: api_step_ok [OF assms(1,2)])

lemma any_step_core:
  assumes ops: "slot_map ops" and al: "alloc_ok al" and step: "any_step al ops c c'" and ok: "conf_inv shape_core ops c"
  shows "conf_inv shape_core ops c'"
  using step ok
proof cases
  case api
  then show ?thesis using core.api_step_ok [OF ops al _ ok] by blast
next
  case (copy w a b w' S W R)
  then obtain d where "deref (mem w) a = Some d" using ok alive_iff_deref [OF world_okD(5)] by fastforce
  with copy ok show ?thesis by (auto intro: copy_node_ok(1) [OF al])
next
  case (data_drop w a S W R)
  with ok show ?thesis by (auto intro: core.rc_data_drop_ok [OF ops])
qed

lemma reachable_any_core:
  assumes "slot_map ops" "alloc_ok al" "reachable_any al ops c"
  shows "conf_inv shape_core ops c"
proof -
  have "conf_inv shape_core ops start" by (simp add: start_def world_ok_core [OF empty_world_ok])
  with assms(3) show ?thesis unfolding reachable_any_def
    by (induction rule: rtranclp_induct) (blast intro: any_step_core [OF assms(1,2)])+
qed

subsection \<open>Every step is a step of the abstract graph\<close>

lemma acquire_all:
  assumes "set_mset A \<subseteq> dom g"
  shows "graph_step\<^sup>*\<^sup>* (g, S) (g, A + S)"
  using assms
proof (induction A)
  case (add a A)
  then have "graph_step\<^sup>*\<^sup>* (g, S) (g, A + S)" by simp
  moreover from add.prems have "graph_step (g, A + S) (g, add_mset a (A + S))" by (intro graph_step.acquire) simp
  ultimately show ?case by simp
qed simp

text \<open>A step that does not change the abstract graph only acquires handles of live nodes.\<close>

lemma acquires:
  assumes "world_inv I ops w' (A + S) W R V" "abs_graph (mem w') = g" "g' = g"
  shows "graph_step\<^sup>*\<^sup>* (g, S) (g', A + S)"
  using acquire_all [of A g S] owned_strong [OF assms(1)] dom_abs_graph [OF assms(1)] assms(2,3)
  by fastforce

lemma abs_with_registry_mut:
  assumes "\<And>Rg. abs_graph (snd (snd (f Rg (mem w)))) = abs_graph (mem w)"
  shows "abs_graph (mem (snd (with_registry_mut r f w))) = abs_graph (mem w)"
  using assms by (simp add: with_registry_mut_mem split: option.splits)

lemma abs_add_node: "abs_graph (snd (snd (add_node ops a Rg h))) = abs_graph h"
  by (auto simp: add_node_def relrc_downgrade_def split: option.splits prod.splits)

lemma abs_registry_clone: "registry_clone ops Rg h = (Rg', h') \<Longrightarrow> abs_graph h' = abs_graph h"
  by (auto simp: registry_clone_def)

lemma abs_registry_remove: "abs_graph (snd (registry_remove ops k Rg h)) = abs_graph h"
  by (auto simp: registry_remove_def split: option.splits prod.splits)

lemma abs_fold_remove_slot: "abs_graph (snd (fold (remove_slot ops) ks (m, h))) = abs_graph h"
proof (induction ks arbitrary: m h)
  case (Cons k ks)
  obtain m' h' where r: "remove_slot ops k (m, h) = (m', h')" by fastforce
  then have "abs_graph h' = abs_graph h" by (auto simp: remove_slot_def split: prod.splits option.splits)
  with r Cons.IH [of m' h'] show ?case by simp
qed simp

lemma abs_free_node_ids: "abs_graph (snd (snd (free_node_ids ops Rg h))) = abs_graph h"
  using abs_fold_remove_slot [of ops "map fst (dead_entries ops Rg h)" "reg_nodes Rg" h]
  by (auto simp: free_node_ids_def Let_def split: prod.splits)

lemma abs_weak_upgrade: "abs_graph (snd (weak_upgrade a h)) = abs_graph h"
  by (simp add: weak_upgrade_def)

lemma abs_upgrade_entries: "abs_graph (snd (upgrade_entries es h)) = abs_graph h"
proof (induction es arbitrary: h)
  case (Cons e es)
  obtain nid x where e: "e = (nid, x)" by fastforce
  obtain y h1 where up: "weak_upgrade x h = (y, h1)" by fastforce
  from up abs_weak_upgrade [of x h] Cons.IH [of h1] e show ?case
    by (auto simp: relweak_upgrade_def split: option.splits prod.splits)
qed simp

lemma abs_try_register_in: "abs_graph (mem (snd (try_register_in ops a r w))) = abs_graph (mem w)"
proof -
  have "abs_graph (mem (snd (try_set_register a r w))) = abs_graph (mem w)"
    by (auto simp: try_set_register_def Let_def abs_graph_set_payload split: option.splits)
  then show ?thesis
    by (auto simp: try_register_in_def abs_with_registry_mut abs_add_node split: prod.splits bool.splits)
qed

lemma drop_tasks_weak:
  "drop_tasks ops (map (\<lambda>e. DropRelWeak (f e)) es) w = w\<lparr>mem := fold weak_drop (map f es) (mem w)\<rparr>"
  by (induction es arbitrary: w) simp_all

lemma abs_fold_weak_drop: "abs_graph (fold weak_drop xs h) = abs_graph h"
  by (induction xs arbitrary: h) simp_all

lemma abs_rc_registry_drop: "abs_graph (mem (rc_registry_drop ops r w)) = abs_graph (mem w)"
  by (auto simp: rc_registry_drop_def drop_tasks_weak abs_fold_weak_drop split: option.splits prod.splits)

context shape_law
begin

lemma abs_n_outgoing:
  assumes ops: "slot_map ops" and ok: "world_inv I ops w S W R V" and live: "alive (mem w) a"
  shows "abs_graph (mem (snd (n_outgoing ops a w))) = abs_graph (mem w)"
proof -
  obtain edges h where out: "all_outgoing a (mem w) = (edges, h)" by fastforce
  note ok1 = all_outgoing_ok [OF ok live out]
  let ?w1 = "w\<lparr>mem := h\<rparr>" and ?ts = "map (\<lambda>e. DropRelRc (e_target e)) edges"
  have ok2: "world_inv I ops ?w1 (tasks_own task_strong ?ts + S) (tasks_own task_weak ?ts + W) R (tasks_own task_wreg ?ts + V)"
    using ok1 by (simp only: slot_map.tasks_own_strong_refs [OF ops] add_0)
  have h: "abs_graph h = abs_graph (mem w)" using abs_all_outgoing [of a "mem w"] out by simp
  have "abs_graph (mem (drop_tasks ops ?ts ?w1)) = collect_garbage S (abs_graph (mem ?w1))"
    by (rule abs_effect [OF drop_tasks_ok [OF ops ok2] drop_tasks_effect [OF ops ok2]])
  also have "\<dots> = abs_graph (mem w)" using collect_garbage_alive [OF ok] h by simp
  finally show ?thesis by (simp add: n_outgoing_def out)
qed

end

lemma abs_result:
  "relrc_downgrade a h = (x, h') \<Longrightarrow> abs_graph h' = abs_graph h"
  "relweak_upgrade a h = (y, h') \<Longrightarrow> abs_graph h' = abs_graph h"
  "inner_edge_target e h = Inr (x, h') \<Longrightarrow> abs_graph h' = abs_graph h"
  "inner_edge_clone e h = (e', h') \<Longrightarrow> abs_graph h' = abs_graph h"
  "incoming_weak a i h = (we, h') \<Longrightarrow> abs_graph h' = abs_graph h"
  "all_incoming_weak a h = (es, h') \<Longrightarrow> abs_graph h' = abs_graph h"
  "all_outgoing_weak a h = (es, h') \<Longrightarrow> abs_graph h' = abs_graph h"
  "all_outgoing a h = (eds, h') \<Longrightarrow> abs_graph h' = abs_graph h"
  "registry_get ops k Rg h = (y, h') \<Longrightarrow> abs_graph h' = abs_graph h"
  "registry_iter ops Rg h = (ns, h') \<Longrightarrow> abs_graph h' = abs_graph h"
  using abs_all_outgoing [of a h] abs_upgrade_entries [of "slotmap_iter ops (reg_nodes Rg)" h]
  by (auto simp: relrc_downgrade_def relweak_upgrade_def weak_upgrade_def inner_edge_target_def
      inner_edge_clone_def incoming_weak_def all_incoming_weak_def all_outgoing_weak_def registry_get_def registry_iter_def
      split: if_splits option.splits)

lemma mem_rc_registry: "rc_registry al Rg w = (r, w') \<Longrightarrow> mem w' = mem w"
  by (auto simp: rc_registry_def split: prod.splits)

lemma mem_relrc_registry: "relrc_registry a w = (x, w') \<Longrightarrow> mem w' = mem w"
  by (auto simp: relrc_registry_def split: option.splits prod.splits)

lemmas acquires_one = acquires [of _ _ _ "{#a#}" for a, simplified]

context shape_law
begin

lemma api_step_refines:
  assumes ops: "slot_map ops" and al: "alloc_ok al" and step: "api_step al ops c c'" and ok: "conf_inv I ops c"
  shows "graph_step\<^sup>*\<^sup>* (conf_graph c) (conf_graph c')"
  using step ok api_step_ok [OF ops al step ok]
proof cases
  case (new v w a h S W R)
  with ok have "abs_graph h = (abs_graph (mem w))(a \<mapsto> (v, []))" "a \<notin> dom (abs_graph (mem w))"
    using abs_with_parents [OF al, of I ops w "[]"] by (auto simp: relrc_new_is_with_parents [OF al])
  with new show ?thesis using graph_step.create [of a "abs_graph (mem w)" "[]" S v] by (simp add: r_into_rtranclp)
next
  case (with_parents v ps w a h S W R)
  with ok have "abs_graph h = (abs_graph (mem w))(a \<mapsto> (v, ps))" "a \<notin> dom (abs_graph (mem w))"
    using abs_with_parents [OF al, of I ops w ps S W R] by (auto simp del: mset_map)
  with with_parents show ?thesis using graph_step.create [of a "abs_graph (mem w)" ps S v]
    by (simp del: mset_map add: r_into_rtranclp)
next
  case (drop w a S W R)
  with ok show ?thesis using abs_relrc_drop [OF ops, of w a]
    by (auto intro!: r_into_rtranclp graph_step.release)
qed (auto simp: relrc_clone_def abs_n_outgoing [OF ops] abs_rc_registry_drop abs_try_register_in
  abs_with_registry_mut abs_add_node get_id_or_insert_add_node abs_registry_clone abs_registry_remove abs_free_node_ids mem_rc_registry mem_relrc_registry
  simp del: mset_map dest!: abs_result intro: acquires acquires_one)

end

lemma abs_rc_data_drop:
  assumes ops: "slot_map ops" and ok: "world_core ops w (add_mset a S) W R V"
  shows "abs_graph (mem (rc_data_drop ops a w)) = collect_garbage S (abs_graph (mem w))"
proof (rule core.abs_survivors [OF core.rc_data_drop_ok [OF ops ok]])
  fix x d assume d: "deref (mem (rc_data_drop ops a w)) x = Some d"
  show "deref (mem w) x = Some d"
  proof (cases "1 < strong (box (mem w) a)")
    case True
    with d show ?thesis by (simp add: rc_data_drop_def strong_count_def heap_simps)
  next
    case False
    with owned_strong [OF ok, of a] have one: "strong (box (mem w) a) = 1" by simp
    obtain data h where take: "rc_take a (mem w) = (data, h)" by fastforce
    from core.take_ok [OF ok one take] obtain d0 where d0: "data = Some d0"
      and ok1: "world_core ops (w\<lparr>mem := h\<rparr>) (tasks_own task_strong (field_drops a d0) + S)
        (tasks_own task_weak (field_drops a d0) + W) R (tasks_own task_wreg (field_drops a d0) + V)"
      by (auto simp: field_drops_own)
    have "deref h x = Some d"
      using drop_effectD(1) [OF core.drop_tasks_effect [OF ops ok1]] d take d0 False
      by (simp add: rc_data_drop_def strong_count_def)
    then show ?thesis using take by (auto simp: rc_take_def box_upd split: if_splits)
  qed
qed

lemma abs_copy_node:
  assumes al: "alloc_ok al" and ok: "world_core ops w S W R V" and d: "deref (mem w) a = Some d"
    and copy: "copy_node al a w = (b, w')"
  shows "abs_graph (mem w') = (abs_graph (mem w))(b \<mapsto> abs_node d)" "b \<notin> dom (abs_graph (mem w))"
proof -
  note res = copy_node_ok [OF al ok d copy]
  show "abs_graph (mem w') = (abs_graph (mem w))(b \<mapsto> abs_node d)" by (simp add: abs_graph_def res(3) fun_eq_iff)
  show "b \<notin> dom (abs_graph (mem w))" using fresh_cell(1) [OF ok res(2)] by (simp add: abs_graph_def dom_def)
qed

text \<open>A copy is a node that is created with the value and the parents of the original.\<close>

lemma any_step_refines:
  assumes ops: "slot_map ops" and al: "alloc_ok al" and step: "any_step al ops c c'" and ok: "conf_inv shape_core ops c"
  shows "graph_step\<^sup>*\<^sup>* (conf_graph c) (conf_graph c')"
  using step ok
proof cases
  case api
  then show ?thesis using core.api_step_refines [OF ops al _ ok] by blast
next
  case (copy w a b w' S W R)
  have ok': "world_core ops w S W R {#}" using ok copy by simp
  then obtain d where d: "deref (mem w) a = Some d" using copy alive_iff_deref [OF world_okD(5)] by fastforce
  let ?g = "abs_graph (mem w)" and ?ps = "snd (abs_node d)"
  have "set_mset (mset (map fst ?ps)) \<subseteq> dom ?g"
    using stored_refs_counted(1) [OF ok' d] dom_abs_graph [OF ok'] by (auto simp: abs_node_def)
  then have "graph_step\<^sup>*\<^sup>* (?g, S) (?g, mset (map fst ?ps) + S)" by (rule acquire_all)
  moreover have "graph_step (?g, mset (map fst ?ps) + S) (?g(b \<mapsto> abs_node d), add_mset b S)"
    using graph_step.create [of b ?g ?ps S "fst (abs_node d)"] abs_copy_node(2) [OF al ok' d] copy by simp
  ultimately show ?thesis using copy abs_copy_node(1) [OF al ok' d] by simp
next
  case (data_drop w a S W R)
  with ok show ?thesis using abs_rc_data_drop [OF ops, of w a S W R "{#}"] graph_step.release [of "abs_graph (mem w)" a S]
    by (simp add: r_into_rtranclp)
qed

text \<open>The ancestors in a memory with a new copy \<open>b\<close> of \<open>a\<close>: no node has \<open>b\<close> as a parent.\<close>

lemma copy_ancestors:
  assumes par: "\<And>p c. (p, c) \<in> r' \<longleftrightarrow> (if c = b then (p, a) \<in> r else (p, c) \<in> r)"
    and b: "\<And>c. (b, c) \<notin> r" "\<And>p. (p, b) \<notin> r" and "a \<noteq> b" and cyc: "acyclic r"
  shows "c \<noteq> b \<Longrightarrow> (x, c) \<in> r'\<^sup>* \<longleftrightarrow> (x, c) \<in> r\<^sup>*" "(a, b) \<notin> r'\<^sup>*"
proof -
  have "r \<subseteq> r'" using par b(2) by auto
  moreover have "c \<noteq> b \<longrightarrow> (x, c) \<in> r\<^sup>*" if "(x, c) \<in> r'\<^sup>*" for x c
    using that
  proof (induction rule: rtrancl_induct)
    case (step y z)
    then have "y \<noteq> b" using par [of y z] b(1) by (auto split: if_splits)
    with step par [of y z] show ?case by (auto intro: rtrancl_into_rtrancl split: if_splits)
  qed simp
  ultimately show up: "c \<noteq> b \<Longrightarrow> (x, c) \<in> r'\<^sup>* \<longleftrightarrow> (x, c) \<in> r\<^sup>*" for x c using rtrancl_mono by blast
  show "(a, b) \<notin> r'\<^sup>*"
  proof
    assume "(a, b) \<in> r'\<^sup>*"
    then obtain y where y: "(a, y) \<in> r'\<^sup>*" "(y, b) \<in> r'" using \<open>a \<noteq> b\<close> by (auto elim: rtranclE)
    then have "(y, a) \<in> r" using par by simp
    moreover from this b(1) have "y \<noteq> b" by auto
    ultimately have "(a, a) \<in> r\<^sup>+" using up y(1) by (meson rtrancl_into_trancl1)
    with cyc show False by (simp add: acyclic_def)
  qed
qed

text \<open>A copy, after its original has been dropped.\<close>

lemma copy_then_drop:
  assumes ops: "slot_map ops" and al: "alloc_ok al" and ok: "world_ok ops w (add_mset a S) W R V"
    and d: "deref (mem w) a = Some d" and copy: "copy_node al a w = (b, w1)"
  shows "deref (mem w) b = None" "deref (mem (relrc_drop ops a w1)) b = Some d"
    and "e \<in> set (incoming d) \<Longrightarrow> e \<in> set (all_incoming b (mem (relrc_drop ops a w1))) \<and>
      (inner_edge_target e (mem (relrc_drop ops a w1)) = Inl (Expect ''target node is no longer alive'') \<longleftrightarrow>
       \<not> (\<exists>c\<in>#S. (a, c) \<in> (parents (mem w))\<^sup>*))"
proof -
  let ?w2 = "relrc_drop ops a w1" and ?r = "parents (mem w)"
  note res = copy_node_ok [OF al world_ok_core [OF ok] d copy]
  note fresh = fresh_cell [OF ok res(2)]
  show b: "deref (mem w) b = None" by (rule fresh(1))
  have ok1: "world_core ops w1 (add_mset a (add_mset b S)) W R V" using res(1) by (simp add: add_mset_commute)
  note ok2 = core.relrc_drop_ok [OF ops ok1]
  note eff = core.effect_deref [OF ok2 core.relrc_drop_effect [OF ops ok1]]
  have par: "(p, c) \<in> parents (mem w1) \<longleftrightarrow> (if c = b then (p, a) \<in> ?r else (p, c) \<in> ?r)" for p c
    using d by (auto simp: parents_iff res(3))
  have "(b, c) \<notin> ?r" "(c, b) \<notin> ?r" "a \<noteq> b" for c using alive_refs [OF ok, of b] fresh(2) b d by (auto simp: parents_iff)
  note up = copy_ancestors [OF par this(1) this(2) this(3) no_cycle [OF world_okD(7) [OF ok]]]
  show twin: "deref (mem ?w2) b = Some d" using eff [of b] res(3) by auto
  assume e: "e \<in> set (incoming d)"
  then have t: "target e = a" using all_incoming_target [OF ok, of e a] d by (simp add: all_incoming_def)
  have "deref (mem ?w2) a = None \<longleftrightarrow> \<not> (\<exists>c\<in>#add_mset b S. (a, c) \<in> (parents (mem w1))\<^sup>*)" using eff [of a] res(3) [of a] d \<open>a \<noteq> b\<close> by simp
  also have "\<dots> \<longleftrightarrow> \<not> (\<exists>c\<in>#S. (a, c) \<in> ?r\<^sup>*)" 
    using up(1) [of _ a] up(2) fresh(3) by (metis insert_iff set_mset_add_mset_insert)
  finally show "e \<in> set (all_incoming b (mem ?w2)) \<and> (inner_edge_target e (mem ?w2) = Inl (Expect ''target node is no longer alive'') \<longleftrightarrow>
       \<not> (\<exists>c\<in>#S. (a, c) \<in> ?r\<^sup>*))"
    using e twin t world_okD(5) [OF ok2]
    by (auto simp: all_incoming_def inner_edge_target_def weak_upgrade_def strong_count_def live_ok_def)
qed

end
