(* ===== verification/History_Correct.thy ===== *)
theory History_Correct
  imports History Graph_Spec Api
begin

section \<open>Correctness of history graphs\<close>

text \<open>
  A history graph is consistent with the memory (\<open>graph_ok\<close>) if its registry is alive, its node
  ids are distinct and each of them names the same node in the graph and in the registry. The
  graph owns one strong reference per node. Insertion keeps both, whatever happens to the node;
  \<open>insert_ancestors\<close> always ends.
\<close>

definition graph_set :: "'k HistoryGraph \<Rightarrow> addr set" where
  "graph_set g = set (sec_values (hg_nodes g))"

definition graph_own :: "'k HistoryGraph \<Rightarrow> addr multiset" where
  "graph_own g = mset (sec_values (hg_nodes g))"

definition graph_ok :: "'k HistoryGraph \<Rightarrow> ('n, 'e, 'k, 's) world \<Rightarrow> bool" where
  "graph_ok g w \<longleftrightarrow> distinct (sec_keys (hg_nodes g)) \<and> deref (regs w) (hg_registry g) \<noteq> None \<and>
     (\<forall>k\<in>set (sec_keys (hg_nodes g)). \<exists>a. sec_vals (hg_nodes g) k = Some a \<and> reg_entry w (hg_registry g) k a)"

lemma graph_own_set [simp]: "set_mset (graph_own g) = graph_set g"
  by (simp add: graph_own_def graph_set_def)

lemma graph_set_iff: "a \<in> graph_set g \<longleftrightarrow> (\<exists>k. get_node g k = Some a)"
  by (auto simp: graph_set_def sec_values_def get_node_def sec_get_def sec_contains_key_def)

lemma graph_set_ran: "graph_set g = ran (get_node g)"
  by (auto simp: graph_set_iff ran_def)

lemma graph_set_keys: "a \<in> graph_set g \<longleftrightarrow> (\<exists>k\<in>set (sec_keys (hg_nodes g)). sec_vals (hg_nodes g) k = Some a)"
  by (simp add: graph_set_def sec_values_def)

lemma reg_entry_fun: "reg_entry w r k a \<Longrightarrow> reg_entry w r k b \<Longrightarrow> a = b"
  by (auto simp: reg_entry_def)

lemma hg_get_id_iff:
  assumes "world_ok ops w S W R V"
  shows "hg_get_id g a w = Some k \<longleftrightarrow> reg_entry w (hg_registry g) k a"
  using world_registry_ok [OF assms, of "hg_registry g"]
  by (auto simp: hg_get_id_def reg_entry_def get_id_def as_ptr_def registry_okD(2) split: option.splits)

text \<open>Registry entries that stay, and new ones for nodes of \<open>A\<close> only.\<close>

definition entry_ext :: "addr \<Rightarrow> ('n, 'e, 'k, 's) world \<Rightarrow> addr set \<Rightarrow> ('n, 'e, 'k, 's) world \<Rightarrow> bool" where
  "entry_ext r w A w' \<longleftrightarrow> (\<forall>k b. (reg_entry w r k b \<longrightarrow> reg_entry w' r k b) \<and> (reg_entry w' r k b \<longrightarrow> reg_entry w r k b \<or> b \<in> A))"

lemma entry_ext_simps [simp]:
  "entry_ext r w A w" "entry_ext r (w\<lparr>mem := h\<rparr>) A w' \<longleftrightarrow> entry_ext r w A w'" "entry_ext r w A (w'\<lparr>mem := h\<rparr>) \<longleftrightarrow> entry_ext r w A w'"
  by (simp_all add: entry_ext_def reg_entry_def)

lemma entry_ext_trans: "entry_ext r w A w1 \<Longrightarrow> entry_ext r w1 B w2 \<Longrightarrow> A \<union> B \<subseteq> C \<Longrightarrow> entry_ext r w C w2"
  unfolding entry_ext_def by blast

lemma entry_ext_mono: "entry_ext r w A w' \<Longrightarrow> A \<subseteq> B \<Longrightarrow> entry_ext r w B w'"
  unfolding entry_ext_def by blast

lemma reg_entry_inj:
  assumes "world_ok ops w S W R V" "reg_entry w r k a" "reg_entry w r j a"
  shows "k = j"
  using assms(2,3) world_registry_ok [OF assms(1), of r] by (auto simp: reg_entry_def simp flip: registry_okD(2))

lemma get_node_id_iff:
  assumes ok: "world_ok ops w S W R V" and g: "graph_ok g w"
  shows "get_node_id g a w = Some k \<longleftrightarrow> get_node g k = Some a"
proof
  assume "get_node_id g a w = Some k"
  then have "reg_entry w (hg_registry g) k a" "k \<in> set (sec_keys (hg_nodes g))"
    by (auto simp: get_node_id_def hg_get_id_iff [OF ok] sec_contains_key_def split: option.splits if_splits)
  with g reg_entry_fun show "get_node g k = Some a"
    by (fastforce simp: graph_ok_def get_node_def sec_get_def sec_contains_key_def)
next
  assume "get_node g k = Some a"
  then have k: "k \<in> set (sec_keys (hg_nodes g))" "sec_vals (hg_nodes g) k = Some a"
    by (auto simp: get_node_def sec_get_def sec_contains_key_def split: if_splits)
  with g have "reg_entry w (hg_registry g) k a" by (auto simp: graph_ok_def)
  with k show "get_node_id g a w = Some k"
    by (simp add: get_node_id_def hg_get_id_iff [OF ok, THEN iffD2] sec_contains_key_def)
qed

lemma hg_contains_iff:
  assumes "world_ok ops w S W R V" "graph_ok g w"
  shows "hg_contains g a w \<longleftrightarrow> a \<in> graph_set g"
proof -
  have "hg_contains g a w \<longleftrightarrow> (\<exists>k. get_node_id g a w = Some k)"
    by (auto simp: hg_contains_def get_node_id_def hg_contains_id_def split: option.splits)
  then show ?thesis by (simp add: get_node_id_iff [OF assms] graph_set_iff)
qed

text \<open>A drop that the graph survives keeps the graph consistent.\<close>

lemma graph_ok_effect:
  assumes g: "graph_ok g w" and eff: "drop_effect w w'" and ok': "world_ok ops w' (graph_own g + S) W R V"
  shows "graph_ok g w'"
proof -
  have "reg_entry w' (hg_registry g) k a"
    if "k \<in> set (sec_keys (hg_nodes g))" "sec_vals (hg_nodes g) k = Some a" "reg_entry w (hg_registry g) k a" for k a
  proof -
    from that have "a \<in># graph_own g + S" by (auto simp: graph_set_iff get_node_def sec_get_def sec_contains_key_def)
    from owned_strong [OF ok' this] have "deref (mem w') a \<noteq> None"
      using alive_iff_deref [OF world_okD(5) [OF ok']] by auto
    with that(3) drop_effectD(4) [OF eff] show ?thesis by blast
  qed
  with g drop_effectD(2) [OF eff, of "hg_registry g"] show ?thesis unfolding graph_ok_def by metis
qed

lemma drop_shared:
  assumes "world_ok ops w (add_mset a S) W R V" "a \<in># S"
  shows "relrc_drop ops a w = w\<lparr>mem := rc_release a (mem w)\<rparr>"
proof -
  have "strong (box (mem w) a) = count (refs src_refs (mem w)) a + count (add_mset a S) a"
    using world_okD(1) [OF assms(1)] by (simp add: strong_ok_def)
  with assms(2) have "1 < strong (box (mem w) a)" by (simp add: Suc_le_eq flip: count_greater_zero_iff)
  then show ?thesis by (simp add: relrc_drop_def strong_count_def)
qed

subsection \<open>Inserting a node\<close>

lemma sec_values_insert:
  assumes "distinct (sec_keys m)" "distinct (sec_keys m')" "set (sec_keys m') = insert k (set (sec_keys m))"
    and "k \<notin> set (sec_keys m)" "sec_vals m' = (sec_vals m)(k \<mapsto> v)"
  shows "mset (sec_values m') = add_mset v (mset (sec_values m))"
proof -
  have "(\<Sum>x\<in>set (sec_keys m). opt_mset (sec_vals m' x)) = (\<Sum>x\<in>set (sec_keys m). opt_mset (sec_vals m x))"
    using assms(4,5) by (intro sum.cong) auto
  then show ?thesis using assms by (simp add: sec_values_def mset_map_filter_distinct)
qed

abbreviation foreign :: "addr \<Rightarrow> addr \<Rightarrow> ('n, 'e) node_heap \<Rightarrow> bool" where
  "foreign r a h \<equiv> \<exists>r'. node_registry a h = Some r' \<and> r' \<noteq> r"

context slot_map
begin

lemma insert_node_contained:
  assumes ok: "world_ok ops w (add_mset a (graph_own g + S)) W R V" and g: "graph_ok g w"
    and k: "get_node g k = Some a"
  shows "insert_node ops a (g, w) = (Some k, g, w\<lparr>mem := rc_release a (mem w)\<rparr>)"
    and "world_ok ops (w\<lparr>mem := rc_release a (mem w)\<rparr>) (graph_own g + S) W R V"
    and "graph_ok g (w\<lparr>mem := rc_release a (mem w)\<rparr>)"
proof -
  have "a \<in># graph_own g + S" using k graph_set_iff by auto
  note drop = drop_shared [OF ok this]
  from relrc_drop_ok [OF slot_map_axioms ok]
  show "world_ok ops (w\<lparr>mem := rc_release a (mem w)\<rparr>) (graph_own g + S) W R V" unfolding drop .
  show "graph_ok g (w\<lparr>mem := rc_release a (mem w)\<rparr>)" using g by (simp add: graph_ok_def reg_entry_def)
  show "insert_node ops a (g, w) = (Some k, g, w\<lparr>mem := rc_release a (mem w)\<rparr>)"
    using get_node_id_iff [OF ok g, THEN iffD2, OF k] drop by (simp add: insert_node_def)
qed

lemma insert_node_foreign:
  assumes ok: "world_ok ops w (add_mset a (graph_own g + S)) W (add_mset (hg_registry g) R) V" and g: "graph_ok g w"
    and a: "a \<notin> graph_set g" and f: "foreign (hg_registry g) a (mem w)" and ins: "insert_node ops a (g, w) = (x, g', w')"
  shows "x = None" "g' = g" "world_ok ops w' (graph_own g + S) W (add_mset (hg_registry g) R) V" "graph_ok g w'"
    and "deref (mem w') b = Some d \<Longrightarrow> deref (mem w) b = Some d"
proof -
  obtain y w1 where t: "try_register_in ops a (hg_registry g) w = (y, w1)" by fastforce
  from f obtain r' where r': "node_registry a (mem w) = Some r'" "r' \<noteq> hg_registry g" by blast
  note fails = try_register_in_fails [OF r' t]
  have "get_node_id g a w \<noteq> Some k" for k using a by (simp add: get_node_id_iff [OF ok g] graph_set_iff)
  then have res: "x = None" "g' = g" "w' = relrc_drop ops a w1"
    using ins t fails by (cases "get_node_id g a w"; auto simp: insert_node_def)+
  have "alive (mem w) a" "alive (regs w) (hg_registry g)"
    using owned_strong [OF ok, of a] owned_reg [OF ok, of "hg_registry g"] by simp_all
  from try_register_in_ok [OF ok this] t
  have ok1: "world_ok ops w1 (add_mset a (graph_own g + S)) W (add_mset (hg_registry g) R) V" by simp
  have g1: "graph_ok g w1" using g fails by (simp add: graph_ok_def reg_entry_def)
  show "x = None" "g' = g" by (rule res)+
  show ok': "world_ok ops w' (graph_own g + S) W (add_mset (hg_registry g) R) V"
    unfolding res by (rule relrc_drop_ok [OF slot_map_axioms ok1])
  have eff: "drop_effect w1 w'" unfolding res by (rule relrc_drop_effect [OF slot_map_axioms ok1])
  show "graph_ok g w'" by (rule graph_ok_effect [OF g1 eff ok'])
  show "deref (mem w') b = Some d \<Longrightarrow> deref (mem w) b = Some d" using drop_effectD(1) [OF eff] fails by simp
qed

lemma insert_node_new:
  assumes ok: "world_ok ops w (add_mset a (graph_own g + S)) W (add_mset (hg_registry g) R) V" and g: "graph_ok g w"
    and a: "a \<notin> graph_set g" and f: "\<not> foreign (hg_registry g) a (mem w)" and ins: "insert_node ops a (g, w) = (x, g', w')"
  shows "world_ok ops w' (graph_own g' + S) W (add_mset (hg_registry g) R) V" "graph_ok g' w'"
    and "hg_registry g' = hg_registry g" "\<exists>k. x = Some k \<and> get_node g k = None \<and> get_node g' = (get_node g)(k \<mapsto> a)"
    and "abs_graph (mem w') = abs_graph (mem w)"
    and "b \<noteq> a \<Longrightarrow> node_registry b (mem w') = node_registry b (mem w)" "node_registry a (mem w') = Some (hg_registry g)"
    and "entry_ext (hg_registry g) w {a} w'"
proof -
  let ?r = "hg_registry g"
  obtain y w1 where t: "try_register_in ops a ?r w = (y, w1)" by fastforce
  have alive: "alive (mem w) a" "alive (regs w) ?r"
    using owned_strong [OF ok, of a] owned_reg [OF ok, of ?r] by simp_all
  then obtain d Rg where d: "deref (mem w) a \<noteq> None" "deref (regs w) ?r = Some Rg"
    using alive_iff_deref [OF world_okD(5) [OF ok], of a] alive_iff_deref [OF world_okD(6) [OF ok], of ?r] by auto
  have "node_registry a (mem w) \<in> {None, Some ?r}" using f by (cases "node_registry a (mem w)") auto
  from try_register_in_succeeds [OF ok d this t] obtain k where
    k: "y = Some k" "reg_entry w1 ?r k a" and reg: "node_registry a (mem w1) = Some ?r"
    and keep: "\<And>z j b. b \<noteq> a \<Longrightarrow> reg_entry w1 z j b \<longleftrightarrow> reg_entry w z j b"
    and keep_reg: "\<And>b. b \<noteq> a \<Longrightarrow> node_registry b (mem w1) = node_registry b (mem w)"
    and r1: "deref (regs w1) ?r \<noteq> None" and same: "\<And>j. reg_entry w ?r j a \<Longrightarrow> k = j" by blast
  from try_register_in_ok [OF ok alive] t
  have ok1: "world_ok ops w1 (add_mset a (graph_own g + S)) W (add_mset ?r R) V" by simp
  have vals: "\<exists>b. sec_vals (hg_nodes g) j = Some b \<and> b \<noteq> a \<and> reg_entry w1 ?r j b" if "j \<in> set (sec_keys (hg_nodes g))" for j
  proof -
    from g that obtain b where b: "sec_vals (hg_nodes g) j = Some b" "reg_entry w ?r j b" by (auto simp: graph_ok_def)
    with a that have "b \<noteq> a" unfolding graph_set_keys by blast
    with b keep show ?thesis by blast
  qed
  have new: "k \<notin> set (sec_keys (hg_nodes g))" using vals [of k] reg_entry_fun [OF k(2)] by metis
  from r1 obtain Rg1 where Rg1: "deref (regs w1) ?r = Some Rg1" by auto
  have "j \<in> set (sm_keys ops (slots (reg_nodes Rg1)))" if "reg_entry w1 ?r j b" for j b
    using that Rg1 registry_okD(1) [OF world_registry_ok [OF ok1 Rg1]]
    by (simp add: reg_entry_def slotmap_ok_def slotmap_keys_def)
  then have "insert k (set (sec_keys (hg_nodes g))) \<subseteq> set (sm_keys ops (slots (reg_nodes Rg1)))"
    using vals k(2) by blast
  from sec_insert_spec [OF _ this new] g obtain m where m: "sec_insert ops k a (hg_nodes g) = ([], m)" "distinct (sec_keys m)"
    "set (sec_keys m) = insert k (set (sec_keys (hg_nodes g)))" "sec_vals m = (sec_vals (hg_nodes g))(k \<mapsto> a)"
    unfolding graph_ok_def by blast
  have "get_node_id g a w \<noteq> Some k" for k using a by (simp add: get_node_id_iff [OF ok g] graph_set_iff)
  then have res: "x = Some k" "g' = g\<lparr>hg_nodes := m\<rparr>" "w' = w1"
    using ins t k(1) m(1) by (cases "get_node_id g a w"; auto simp: insert_node_def)+
  show "hg_registry g' = ?r" by (simp add: res)
  show "graph_ok g' w'" using m vals k(2) r1 by (auto simp: graph_ok_def res)
  have "graph_own g' = add_mset a (graph_own g)"
    using sec_values_insert [OF _ m(2,3) new m(4)] g by (simp add: graph_own_def graph_ok_def res)
  then show "world_ok ops w' (graph_own g' + S) W (add_mset ?r R) V" using ok1 by (simp add: res)
  show "\<exists>k. x = Some k \<and> get_node g k = None \<and> get_node g' = (get_node g)(k \<mapsto> a)"
    using new m(3,4) by (intro exI [of _ k]) (auto simp: res get_node_def sec_get_def sec_contains_key_def fun_eq_iff)
  show "abs_graph (mem w') = abs_graph (mem w)" using abs_try_register_in [of ops a ?r w] t by (simp add: res)
  show "b \<noteq> a \<Longrightarrow> node_registry b (mem w') = node_registry b (mem w)" "node_registry a (mem w') = Some ?r"
    by (simp_all add: res keep_reg reg)
  show "entry_ext ?r w {a} w'" using keep [of _ ?r] same k(2) unfolding entry_ext_def res by (metis singletonI)
qed

end

subsection \<open>Inserting a node with its ancestors\<close>

text \<open>
  \<open>hist_ext\<close> says how an insertion may change graph and memory: ids stay what they were, only
  nodes of \<open>A\<close> are added, no node dies or changes, and no other registry is affected.
\<close>

definition hist_ext ::
  "'k HistoryGraph \<Rightarrow> ('n, 'e, 'k, 's) world \<Rightarrow> addr set \<Rightarrow> 'k HistoryGraph \<Rightarrow> ('n, 'e, 'k, 's) world \<Rightarrow> bool" where
  "hist_ext g w A g' w' \<longleftrightarrow> hg_registry g' = hg_registry g \<and> get_node g \<subseteq>\<^sub>m get_node g' \<and>
     graph_set g' \<subseteq> graph_set g \<union> A \<and> abs_graph (mem w') = abs_graph (mem w) \<and>
     (\<forall>b. foreign (hg_registry g) b (mem w') \<longleftrightarrow> foreign (hg_registry g) b (mem w)) \<and>
     entry_ext (hg_registry g) w A w'"

definition hist_inv ::
  "('k, 's) slotmap_ops \<Rightarrow> 'k HistoryGraph \<Rightarrow> ('n, 'e, 'k, 's) world \<Rightarrow>
   addr multiset \<Rightarrow> addr multiset \<Rightarrow> addr multiset \<Rightarrow> addr multiset \<Rightarrow> bool" where
  "hist_inv ops g w S W R V \<longleftrightarrow>
     world_ok ops w (graph_own g + S) W (add_mset (hg_registry g) R) V \<and> graph_ok g w"

definition closed_graph :: "'k HistoryGraph \<Rightarrow> ('n, 'e) node_heap \<Rightarrow> bool" where
  "closed_graph g h \<longleftrightarrow> (\<forall>a\<in>graph_set g. set (all_parents a h) \<subseteq> graph_set g)"

lemma hist_ext_refl: "hist_ext g w A g w"
  by (simp add: hist_ext_def)

lemma hist_ext_trans:
  "hist_ext g w A g1 w1 \<Longrightarrow> hist_ext g1 w1 B g2 w2 \<Longrightarrow> A \<union> B \<subseteq> C \<Longrightarrow> hist_ext g w C g2 w2"
  unfolding hist_ext_def by (auto intro: map_le_trans entry_ext_trans)

lemma hist_ext_mono: "hist_ext g w A g' w' \<Longrightarrow> A \<subseteq> B \<Longrightarrow> hist_ext g w B g' w'"
  unfolding hist_ext_def by (auto intro: entry_ext_mono)

lemma graph_set_mono: "get_node g \<subseteq>\<^sub>m get_node g' \<Longrightarrow> graph_set g \<subseteq> graph_set g'"
  unfolding map_le_def subset_iff graph_set_iff by (metis domI)

lemma parents_abs_cong: "abs_graph h' = abs_graph h \<Longrightarrow> parents h' = parents h"
  by (metis graph_parents_abs)

lemma parents_rc_clone [simp]: "parents (rc_clone a h) = parents h"
  by (rule parents_abs_cong) simp

lemma all_parents_abs_cong: "abs_graph h' = abs_graph h \<Longrightarrow> set (all_parents a h') = set (all_parents a h)"
  using parents_abs_cong [of h' h] parents_all_parents by blast

lemma closed_graph_rc_clone [simp]: "closed_graph g (rc_clone a h) \<longleftrightarrow> closed_graph g h"
  using all_parents_abs_cong [of "rc_clone a h" h] by (simp add: closed_graph_def)

lemma node_registry_counts [simp]:
  "node_registry b (rc_clone a h) = node_registry b h" "node_registry b (rc_release a h) = node_registry b h"
  by (simp_all add: node_registry_def heap_simps)

lemma graph_ok_mem [simp]: "graph_ok g (w\<lparr>mem := h\<rparr>) \<longleftrightarrow> graph_ok g w"
  by (simp add: graph_ok_def reg_entry_def)

lemma hist_inv_clone:
  assumes "hist_inv ops g w S W R V" "alive (mem w) a"
  shows "hist_inv ops g (w\<lparr>mem := relrc_clone a (mem w)\<rparr>) (add_mset a S) W R V"
  using assms clone_ok by (auto simp: hist_inv_def relrc_clone_def)

context slot_map
begin

lemma insert_node_inv:
  assumes inv: "hist_inv ops g w (add_mset a S) W R V" and ins: "insert_node ops a (g, w) = (x, g', w')"
  shows "case x of None \<Rightarrow> foreign (hg_registry g) a (mem w)
    | Some k \<Rightarrow> hist_inv ops g' w' S W R V \<and> hist_ext g w {a} g' w' \<and> get_node g' k = Some a"
proof -
  have ok: "world_ok ops w (add_mset a (graph_own g + S)) W (add_mset (hg_registry g) R) V" and g: "graph_ok g w"
    using inv by (simp_all add: hist_inv_def)
  consider k where "get_node g k = Some a" | "a \<notin> graph_set g" "foreign (hg_registry g) a (mem w)"
    | "a \<notin> graph_set g" "\<not> foreign (hg_registry g) a (mem w)" by (auto simp: graph_set_iff)
  then show ?thesis
  proof cases
    case (1 k)
    from insert_node_contained [OF ok g 1] ins 1 show ?thesis by (auto simp: hist_inv_def hist_ext_def)
  next
    case 2
    from insert_node_foreign [OF ok g 2 ins] 2 show ?thesis by simp
  next
    case 3
    note new = insert_node_new [OF ok g 3 ins]
    then obtain k where k: "x = Some k" "get_node g k = None" "get_node g' = (get_node g)(k \<mapsto> a)" by blast
    then have "graph_set g' = insert a (graph_set g)" "get_node g \<subseteq>\<^sub>m get_node g'"
      by (auto simp: graph_set_ran map_le_def)
    moreover have "foreign (hg_registry g) b (mem w') \<longleftrightarrow> foreign (hg_registry g) b (mem w)" for b
      using new(6,7) 3(2) by (cases "b = a") simp_all
    ultimately show ?thesis using new k by (simp add: hist_inv_def hist_ext_def)
  qed
qed

text \<open>The clone, insert and drop of the last line of \<open>insert_ancestors\<close>.\<close>

lemma insert_clone_drop:
  assumes inv: "hist_inv ops g w (add_mset a S) W R V"
    and ins: "insert_node ops a (g, w\<lparr>mem := relrc_clone a (mem w)\<rparr>) = (x, g', w')"
  shows "case x of None \<Rightarrow> foreign (hg_registry g) a (mem w)
    | Some k \<Rightarrow> hist_inv ops g' (relrc_drop ops a w') S W R V \<and> hist_ext g w {a} g' (relrc_drop ops a w') \<and>
        get_node g' k = Some a"
proof -
  let ?w = "w\<lparr>mem := relrc_clone a (mem w)\<rparr>"
  have "alive (mem w) a" using inv owned_strong [of _ ops w _ W _ V a] by (auto simp: hist_inv_def)
  from insert_node_inv [OF hist_inv_clone [OF inv this] ins] show ?thesis
  proof (cases x)
    case (Some k)
    with insert_node_inv [OF hist_inv_clone [OF inv \<open>alive (mem w) a\<close>] ins]
    have 1: "hist_inv ops g' w' (add_mset a S) W R V" "hist_ext g ?w {a} g' w'" "get_node g' k = Some a" by simp_all
    then have ok: "world_ok ops w' (add_mset a (graph_own g' + S)) W (add_mset (hg_registry g') R) V"
      by (simp add: hist_inv_def)
    have "a \<in># graph_own g' + S" using 1(3) graph_set_iff by auto
    note drop = drop_shared [OF ok this]
    have "hist_inv ops g' (relrc_drop ops a w') S W R V"
      using 1(1) relrc_drop_ok [OF slot_map_axioms ok] by (simp add: hist_inv_def drop)
    moreover have "hist_ext g w {a} g' (relrc_drop ops a w')"
      using 1(2) by (simp add: hist_ext_def drop relrc_clone_def)
    ultimately show ?thesis using 1(3) Some by simp
  qed (simp add: relrc_clone_def)
qed

end

text \<open>What the recursion returns for a node, and for a list of parents.\<close>

abbreviation strict_ancestors :: "('n, 'e) node_heap \<Rightarrow> addr \<Rightarrow> addr set" where
  "strict_ancestors h a \<equiv> {x. (x, a) \<in> (parents h)\<^sup>+}"

abbreviation ancestors_or_self :: "('n, 'e) node_heap \<Rightarrow> addr \<Rightarrow> addr set" where
  "ancestors_or_self h a \<equiv> {x. (x, a) \<in> (parents h)\<^sup>*}"

definition inserted ::
  "('k, 's) slotmap_ops \<Rightarrow> addr set \<Rightarrow> 'k HistoryGraph \<Rightarrow> ('n, 'e, 'k, 's) world \<Rightarrow>
   addr multiset \<Rightarrow> addr multiset \<Rightarrow> addr multiset \<Rightarrow> addr multiset \<Rightarrow>
   'k HistoryGraph \<Rightarrow> ('n, 'e, 'k, 's) world \<Rightarrow> bool" where
  "inserted ops A g w S W R V g' w' \<longleftrightarrow>
     hist_inv ops g' w' S W R V \<and> hist_ext g w A g' w' \<and> (closed_graph g (mem w) \<longrightarrow> closed_graph g' (mem w'))"

definition not_registered :: "addr set \<Rightarrow> 'k HistoryGraph \<Rightarrow> ('n, 'e, 'k, 's) world \<Rightarrow> panic \<Rightarrow> bool" where
  "not_registered A g w p \<longleftrightarrow>
     p = Expect ''node not registered'' \<and> (\<exists>b\<in>A. foreign (hg_registry g) b (mem w))"

lemma inserted_trans:
  "inserted ops A g w S W R V g1 w1 \<Longrightarrow> inserted ops B g1 w1 S' W R V g2 w2 \<Longrightarrow> A \<union> B \<subseteq> C \<Longrightarrow>
   inserted ops C g w S' W R V g2 w2"
  unfolding inserted_def using hist_ext_trans by blast

lemma not_registered_trans:
  "hist_ext g w A g1 w1 \<Longrightarrow> not_registered B g1 w1 p \<Longrightarrow> B \<subseteq> C \<Longrightarrow> not_registered C g w p"
  unfolding not_registered_def hist_ext_def by (metis (no_types, lifting) subsetD)

lemma strict_ancestors_less:
  assumes ok: "world_ok ops w S W R V" and p: "(p, a) \<in> parents (mem w)"
  shows "card (strict_ancestors (mem w) p) < card (strict_ancestors (mem w) a)"
proof (rule psubset_card_mono)
  have "strict_ancestors (mem w) a \<subseteq> fst ` ((parents (mem w))\<^sup>+)" by force
  then show "finite (strict_ancestors (mem w) a)"
    using finite_parents [OF ok] by (auto intro: finite_subset)
  have "acyclic (parents (mem w))" by (intro shape_inv_acyclic world_ok_shape [OF ok])
  then have "p \<notin> strict_ancestors (mem w) p" by (simp add: acyclic_def)
  with p show "strict_ancestors (mem w) p \<subset> strict_ancestors (mem w) a" by (auto intro: trancl_into_trancl)
qed

lemma strict_ancestors_bound:
  assumes ok: "world_ok ops w S W R V"
  shows "card (strict_ancestors (mem w) a) \<le> length (mem w)"
proof -
  have "x < length (mem w)" if "(x, a) \<in> (parents (mem w))\<^sup>+" for x
  proof -
    from that obtain c where "(x, c) \<in> parents (mem w)" by (meson tranclD)
    with alive_refs [OF ok, of x] show ?thesis by (blast intro: in_range_strong)
  qed
  then have "strict_ancestors (mem w) a \<subseteq> {..<length (mem w)}" by blast
  from card_mono [OF _ this] show ?thesis by simp
qed

context slot_map
begin

lemma insert_last_step:
  assumes inv: "hist_inv ops g w (add_mset a S) W R V" and par: "set (all_parents a (mem w)) \<subseteq> graph_set g"
    and ins: "insert_node ops a (g, w\<lparr>mem := relrc_clone a (mem w)\<rparr>) = (Some k, g', w')"
  shows "inserted ops {a} g w S W R V g' (relrc_drop ops a w') \<and> get_node g' k = Some a"
proof -
  let ?w = "relrc_drop ops a w'"
  have 1: "hist_inv ops g' ?w S W R V" "hist_ext g w {a} g' ?w" "get_node g' k = Some a"
    using insert_clone_drop [OF inv ins] by simp_all
  have "closed_graph g' (mem ?w)" if cl: "closed_graph g (mem w)"
    unfolding closed_graph_def
  proof
    fix b assume b: "b \<in> graph_set g'"
    have "set (all_parents b (mem w)) \<subseteq> graph_set g"
      using b 1(2) cl par by (auto simp: hist_ext_def closed_graph_def)
    moreover have "graph_set g \<subseteq> graph_set g'" "set (all_parents b (mem ?w)) = set (all_parents b (mem w))"
      using 1(2) graph_set_mono all_parents_abs_cong unfolding hist_ext_def by blast+
    ultimately show "set (all_parents b (mem ?w)) \<subseteq> graph_set g'" by blast
  qed
  with 1 show ?thesis by (simp add: inserted_def)
qed

lemma insert_parent_step:
  fixes w :: "('n, 'e, 'k, 's) world"
  assumes IH: "\<forall>a g S w. card (strict_ancestors (mem w) a) < n \<longrightarrow> hist_inv ops g w (add_mset a S) W R V \<longrightarrow>
      (\<exists>res. insert_ancestors_fuel n ops a (g, w :: ('n, 'e, 'k, 's) world) = Some res \<and>
        (case res of Inl p \<Rightarrow> not_registered (ancestors_or_self (mem w) a) g w p
         | Inr (k, g', w') \<Rightarrow> get_node g' k = Some a \<and> inserted ops (ancestors_or_self (mem w) a) g w S W R V g' w'))"
    and p: "alive (mem w) p" "card (strict_ancestors (mem w) p) < n" and inv: "hist_inv ops g w S W R V"
  shows "(\<exists>q. insert_parents_fuel n ops (p # ps) (g, w) = Some (Inl q) \<and> not_registered (ancestors_or_self (mem w) p) g w q) \<or>
    (\<exists>g1 w1. insert_parents_fuel n ops (p # ps) (g, w) = insert_parents_fuel n ops ps (g1, w1) \<and>
       p \<in> graph_set g1 \<and> inserted ops (ancestors_or_self (mem w) p) g w S W R V g1 w1)"
proof (cases "hg_contains g p w")
  case True
  then have "p \<in> graph_set g" using hg_contains_iff [of ops w] inv unfolding hist_inv_def by blast
  with True inv show ?thesis by (intro disjI2 exI [of _ g] exI [of _ w]) (simp add: inserted_def hist_ext_refl)
next
  case False
  let ?w = "w\<lparr>mem := relrc_clone p (mem w)\<rparr>"
  have par: "parents (mem ?w) = parents (mem w)" by (simp add: relrc_clone_def)
  obtain res where res: "insert_ancestors_fuel n ops p (g, ?w) = Some res"
    and case_res: "case res of Inl q \<Rightarrow> not_registered (ancestors_or_self (mem ?w) p) g ?w q
      | Inr (k, g', w') \<Rightarrow> get_node g' k = Some p \<and> inserted ops (ancestors_or_self (mem ?w) p) g ?w S W R V g' w'"
    using IH [THEN spec, of p, THEN spec, of g, THEN spec, of S, THEN spec, of ?w] hist_inv_clone [OF inv p(1)] p(2) unfolding par by blast
  show ?thesis
  proof (cases res)
    case (Inl q)
    with res case_res False show ?thesis by (simp add: not_registered_def relrc_clone_def)
  next
    case (Inr r)
    obtain k g1 w1 where r: "r = (k, g1, w1)" by (cases r) auto
    have "inserted ops (ancestors_or_self (mem w) p) g w S W R V g1 w1" "p \<in> graph_set g1"
      using case_res Inr r by (auto simp: inserted_def hist_ext_def graph_set_iff relrc_clone_def)
    with res Inr r False show ?thesis by auto
  qed
qed

lemma insert_parents_ok:
  fixes w :: "('n, 'e, 'k, 's) world"
  assumes IH: "\<forall>a g S w. card (strict_ancestors (mem w) a) < n \<longrightarrow> hist_inv ops g w (add_mset a S) W R V \<longrightarrow>
      (\<exists>res. insert_ancestors_fuel n ops a (g, w :: ('n, 'e, 'k, 's) world) = Some res \<and>
        (case res of Inl p \<Rightarrow> not_registered (ancestors_or_self (mem w) a) g w p
         | Inr (k, g', w') \<Rightarrow> get_node g' k = Some a \<and> inserted ops (ancestors_or_self (mem w) a) g w S W R V g' w'))"
  shows "\<forall>p\<in>set ps. alive (mem w) p \<and> card (strict_ancestors (mem w) p) < n \<Longrightarrow> hist_inv ops g w S W R V \<Longrightarrow>
    \<exists>res. insert_parents_fuel n ops ps (g, w) = Some res \<and>
      (case res of Inl p \<Rightarrow> not_registered (\<Union>b\<in>set ps. ancestors_or_self (mem w) b) g w p
       | Inr (g', w') \<Rightarrow> set ps \<subseteq> graph_set g' \<and>
           inserted ops (\<Union>b\<in>set ps. ancestors_or_self (mem w) b) g w S W R V g' w')"
proof (induction ps arbitrary: g w)
  case Nil
  then show ?case by (simp add: inserted_def hist_ext_refl)
next
  case (Cons p ps)
  let ?A = "\<lambda>ps. \<Union>b\<in>set ps. ancestors_or_self (mem w) b"
  from Cons.prems have p: "alive (mem w) p" "card (strict_ancestors (mem w) p) < n" by simp_all
  from insert_parent_step [OF IH p Cons.prems(2), of ps] show ?case
  proof (elim disjE exE conjE)
    fix q assume "insert_parents_fuel n ops (p # ps) (g, w) = Some (Inl q)" "not_registered (ancestors_or_self (mem w) p) g w q"
    then show ?thesis by (auto simp: not_registered_def)
  next
    fix g1 w1 assume eq: "insert_parents_fuel n ops (p # ps) (g, w) = insert_parents_fuel n ops ps (g1, w1)"
      and p1: "p \<in> graph_set g1" and ins: "inserted ops (ancestors_or_self (mem w) p) g w S W R V g1 w1"
    from ins have inv1: "hist_inv ops g1 w1 S W R V" and ext: "hist_ext g w (ancestors_or_self (mem w) p) g1 w1"
      by (simp_all add: inserted_def)
    have abs: "abs_graph (mem w1) = abs_graph (mem w)" using ext by (simp add: hist_ext_def)
    have par: "parents (mem w1) = parents (mem w)" by (rule parents_abs_cong [OF abs])
    have "alive (mem w1) b \<longleftrightarrow> alive (mem w) b" for b
      using dom_abs_graph [of _ ops w1 _ W _ V b] dom_abs_graph [of _ ops w _ W _ V b] inv1 Cons.prems(2) abs
      unfolding hist_inv_def by metis
    with Cons.prems(1) Cons.IH [of w1 g1] inv1 obtain res where res: "insert_parents_fuel n ops ps (g1, w1) = Some res"
      "case res of Inl q \<Rightarrow> not_registered (?A ps) g1 w1 q
        | Inr (g', w') \<Rightarrow> set ps \<subseteq> graph_set g' \<and> inserted ops (?A ps) g1 w1 S W R V g' w'"
      unfolding par by auto
    show ?thesis
    proof (cases res)
      case (Inl q)
      with res have "not_registered (?A ps) g1 w1 q" by simp
      from not_registered_trans [OF ext this, of "?A (p # ps)"] show ?thesis using res Inl eq by simp
    next
      case (Inr r)
      obtain g2 w2 where r: "r = (g2, w2)" by fastforce
      with res Inr have 2: "set ps \<subseteq> graph_set g2" "inserted ops (?A ps) g1 w1 S W R V g2 w2" by simp_all
      then have "graph_set g1 \<subseteq> graph_set g2" by (simp add: inserted_def hist_ext_def graph_set_mono)
      with inserted_trans [OF ins 2(2), of "?A (p # ps)"] p1 2(1) res Inr r eq show ?thesis by auto
    qed
  qed
qed

theorem insert_ancestors_fuel_ok:
  fixes w :: "('n, 'e, 'k, 's) world"
  shows "card (strict_ancestors (mem w) a) < n \<Longrightarrow> hist_inv ops g w (add_mset a S) W R V \<Longrightarrow>
    \<exists>res. insert_ancestors_fuel n ops a (g, w) = Some res \<and>
      (case res of Inl p \<Rightarrow> not_registered (ancestors_or_self (mem w) a) g w p
       | Inr (k, g', w') \<Rightarrow> get_node g' k = Some a \<and> inserted ops (ancestors_or_self (mem w) a) g w S W R V g' w')"
proof (induction n arbitrary: a g S w)
  case (Suc n)
  have IH: "\<forall>a g S w. card (strict_ancestors (mem w) a) < n \<longrightarrow> hist_inv ops g w (add_mset a S) W R V \<longrightarrow>
      (\<exists>res. insert_ancestors_fuel n ops a (g, w :: ('n, 'e, 'k, 's) world) = Some res \<and>
        (case res of Inl p \<Rightarrow> not_registered (ancestors_or_self (mem w) a) g w p
         | Inr (k, g', w') \<Rightarrow> get_node g' k = Some a \<and> inserted ops (ancestors_or_self (mem w) a) g w S W R V g' w'))"
    using Suc.IH by blast
  have ok: "world_ok ops w (graph_own g + add_mset a S) W (add_mset (hg_registry g) R) V"
    using Suc.prems(2) by (simp add: hist_inv_def)
  let ?ps = "all_parents a (mem w)" and ?A = "ancestors_or_self (mem w) a"
  have anc: "(\<Union>b\<in>set ?ps. ancestors_or_self (mem w) b) \<subseteq> ?A"
    by (auto simp: parents_all_parents [symmetric] intro: rtrancl_into_rtrancl)
  have "alive (mem w) p \<and> card (strict_ancestors (mem w) p) < n" if "p \<in> set ?ps" for p
    using that alive_refs [OF ok, of p] strict_ancestors_less [OF ok, of p a] Suc.prems(1)
    by (auto simp: parents_all_parents)
  with insert_parents_ok [OF IH, of ?ps w g "add_mset a S"] Suc.prems(2)
  obtain res where res: "insert_parents_fuel n ops ?ps (g, w) = Some res"
    "case res of Inl p \<Rightarrow> not_registered (\<Union>b\<in>set ?ps. ancestors_or_self (mem w) b) g w p
      | Inr (g', w') \<Rightarrow> set ?ps \<subseteq> graph_set g' \<and>
          inserted ops (\<Union>b\<in>set ?ps. ancestors_or_self (mem w) b) g w (add_mset a S) W R V g' w'" by blast
  show ?case
  proof (cases res)
    case (Inl p)
    with res anc show ?thesis by (auto simp: not_registered_def)
  next
    case (Inr r)
    obtain g1 w1 where r: "r = (g1, w1)" by fastforce
    with res Inr have 1: "set ?ps \<subseteq> graph_set g1" "hist_inv ops g1 w1 (add_mset a S) W R V"
      and ins: "inserted ops (\<Union>b\<in>set ?ps. ancestors_or_self (mem w) b) g w (add_mset a S) W R V g1 w1"
      by (simp_all add: inserted_def)
    have ext: "hist_ext g w (\<Union>b\<in>set ?ps. ancestors_or_self (mem w) b) g1 w1" using ins by (simp add: inserted_def)
    obtain x g2 w2 where x: "insert_node ops a (g1, w1\<lparr>mem := relrc_clone a (mem w1)\<rparr>) = (x, g2, w2)" by (metis prod_cases3)
    show ?thesis
    proof (cases x)
      case None
      with insert_clone_drop [OF 1(2) x] have "not_registered {a} g1 w1 (Expect ''node not registered'')"
        by (simp add: not_registered_def)
      with not_registered_trans [OF ext this, of ?A] show ?thesis using res Inr r x None by simp
    next
      case (Some k)
      have "set (all_parents a (mem w1)) \<subseteq> graph_set g1"
        using 1(1) all_parents_abs_cong [of "mem w1" "mem w" a] ext by (simp add: hist_ext_def)
      from insert_last_step [OF 1(2) this] x Some
      have "inserted ops {a} g1 w1 S W R V g2 (relrc_drop ops a w2)" "get_node g2 k = Some a" by simp_all
      with inserted_trans [OF ins this(1), of ?A] anc show ?thesis using res Inr r x Some by simp
    qed
  qed
qed simp

lemma insert_ancestors_spec:
  fixes w :: "('n, 'e, 'k, 's) world"
  assumes "hist_inv ops g w (add_mset a S) W R V"
  shows "\<exists>res. insert_ancestors ops a (g, w) = Some res \<and>
    (case res of Inl p \<Rightarrow> not_registered (ancestors_or_self (mem w) a) g w p
     | Inr (k, g', w') \<Rightarrow> get_node g' k = Some a \<and> inserted ops (ancestors_or_self (mem w) a) g w S W R V g' w')"
proof -
  have "card (strict_ancestors (mem w) a) < Suc (length (mem w))"
    using strict_ancestors_bound assms unfolding hist_inv_def less_Suc_eq_le by blast
  from insert_ancestors_fuel_ok [OF this assms] show ?thesis by (simp add: insert_ancestors_def)
qed

lemma insert_nodes_step:
  assumes inv: "hist_inv ops g w (add_mset a S) W R V" and ins: "insert_node ops a (g, w) = (x, g', w')"
  shows "hist_inv ops g' w' S W R V \<and> hg_registry g' = hg_registry g \<and> get_node g \<subseteq>\<^sub>m get_node g' \<and>
    graph_set g' = graph_set g \<union> (if foreign (hg_registry g) a (mem w) then {} else {a}) \<and>
    (\<forall>b\<in>#S. foreign (hg_registry g) b (mem w') \<longleftrightarrow> foreign (hg_registry g) b (mem w))"
proof -
  have ok: "world_ok ops w (add_mset a (graph_own g + S)) W (add_mset (hg_registry g) R) V" and g: "graph_ok g w"
    using inv by (simp_all add: hist_inv_def)
  consider k where "get_node g k = Some a" | "a \<notin> graph_set g" "foreign (hg_registry g) a (mem w)"
    | "a \<notin> graph_set g" "\<not> foreign (hg_registry g) a (mem w)" by (auto simp: graph_set_iff)
  then show ?thesis
  proof cases
    case (1 k)
    then have "a \<in> graph_set g" by (auto simp: graph_set_iff)
    with insert_node_contained [OF ok g 1] ins show ?thesis by (auto simp: hist_inv_def)
  next
    case 2
    note f = insert_node_foreign [OF ok g 2 ins]
    have "node_registry b (mem w') = node_registry b (mem w)" if "b \<in># S" for b
    proof -
      have "b \<in># graph_own g + S" using that by simp
      then obtain d where d: "deref (mem w') b = Some d"
        using owned_strong [OF f(3), of b] alive_iff_deref [OF world_okD(5) [OF f(3)], of b] by blast
      with f(5) show ?thesis by (simp add: node_registry_def)
    qed
    with f 2 show ?thesis by (auto simp: hist_inv_def)
  next
    case 3
    note new = insert_node_new [OF ok g 3 ins]
    then obtain k where k: "x = Some k" "get_node g k = None" "get_node g' = (get_node g)(k \<mapsto> a)" by blast
    then have "graph_set g' = insert a (graph_set g)" "get_node g \<subseteq>\<^sub>m get_node g'"
      by (auto simp: graph_set_ran map_le_def)
    moreover have "foreign (hg_registry g) b (mem w') \<longleftrightarrow> foreign (hg_registry g) b (mem w)" for b
      using new(6,7) 3(2) by (cases "b = a") simp_all
    ultimately show ?thesis using new 3 by (auto simp: hist_inv_def)
  qed
qed

lemma insert_nodes_ok:
  assumes "hist_inv ops g w (mset ns + S) W R V" "insert_nodes ops ns (g, w) = (g', w')"
  shows "hist_inv ops g' w' S W R V \<and> hg_registry g' = hg_registry g \<and> get_node g \<subseteq>\<^sub>m get_node g' \<and>
    graph_set g' = graph_set g \<union> {a\<in>set ns. \<not> foreign (hg_registry g) a (mem w)}"
  using assms
proof (induction ns arbitrary: g w)
  case (Cons a ns)
  obtain x g1 w1 where x: "insert_node ops a (g, w) = (x, g1, w1)" by (metis prod_cases3)
  have inv: "hist_inv ops g w (add_mset a (mset ns + S)) W R V" using Cons.prems(1) by simp
  note 1 = insert_nodes_step [OF inv x]
  have "insert_nodes ops ns (g1, w1) = (g', w')" using Cons.prems(2) x by simp
  with Cons.IH 1 have 2: "hist_inv ops g' w' S W R V" "hg_registry g' = hg_registry g1" "get_node g1 \<subseteq>\<^sub>m get_node g'"
    "graph_set g' = graph_set g1 \<union> {a\<in>set ns. \<not> foreign (hg_registry g1) a (mem w1)}" by blast+
  have "{b\<in>set ns. \<not> foreign (hg_registry g1) b (mem w1)} = {b\<in>set ns. \<not> foreign (hg_registry g) b (mem w)}"
    using 1 by auto
  with 1 2 show ?case by (auto intro: map_le_trans)
qed simp

lemma closed_graph_ancestors:
  assumes "closed_graph g h" "a \<in> graph_set g"
  shows "ancestors_or_self h a \<subseteq> graph_set g"
proof clarify
  fix x assume "(x, a) \<in> (parents h)\<^sup>*"
  then show "x \<in> graph_set g"
    using assms by (induction rule: converse_rtrancl_induct) (auto simp: closed_graph_def parents_all_parents)
qed

lemma insert_parents_contained:
  assumes "world_ok ops w S W R V" "graph_ok g w" "set ps \<subseteq> graph_set g"
  shows "insert_parents_fuel n ops ps (g, w) = Some (Inr (g, w))"
  using assms(3) by (induction ps) (auto simp: hg_contains_iff [OF assms(1,2)])

lemma insert_ancestors_contained:
  assumes inv: "hist_inv ops g w (add_mset a S) W R V" and par: "set (all_parents a (mem w)) \<subseteq> graph_set g"
    and ins: "insert_ancestors ops a (g, w) = Some (Inr (k, g', w'))"
  shows "graph_set g' = insert a (graph_set g)"
proof -
  have "insert_parents_fuel (length (mem w)) ops (all_parents a (mem w)) (g, w) = Some (Inr (g, w))"
    using inv insert_parents_contained [OF _ _ par] unfolding hist_inv_def by blast
  moreover obtain x g2 w2 where x: "insert_node ops a (g, w\<lparr>mem := relrc_clone a (mem w)\<rparr>) = (x, g2, w2)" by (metis prod_cases3)
  ultimately have "x = Some k" "g' = g2" using ins by (auto simp: insert_ancestors_def split: option.splits)
  with insert_clone_drop [OF inv x] have "hist_ext g w {a} g' (relrc_drop ops a w2)" "get_node g' k = Some a" by simp_all
  moreover from this have "graph_set g \<subseteq> graph_set g'" "a \<in> graph_set g'"
    by (auto simp: hist_ext_def graph_set_iff dest: graph_set_mono)
  ultimately show ?thesis by (auto simp: hist_ext_def)
qed

end

end
