(* ===== verification/History_Queries.thy ===== *)
theory History_Queries
  imports History_Correct
begin

section \<open>Queries, clones and drops of history graphs\<close>

text \<open>
  The edge queries of \<open>history.rs\<close> against the memory: an edge id denotes the incoming edge at a
  position of a graph node whose source is in the graph as well; outgoing and incoming edges
  are two views of the same set of edges. Cloning a graph duplicates its handles and dropping a
  graph releases them.
\<close>

lemma get_node_inj:
  assumes "world_ok ops w S W R V" "graph_ok g w" "get_node g k = Some a" "get_node g j = Some a"
  shows "k = j"
  using assms(3,4) get_node_id_iff [OF assms(1,2), of a] by (metis option.inject)

lemma parent_at_abs: "parent_at a i h = (case abs_graph h a of None \<Rightarrow> None
  | Some (v, ps) \<Rightarrow> if i < length ps then Some (fst (ps ! i)) else None)"
  by (auto simp: parent_at_def incoming_at_def n_incoming_def all_incoming_def abs_graph_def abs_node_def
      split: option.splits)

lemma parent_at_abs_cong: "abs_graph h' = abs_graph h \<Longrightarrow> parent_at a i h' = parent_at a i h"
  by (simp add: parent_at_abs)

lemma edge_source_iff:
  assumes ok: "world_ok ops w S W R V" and g: "graph_ok g w"
  shows "edge_source g e w = Some k \<longleftrightarrow>
    (\<exists>a p. get_node g (eid_target e) = Some a \<and> parent_at a (eid_index e) (mem w) = Some p \<and> get_node g k = Some p)"
  by (auto simp: edge_source_def get_edge_def parent_at_def hg_contains_iff [OF ok g] get_node_id_iff [OF ok g]
      graph_set_iff split: option.splits if_splits)

lemma contains_edge_iff:
  assumes ok: "world_ok ops w S W R V" and g: "graph_ok g w"
  shows "contains_edge g e w \<longleftrightarrow> (\<exists>k. edge_source g e w = Some k)"
proof -
  have "contains_edge g e w \<longleftrightarrow>
      (\<exists>a p. get_node g (eid_target e) = Some a \<and> parent_at a (eid_index e) (mem w) = Some p \<and> p \<in> graph_set g)"
    by (auto simp: contains_edge_def get_edge_def parent_at_def hg_contains_iff [OF ok g] split: option.splits if_splits)
  then show ?thesis by (auto simp: edge_source_iff [OF ok g] graph_set_iff)
qed

lemma EdgeId_eq_iff: "\<lparr>eid_target = t, eid_index = i\<rparr> = e \<longleftrightarrow> t = eid_target e \<and> i = eid_index (e :: 'k EdgeId)"
  by (cases e) auto

lemma incoming_edges_iff:
  "e \<in> set (incoming_edges g k w) \<longleftrightarrow> eid_target e = k \<and> contains_edge g e w"
proof
  assume e: "eid_target e = k \<and> contains_edge g e w"
  then obtain a where "get_node g k = Some a" "eid_index e < n_incoming a (mem w)"
    by (auto simp: contains_edge_def get_edge_def incoming_at_def split: option.splits if_splits)
  moreover have "e = \<lparr>eid_target = k, eid_index = eid_index e\<rparr>" using e by simp
  ultimately show "e \<in> set (incoming_edges g k w)" using e by (auto simp: incoming_edges_def intro: image_eqI [of _ _ "eid_index e"])
qed (auto simp: incoming_edges_def)

lemma distinct_incoming_edges: "distinct (incoming_edges g k w)"
  by (auto simp: incoming_edges_def distinct_map inj_on_def)

lemma hg_parents_iff:
  assumes ok: "world_ok ops w S W R V" and g: "graph_ok g w"
  shows "k \<in> set (hg_parents g j w) \<longleftrightarrow> (\<exists>i. edge_source g \<lparr>eid_target = j, eid_index = i\<rparr> w = Some k)"
proof -
  have "k \<in> set (hg_parents g j w) \<longleftrightarrow> (\<exists>e. eid_target e = j \<and> edge_source g e w = Some k)"
    by (auto simp: hg_parents_def incoming_edges_iff contains_edge_iff [OF ok g])
  also have "\<dots> \<longleftrightarrow> (\<exists>i. edge_source g \<lparr>eid_target = j, eid_index = i\<rparr> w = Some k)"
    by (metis EdgeId.select_convs(1) EdgeId.surjective old.unit.exhaust)
  finally show ?thesis .
qed

context slot_map
begin

lemma outgoing_edges_world:
  assumes inv: "hist_inv ops g w S W R V" and a: "get_node g k = Some a"
  shows "snd (outgoing_edges ops g k w) = snd (n_outgoing ops a w)"
    and "hist_inv ops g (snd (outgoing_edges ops g k w)) S W R V"
    and "abs_graph (mem (snd (outgoing_edges ops g k w))) = abs_graph (mem w)"
proof -
  have ok: "world_ok ops w (graph_own g + S) W (add_mset (hg_registry g) R) V" and g: "graph_ok g w"
    using inv by (simp_all add: hist_inv_def)
  have live: "alive (mem w) a" using owned_strong [OF ok, of a] a by (auto simp: graph_set_iff)
  obtain edges h where out: "all_outgoing a (mem w) = (edges, h)" by fastforce
  show eq: "snd (outgoing_edges ops g k w) = snd (n_outgoing ops a w)"
    by (simp add: outgoing_edges_def n_outgoing_def a out Let_def)
  show "abs_graph (mem (snd (outgoing_edges ops g k w))) = abs_graph (mem w)"
    unfolding eq by (rule abs_n_outgoing [OF slot_map_axioms ok live])
  have ok': "world_ok ops (snd (n_outgoing ops a w)) (graph_own g + S) W (add_mset (hg_registry g) R) V"
    by (rule n_outgoing_ok [OF ok live])
  let ?ts = "map (\<lambda>e. DropRelRc (e_target e)) edges"
  have "world_ok ops (w\<lparr>mem := h\<rparr>) (tasks_own task_strong ?ts + (graph_own g + S)) (tasks_own task_weak ?ts + W)
      (add_mset (hg_registry g) R) (tasks_own task_wreg ?ts + V)"
    using all_outgoing_ok [OF ok live out] by (simp only: tasks_own_strong_refs add_0)
  from drop_tasks_effect [OF slot_map_axioms this]
  have "drop_effect (w\<lparr>mem := h\<rparr>) (snd (n_outgoing ops a w))" by (simp add: n_outgoing_def out)
  from graph_ok_effect [OF _ this ok'] g show "hist_inv ops g (snd (outgoing_edges ops g k w)) S W R V"
    unfolding eq using ok' by (simp add: hist_inv_def)
qed

lemma outgoing_edges_iff:
  assumes inv: "hist_inv ops g w S W R V"
  shows "e \<in> set (fst (outgoing_edges ops g k w)) \<longleftrightarrow> edge_source g e w = Some k"
proof (cases "get_node g k")
  case None
  have ok: "world_ok ops w (graph_own g + S) W (add_mset (hg_registry g) R) V" and g: "graph_ok g w"
    using inv by (simp_all add: hist_inv_def)
  show ?thesis using None by (simp add: outgoing_edges_def edge_source_iff [OF ok g])
next
  case (Some a)
  have ok: "world_ok ops w (graph_own g + S) W (add_mset (hg_registry g) R) V" and g: "graph_ok g w"
    using inv by (simp_all add: hist_inv_def)
  have live: "alive (mem w) a" using owned_strong [OF ok, of a] Some by (auto simp: graph_set_iff)
  obtain edges h where out: "all_outgoing a (mem w) = (edges, h)" by fastforce
  have id: "get_node_id g b (w\<lparr>mem := h\<rparr>) = get_node_id g b w" for b by (simp add: get_node_id_def hg_get_id_def)
  have "e \<in> set (fst (outgoing_edges ops g k w)) \<longleftrightarrow>
      (\<exists>x\<in>set edges. get_node g (eid_target e) = Some (e_target x) \<and> eid_index e = e_index x)"
    by (auto simp: outgoing_edges_def Some out id get_node_id_iff [OF ok g] EdgeId_eq_iff Let_def)
  also have "\<dots> \<longleftrightarrow> (\<exists>b. get_node g (eid_target e) = Some b \<and> parent_at b (eid_index e) (mem w) = Some a)"
    unfolding all_outgoing_exact(1) [OF ok live out] by (auto intro: exI [of _ "\<lparr>e_index = eid_index e, e_target = _\<rparr>"])
  also have "\<dots> \<longleftrightarrow> edge_source g e w = Some k"
    using get_node_inj [OF ok g] Some by (auto simp: edge_source_iff [OF ok g])
  finally show ?thesis .
qed

lemma outgoing_edges_target:
  assumes inv: "hist_inv ops g w S W R V" and out: "outgoing_edges ops g k w = (es, w')" and e: "e \<in> set es"
  shows "edge_target g e w' = Some (eid_target e)"
proof -
  have ok: "world_ok ops w (graph_own g + S) W (add_mset (hg_registry g) R) V" and g: "graph_ok g w"
    using inv by (simp_all add: hist_inv_def)
  have src: "edge_source g e w = Some k" using outgoing_edges_iff [OF inv, of e k] out e by simp
  then obtain a where "get_node g k = Some a" by (auto simp: edge_source_iff [OF ok g])
  note w' = outgoing_edges_world(2,3) [OF inv this]
  then have ok': "world_ok ops w' (graph_own g + S) W (add_mset (hg_registry g) R) V" and g': "graph_ok g w'"
    and abs: "abs_graph (mem w') = abs_graph (mem w)" by (simp_all add: out hist_inv_def)
  have "edge_source g e w' = Some k"
    using src parent_at_abs_cong [OF abs] by (simp add: edge_source_iff [OF ok g] edge_source_iff [OF ok' g'])
  then show ?thesis using contains_edge_iff [OF ok' g'] by (simp add: edge_target_def)
qed

lemma hg_children_iff:
  assumes inv: "hist_inv ops g w S W R V"
  shows "j \<in> set (fst (hg_children ops g k w)) \<longleftrightarrow> k \<in> set (hg_parents g j w)"
proof -
  have ok: "world_ok ops w (graph_own g + S) W (add_mset (hg_registry g) R) V" and g: "graph_ok g w"
    using inv by (simp_all add: hist_inv_def)
  obtain es w' where out: "outgoing_edges ops g k w = (es, w')" by fastforce
  note tgt = outgoing_edges_target [OF inv out]
  have "j \<in> set (fst (hg_children ops g k w)) \<longleftrightarrow> (\<exists>e\<in>set es. eid_target e = j)"
    by (auto simp: hg_children_def out tgt)
  also have "\<dots> \<longleftrightarrow> (\<exists>e. edge_source g e w = Some k \<and> eid_target e = j)"
    using outgoing_edges_iff [OF inv, of _ k] out by auto
  also have "\<dots> \<longleftrightarrow> (\<exists>i. edge_source g \<lparr>eid_target = j, eid_index = i\<rparr> w = Some k)"
    by (metis EdgeId.select_convs(1) EdgeId.surjective old.unit.exhaust)
  finally show ?thesis by (simp add: hg_parents_iff [OF ok g])
qed

subsection \<open>Creating, cloning and dropping a graph\<close>

lemma history_new_ok:
  assumes ok: "world_ok ops w (mset ns + S) W (add_mset r R) V" and new: "history_new ops ns r w = (g, w')"
  shows "hist_inv ops g w' S W R V \<and> hg_registry g = r \<and> graph_set g = {a\<in>set ns. \<not> foreign r a (mem w)}"
proof -
  let ?g = "\<lparr>hg_nodes = sec_new, hg_registry = r\<rparr> :: 'k HistoryGraph"
  have own: "graph_own ?g = {#}" "graph_set ?g = {}"
    by (simp_all add: graph_own_def graph_set_def sec_values_def sec_new_def map_filter_simps)
  have "deref (regs w) r \<noteq> None"
    using owned_reg [OF ok, of r] alive_iff_deref [OF world_okD(6) [OF ok], of r] by auto
  then have "graph_ok ?g w" by (simp add: graph_ok_def sec_new_def)
  with ok have "hist_inv ops ?g w (mset ns + S) W R V" by (simp add: hist_inv_def own)
  from insert_nodes_ok [OF this] new own show ?thesis by (simp add: history_new_def)
qed

lemma history_clone_ok:
  assumes inv: "hist_inv ops g w S W R V" and cl: "history_clone g w = (g', w')"
  shows "g' = g" "hist_inv ops g w' (graph_own g' + S) W (add_mset (hg_registry g') R) V"
proof -
  have ok: "world_ok ops w (graph_own g + S) W (add_mset (hg_registry g) R) V" and g: "graph_ok g w"
    using inv by (simp_all add: hist_inv_def)
  have "\<forall>a\<in>set (sec_values (hg_nodes g)). alive (mem w) a"
    using owned_strong [OF ok] by (simp add: graph_set_def)
  from strong.dup_all_ok [OF ok this]
  have 1: "world_ok ops (w\<lparr>mem := fold rc_clone (sec_values (hg_nodes g)) (mem w)\<rparr>) (graph_own g + (graph_own g + S)) W
      (add_mset (hg_registry g) R) V" (is "world_ok ops ?w _ _ _ _")
    by (simp add: fold_mem_clone graph_own_def)
  have "alive (regs ?w) (hg_registry g)" using owned_reg [OF ok, of "hg_registry g"] by simp
  from reg.dup_ok [OF 1 this] cl
  have "world_ok ops w' (graph_own g + (graph_own g + S)) W (add_mset (hg_registry g) (add_mset (hg_registry g) R)) V"
    by (auto simp: history_clone_def reg_clone_def)
  moreover have "graph_ok g w'" using g cl by (auto simp: history_clone_def graph_ok_def reg_entry_def heap_simps)
  ultimately show "g' = g" "hist_inv ops g w' (graph_own g' + S) W (add_mset (hg_registry g') R) V"
    using cl by (simp_all add: history_clone_def hist_inv_def)
qed

lemma history_drop_ok:
  assumes inv: "hist_inv ops g w S W R V"
  shows "world_ok ops (history_drop ops g w) S W R V"
    and "abs_graph (mem (history_drop ops g w)) = collect_garbage S (abs_graph (mem w))"
proof -
  have "world_ok ops w (mset (sec_values (hg_nodes g)) + S) W (add_mset (hg_registry g) R) V"
    using inv by (simp add: hist_inv_def graph_own_def)
  note drops = drop_relrcs_ok [OF slot_map_axioms this]
  show "world_ok ops (history_drop ops g w) S W R V"
    unfolding history_drop_def by (rule rc_registry_drop_ok [OF drops(1)])
  show "abs_graph (mem (history_drop ops g w)) = collect_garbage S (abs_graph (mem w))"
    using drops(3) by (simp add: history_drop_def abs_rc_registry_drop)
qed

subsection \<open>Summaries\<close>

lemma insert_node_result:
  assumes inv: "hist_inv ops g w (add_mset a S) W R V" and ins: "insert_node ops a (g, w) = (x, g', w')"
  shows "hist_inv ops g' w' S W R V \<and> hg_registry g' = hg_registry g \<and> get_node g \<subseteq>\<^sub>m get_node g' \<and>
    (x = None \<longleftrightarrow> a \<notin> graph_set g \<and> foreign (hg_registry g) a (mem w)) \<and>
    (case x of None \<Rightarrow> graph_set g' = graph_set g
     | Some k \<Rightarrow> get_node g' k = Some a \<and> graph_set g' = insert a (graph_set g))"
proof -
  note step = insert_nodes_step [OF inv ins]
  have ok: "world_ok ops w (add_mset a (graph_own g + S)) W (add_mset (hg_registry g) R) V" and g: "graph_ok g w"
    using inv by (simp_all add: hist_inv_def)
  have "a \<in> graph_set g \<Longrightarrow> x \<noteq> None"
    using insert_node_contained(1) [OF ok g] ins by (auto simp: graph_set_iff)
  moreover have "a \<notin> graph_set g \<Longrightarrow> x = None \<longleftrightarrow> foreign (hg_registry g) a (mem w)"
    using insert_node_foreign(1) [OF ok g _ _ ins] insert_node_new(4) [OF ok g _ _ ins] by blast
  moreover have "graph_set g \<subseteq> graph_set g'" using step graph_set_mono by blast
  ultimately show ?thesis
    using step insert_node_inv [OF inv ins] by (cases x) (auto simp: hist_ext_def graph_set_iff split: if_splits)
qed

lemma insert_ancestors_result:
  assumes "hist_inv ops g w (add_mset a S) W R V"
  shows "\<exists>res. insert_ancestors ops a (g, w) = Some res \<and>
    (case res of
       Inl p \<Rightarrow> p = Expect ''node not registered'' \<and>
         (\<exists>b r'. (b, a) \<in> (parents (mem w))\<^sup>* \<and> node_registry b (mem w) = Some r' \<and> r' \<noteq> hg_registry g)
     | Inr (k, g', w') \<Rightarrow> hist_inv ops g' w' S W R V \<and> get_node g' k = Some a \<and>
         get_node g \<subseteq>\<^sub>m get_node g' \<and> abs_graph (mem w') = abs_graph (mem w) \<and>
         graph_set g' \<subseteq> graph_set g \<union> {b. (b, a) \<in> (parents (mem w))\<^sup>*} \<and>
         (closed_graph g (mem w) \<longrightarrow> graph_set g' = graph_set g \<union> {b. (b, a) \<in> (parents (mem w))\<^sup>*}))"
proof -
  from insert_ancestors_spec [OF assms] obtain res where res: "insert_ancestors ops a (g, w) = Some res"
    and spec: "case res of Inl p \<Rightarrow> not_registered (ancestors_or_self (mem w) a) g w p
      | Inr (k, g', w') \<Rightarrow> get_node g' k = Some a \<and> inserted ops (ancestors_or_self (mem w) a) g w S W R V g' w'" by blast
  show ?thesis
  proof (cases res)
    case (Inl p)
    with res spec show ?thesis by (auto simp: not_registered_def)
  next
    case (Inr r)
    obtain k g' w' where r: "r = (k, g', w')" by (cases r) auto
    with spec Inr have 1: "get_node g' k = Some a" "hist_inv ops g' w' S W R V"
      "hist_ext g w (ancestors_or_self (mem w) a) g' w'" "closed_graph g (mem w) \<longrightarrow> closed_graph g' (mem w')"
      by (simp_all add: inserted_def)
    have a: "a \<in> graph_set g'" using 1(1) by (auto simp: graph_set_iff)
    have par: "parents (mem w') = parents (mem w)"
      by (rule parents_abs_cong) (use 1(3) in \<open>simp add: hist_ext_def\<close>)
    have "ancestors_or_self (mem w) a \<subseteq> graph_set g'" if "closed_graph g (mem w)"
      using closed_graph_ancestors [OF _ a, of "mem w'"] 1(4) that by (simp add: par)
    moreover have "graph_set g \<subseteq> graph_set g'" "graph_set g' \<subseteq> graph_set g \<union> ancestors_or_self (mem w) a"
      using 1(3) by (simp_all add: hist_ext_def graph_set_mono)
    ultimately have "closed_graph g (mem w) \<longrightarrow> graph_set g' = graph_set g \<union> ancestors_or_self (mem w) a" by blast
    then show ?thesis using res Inr r 1 by (simp add: hist_ext_def)
  qed
qed

lemma insert_ancestors_succeeds:
  assumes inv: "hist_inv ops g w (add_mset a S) W R V" and own: "\<And>b. \<not> foreign (hg_registry g) b (mem w)"
  shows "\<exists>k g' w'. insert_ancestors ops a (g, w) = Some (Inr (k, g', w')) \<and> get_node g' k = Some a \<and>
    inserted ops (ancestors_or_self (mem w) a) g w S W R V g' w'"
proof -
  from insert_ancestors_spec [OF inv] obtain res where res: "insert_ancestors ops a (g, w) = Some res"
    and spec: "case res of Inl p \<Rightarrow> not_registered (ancestors_or_self (mem w) a) g w p
      | Inr (k, g', w') \<Rightarrow> get_node g' k = Some a \<and> inserted ops (ancestors_or_self (mem w) a) g w S W R V g' w'" by blast
  with own show ?thesis by (cases res) (auto simp: not_registered_def)
qed

lemma graph_edges_views:
  assumes inv: "hist_inv ops g w S W R V" and out: "outgoing_edges ops g k w = (es, w')"
  shows "(e \<in> set es \<longleftrightarrow> edge_source g e w = Some k) \<and>
    (e \<in> set (incoming_edges g j w) \<longleftrightarrow> edge_target g e w = Some j) \<and>
    (edge_target g e w \<noteq> None \<longleftrightarrow> edge_source g e w \<noteq> None) \<and>
    hist_inv ops g w' S W R V \<and> abs_graph (mem w') = abs_graph (mem w)"
proof -
  have ok: "world_ok ops w (graph_own g + S) W (add_mset (hg_registry g) R) V" and g: "graph_ok g w"
    using inv by (simp_all add: hist_inv_def)
  have "hist_inv ops g w' S W R V \<and> abs_graph (mem w') = abs_graph (mem w)"
  proof (cases "get_node g k")
    case None
    then show ?thesis using out inv by (simp add: outgoing_edges_def)
  next
    case (Some a)
    from outgoing_edges_world(2,3) [OF inv this] out show ?thesis by simp
  qed
  moreover have "e \<in> set es \<longleftrightarrow> edge_source g e w = Some k" using outgoing_edges_iff [OF inv, of e k] out by simp
  ultimately show ?thesis using contains_edge_iff [OF ok g, of e] by (auto simp: incoming_edges_iff edge_target_def)
qed

end

end
