(* ===== verification/Ancestors.thy ===== *)
theory Ancestors
  imports Liveness
begin

section \<open>The ancestor iterator\<close>

text \<open>
  \<open>all_ancestors\<close> returns distinct ancestors, the node itself first, whatever the graph. It
  returns all of them when no ancestor is reached twice (\<open>unshared\<close>). When one is, the
  closure answers \<open>None\<close> at the second visit, which ends the iteration although the queue may
  still hold unvisited nodes: \<open>Examples\<close> has a graph on which an ancestor is missed.
\<close>

abbreviation ancestors :: "('n, 'e) node_heap \<Rightarrow> addr \<Rightarrow> addr set" where
  "ancestors h a \<equiv> {x. (x, a) \<in> (parents h)\<^sup>*}"

lemma collect_ancestors_simps:
  "collect_ancestors h (seen, []) = []"
  "collect_ancestors h (seen, n # ns) =
     (if n \<in> set seen then [] else n # collect_ancestors h (n # seen, ns @ all_parents n h))"
  by (simp_all add: collect_ancestors.simps [of h "(seen, _)"] ancestors_next_def as_ptr_def)

lemma collect_ancestors_induct [case_names Nil Seen New]:
  assumes "\<And>seen. P seen []"
    and "\<And>seen n ns. n \<in> set seen \<Longrightarrow> P seen (n # ns)"
    and "\<And>seen n ns. n \<notin> set seen \<Longrightarrow> P (n # seen) (ns @ all_parents n h) \<Longrightarrow> P seen (n # ns)"
  shows "P seen stack"
proof -
  have "P (fst st) (snd st)" if "h' = h" for st and h' :: "('a, 'b) node_heap"
    using that
  proof (induction h' st rule: collect_ancestors.induct)
    case (1 h' st)
    obtain seen stack where st: "st = (seen, stack)" by fastforce
    show ?case
    proof (cases stack)
      case Nil
      then show ?thesis using assms(1) st by simp
    next
      case (Cons n ns)
      show ?thesis
      proof (cases "n \<in> set seen")
        case True
        then show ?thesis using assms(2) st Cons by simp
      next
        case False
        have "ancestors_next h' st = (Some n, (n # seen, ns @ all_parents n h'))"
          using False st Cons by (simp add: ancestors_next_def as_ptr_def)
        from "1.IH" [OF this [symmetric] refl "1.prems"] "1.prems" False assms(3) st Cons show ?thesis by simp
      qed
    qed
  qed
  from this [of h "(seen, stack)"] show ?thesis by simp
qed

lemma collect_ancestors_distinct:
  "distinct (collect_ancestors h (seen, stack)) \<and> set (collect_ancestors h (seen, stack)) \<inter> set seen = {}"
  by (induction seen stack rule: collect_ancestors_induct [where h = h]) (auto simp: collect_ancestors_simps)

lemma collect_ancestors_sound:
  "set (collect_ancestors h (seen, stack)) \<subseteq> (\<Union>s\<in>set stack. ancestors h s)"
proof (induction seen stack rule: collect_ancestors_induct [where h = h])
  case (New seen n ns)
  have "ancestors h p \<subseteq> ancestors h n" if "p \<in> set (all_parents n h)" for p
    using that parents_all_parents [of p n h] by (auto intro: rtrancl_into_rtrancl)
  with New show ?case by (auto simp: collect_ancestors_simps)
qed (simp_all add: collect_ancestors_simps)

lemma all_ancestors_sound: "set (all_ancestors a h) \<subseteq> ancestors h a"
  using collect_ancestors_sound [of h "[]" "[a]"] by (simp add: all_ancestors_def)

lemma all_ancestors_distinct: "distinct (all_ancestors a h)"
  using collect_ancestors_distinct [of h "[]" "[a]"] by (simp add: all_ancestors_def)

lemma all_ancestors_self: "all_ancestors a h = a # tl (all_ancestors a h)"
  by (simp add: all_ancestors_def collect_ancestors_simps)

subsection \<open>Completeness when no ancestor is shared\<close>

definition unshared :: "('n, 'e) node_heap \<Rightarrow> addr \<Rightarrow> bool" where
  "unshared h a \<longleftrightarrow>
     (\<forall>x\<in>ancestors h a. distinct (all_parents x h) \<and>
        (\<forall>y\<in>ancestors h a. x \<noteq> y \<longrightarrow> set (all_parents x h) \<inter> set (all_parents y h) = {}))"

lemma unshared_unique_child:
  "unshared h a \<Longrightarrow> x \<in> ancestors h a \<Longrightarrow> y \<in> ancestors h a \<Longrightarrow>
   p \<in> set (all_parents x h) \<Longrightarrow> p \<in> set (all_parents y h) \<Longrightarrow> x = y"
  unfolding unshared_def by blast

text \<open>
  The state of an iteration that has met no node twice: seen and queued nodes are distinct, and
  each but the first node has a seen child.
\<close>

definition search_inv :: "('n, 'e) node_heap \<Rightarrow> addr \<Rightarrow> addr list \<Rightarrow> addr list \<Rightarrow> bool" where
  "search_inv h a seen stack \<longleftrightarrow>
     distinct (seen @ stack) \<and> set (seen @ stack) \<subseteq> ancestors h a \<and>
     (\<forall>p\<in>set (seen @ stack). p \<noteq> a \<longrightarrow> (\<exists>x\<in>set seen. p \<in> set (all_parents x h))) \<and>
     (\<forall>x\<in>set seen. set (all_parents x h) \<subseteq> set (seen @ stack))"

lemma search_inv_step:
  assumes tree: "unshared h a" and acyc: "acyclic (parents h)"
    and inv: "search_inv h a seen (n # ns)"
  shows "n \<notin> set seen" "search_inv h a (n # seen) (ns @ all_parents n h)"
proof -
  show n: "n \<notin> set seen" using inv by (auto simp: search_inv_def)
  have anc: "n \<in> ancestors h a" using inv by (auto simp: search_inv_def)
  have new: "p \<notin> set (seen @ n # ns)" if p: "p \<in> set (all_parents n h)" for p
  proof
    assume "p \<in> set (seen @ n # ns)"
    have "(p, n) \<in> parents h" using p by (simp add: parents_all_parents)
    then have "p \<noteq> a" using anc acyc by (metis acyclic_def mem_Collect_eq rtrancl_into_trancl2)
    moreover have "\<forall>p\<in>set (seen @ n # ns). p \<noteq> a \<longrightarrow> (\<exists>x\<in>set seen. p \<in> set (all_parents x h))"
      using inv unfolding search_inv_def by blast
    ultimately obtain x where "x \<in> set seen" "p \<in> set (all_parents x h)"
      using \<open>p \<in> set (seen @ n # ns)\<close> by blast
    moreover from this inv have "x \<in> ancestors h a" by (auto simp: search_inv_def)
    ultimately have "x = n" using unshared_unique_child [OF tree] anc p by blast
    with \<open>x \<in> set seen\<close> n show False by simp
  qed
  have "set (all_parents n h) \<subseteq> ancestors h a"
    using anc by (auto simp: parents_all_parents [symmetric] intro: converse_rtrancl_into_rtrancl)
  moreover have "distinct (all_parents n h)" using tree anc by (simp add: unshared_def)
  ultimately show "search_inv h a (n # seen) (ns @ all_parents n h)"
    using inv new unfolding search_inv_def by auto
qed

lemma collect_ancestors_complete:
  assumes tree: "unshared h a" and acyc: "acyclic (parents h)"
  shows "search_inv h a seen stack \<Longrightarrow>
    \<exists>vs. set vs = set seen \<union> set (collect_ancestors h (seen, stack)) \<and> set stack \<subseteq> set vs \<and> search_inv h a vs []"
proof (induction seen stack rule: collect_ancestors_induct [where h = h])
  case (Nil seen)
  then show ?case by (auto simp: collect_ancestors_simps)
next
  case (Seen seen n ns)
  then show ?case using search_inv_step(1) [OF tree acyc] by blast
next
  case (New seen n ns)
  from New.IH [OF search_inv_step(2) [OF tree acyc New.prems]] New.hyps
  show ?case by (auto simp: collect_ancestors_simps)
qed

lemma all_ancestors_complete:
  assumes tree: "unshared h a" and acyc: "acyclic (parents h)"
  shows "set (all_ancestors a h) = ancestors h a"
proof
  have "search_inv h a [] [a]" by (simp add: search_inv_def)
  from collect_ancestors_complete [OF tree acyc this]
  obtain vs where vs: "set vs = set (all_ancestors a h)" "a \<in> set vs" "search_inv h a vs []"
    by (auto simp: all_ancestors_def)
  have "x \<in> set vs" if "(x, a) \<in> (parents h)\<^sup>*" for x
    using that
  proof (induction rule: converse_rtrancl_induct)
    case (step y z)
    with vs(3) show ?case by (auto simp: search_inv_def parents_all_parents)
  qed (rule vs(2))
  with vs(1) show "ancestors h a \<subseteq> set (all_ancestors a h)" by auto
qed (rule all_ancestors_sound)

end
