(* ===== verification/Examples.thy ===== *)
theory Examples
  imports History_Queries Ancestors
begin

section \<open>Concrete programs\<close>

text \<open>
  Small programs, run on the generational slot map and the allocator that reuses the first free
  cell. They are the inputs at which the hypotheses of the theorems are shown to hold.
\<close>

text \<open>
  Two parents 0 and 1, a child 2 of both (as in the README), a registry that knows the child.
  The program holds the parent 0, the child and the registry.
\<close>

type_synonym ex_world = "(nat, nat, gen_key, gen_slots) world"

definition family :: "(nat, nat) node_heap" where
  "family = snd (with_parents first_free 30 [(0, 7), (1, 8)]
     (relrc_clone 0 (snd (relrc_new first_free 20 (snd (relrc_new first_free 10 []))))))"

definition family_world :: ex_world where
  "family_world = snd (try_register_in gen_ops 2 0
     (snd (rc_registry first_free (registry_new gen_ops) \<lparr>mem = family, regs = []\<rparr>)))"

text \<open>Equations without local bindings, for evaluation by the simplifier.\<close>

lemma eval_equations:
  "rc_new al y g = (al (occupied g), put (al (occupied g)) \<lparr>strong = 1, weak = 1, payload = Some y\<rparr> g)"
  "relrc_new al x h = (al (occupied h), put (al (occupied h)) \<lparr>strong = 1, weak = 1, payload = Some (InnerData_new x)\<rparr> h)"
  "rc_cyclic_alloc al h = (al (occupied h), put (al (occupied h)) \<lparr>strong = 0, weak = 1, payload = None\<rparr> h)"
  "build_incoming wn ((p, v) # ps) h =
     (InnerEdgeData_new v p wn # fst (build_incoming wn ps (weak_clone wn h)), snd (build_incoming wn ps (weak_clone wn h)))"
  "register_outgoing_edges i (e # es) h = register_outgoing_edges (Suc i) es
     (set_payload (source e) (push_outgoing (WeakEdge_new i (target e))) (weak_clone (target e) h))"
  "with_parents al x ps h = (case rc_cyclic_alloc al h of (a, h1) \<Rightarrow>
     (case build_incoming a ps (weak_clone a h1) of (es, h3) \<Rightarrow>
       (a, register_outgoing_edges 0 es (rc_cyclic_init a (InnerData_with_incoming x es) (weak_drop a h3)))))"
  by (simp_all add: relrc_new_def rc_new_def rc_cyclic_alloc_def inner_edge_downgrade_def with_parents_def Let_def
      case_prod_unfold)

declare build_incoming.simps(2) [simp del] register_outgoing_edges.simps(2) [simp del]

lemmas eval_simps = eval_equations InnerData_new_def rc_cyclic_init_def rc_clone_def rc_downgrade_def
  weak_clone_def weak_drop_def rc_release_def rc_take_def set_payload_def cell_eval
  InnerData_with_incoming_def push_outgoing_def InnerEdgeData_new_def WeakEdge_new_def relrc_clone_def
  strong_count_def

lemma family_eval: "family =
  [\<lparr>strong = 2, weak = 1, payload = Some \<lparr>node_value = 10, incoming = [],
       outgoing = [\<lparr>we_index = 0, we_target = 2\<rparr>], registry = None\<rparr>\<rparr>,
   \<lparr>strong = 1, weak = 1, payload = Some \<lparr>node_value = 20, incoming = [],
       outgoing = [\<lparr>we_index = 1, we_target = 2\<rparr>], registry = None\<rparr>\<rparr>,
   \<lparr>strong = 1, weak = 5, payload = Some \<lparr>node_value = 30,
       incoming = [\<lparr>edge_value = 7, source = 0, target = 2\<rparr>, \<lparr>edge_value = 8, source = 1, target = 2\<rparr>],
       outgoing = [], registry = None\<rparr>\<rparr>]"
  by (simp add: family_def eval_simps)

lemma family_reachable:
  "reachable first_free gen_ops (\<lparr>mem = family, regs = []\<rparr>, {#0, 2#}, {#}, {#})"
proof -
  let ?h1 = "snd (relrc_new first_free 10 []) :: (nat, nat) node_heap"
  let ?h2 = "snd (relrc_new first_free 20 ?h1)"
  have 1: "reachable first_free gen_ops (\<lparr>mem = ?h1, regs = []\<rparr>, {#0#}, {#}, {#})"
    using reachable_new [OF reachable_start, where v = 10 and al = first_free and a = 0 and h = ?h1]
    by (simp add: eval_simps)
  have 2: "reachable first_free gen_ops (\<lparr>mem = ?h2, regs = []\<rparr>, {#1, 0#}, {#}, {#})"
    using reachable_new [OF 1, where v = 20 and a = 1 and h = ?h2] by (simp add: eval_simps)
  have 3: "reachable first_free gen_ops (\<lparr>mem = relrc_clone 0 ?h2, regs = []\<rparr>, mset (map fst [(0, 7 :: nat), (1, 8)]) + {#0#}, {#}, {#})"
    using reachable_clone [OF 2, where a = 0] by (simp add: eval_simps add_mset_commute)
  have "with_parents first_free 30 [(0, 7), (1, 8)] (relrc_clone 0 ?h2) = (2, family)"
    by (simp add: eval_simps family_eval)
  from reachable_with_parents [OF 3, where v = 30 and a = 2 and h = family] this show ?thesis
    by (simp add: add_mset_commute)
qed

lemmas registry_eval_simps = rc_registry_def try_register_in_def try_set_register_def
  node_registry_def with_registry_mut_def add_node_def get_id_def registry_new_def as_ptr_def relrc_downgrade_def
  slotmap_insert_def slotmap_with_key_def gen_ops_def gen_alloc_key_def

lemma family_world_eval: "family_world =
  \<lparr>mem = family[2 := \<lparr>strong = 1, weak = 6, payload = Some \<lparr>node_value = 30,
       incoming = [\<lparr>edge_value = 7, source = 0, target = 2\<rparr>, \<lparr>edge_value = 8, source = 1, target = 2\<rparr>],
       outgoing = [], registry = Some 0\<rparr>\<rparr>],
   regs = [\<lparr>strong = 1, weak = 2, payload = Some \<lparr>reg_nodes = \<lparr>slots = [(1, True)], vals = [(0, 1) \<mapsto> 2]\<rparr>,
       ptr_to_id = [2 \<mapsto> (0, 1)]\<rparr>\<rparr>]\<rparr>"
  by (simp add: family_world_def family_eval eval_simps registry_eval_simps)

definition family_registry :: "(gen_key, gen_slots) Registry" where
  "family_registry = \<lparr>reg_nodes = \<lparr>slots = [(1, True)], vals = [(0, 1) \<mapsto> 2]\<rparr>, ptr_to_id = [2 \<mapsto> (0, 1)]\<rparr>"

lemma family_registry_at: "deref (regs family_world) 0 = Some family_registry"
  by (simp add: family_world_eval family_registry_def cell_eval)

lemma family_world_reachable: "reachable first_free gen_ops (family_world, {#0, 2#}, {#}, {#0#})"
proof -
  let ?w = "snd (rc_registry first_free (registry_new gen_ops) \<lparr>mem = family, regs = []\<rparr>)"
  have "reachable first_free gen_ops (?w, {#0, 2#}, {#}, {#0#})"
    using reachable_new_registry [OF family_reachable, where r = 0 and w' = ?w]
    by (simp add: eval_simps rc_registry_def)
  then show ?thesis unfolding family_world_def
    by (rule reachable_register) (simp_all add: eval_simps rc_registry_def family_eval)
qed

text \<open>The program that goes on to drop the child, the parent and the registry.\<close>

lemma family_dropped_reachable:
  "reachable first_free gen_ops
     (rc_registry_drop gen_ops 0 (relrc_drop gen_ops 0 (relrc_drop gen_ops 2 family_world)), {#}, {#}, {#})"
proof -
  have "reachable first_free gen_ops (relrc_drop gen_ops 2 family_world, {#0#}, {#}, {#0#})"
    using family_world_reachable by (intro reachable_drop) (simp add: add_mset_commute)
  then have "reachable first_free gen_ops (relrc_drop gen_ops 0 (relrc_drop gen_ops 2 family_world), {#}, {#}, {#0#})"
    by (rule reachable_drop)
  then show ?thesis by (rule reachable_step) (rule api_step.drop_registry)
qed

lemmas drop_eval_simps = unregister_def node_registry_def weak_upgrade_def with_registry_mut_def forget_node_def
  get_id_def registry_remove_def slotmap_remove_def slotmap_keys_def gen_ops_def gen_free_key_def field_drops_def
  as_ptr_def relweak_as_ptr_def

lemma family_drop_eval: "mem (relrc_drop gen_ops 2 family_world) =
  [\<lparr>strong = 1, weak = 1, payload = Some \<lparr>node_value = 10, incoming = [],
       outgoing = [\<lparr>we_index = 0, we_target = 2\<rparr>], registry = None\<rparr>\<rparr>,
   \<lparr>strong = 0, weak = 0, payload = None\<rparr>, \<lparr>strong = 0, weak = 1, payload = None\<rparr>]"
  by (simp add: relrc_drop_def family_world_eval family_eval eval_simps drop_eval_simps Let_def)

text \<open>The program that clones the first edge of the child and then drops the child.\<close>

definition edge_cloned :: ex_world where
  "edge_cloned = family_world\<lparr>mem := snd (inner_edge_clone \<lparr>edge_value = 7 :: nat, source = 0, target = 2\<rparr> (mem family_world))\<rparr>"

lemma edge_cloned_dropped_reachable:
  "reachable first_free gen_ops (relrc_drop gen_ops 2 edge_cloned, {#0, 0#}, {#2#}, {#0#})"
proof -
  let ?e = "\<lparr>edge_value = 7, source = 0, target = 2\<rparr> :: nat InnerEdgeData"
  have e: "?e \<in> set (all_incoming 2 (mem family_world))"
    by (simp add: all_incoming_def family_world_eval family_eval cell_eval)
  have "inner_edge_clone ?e (mem family_world) = (?e, snd (inner_edge_clone ?e (mem family_world)))"
    by (simp add: inner_edge_clone_def)
  from reachable_step [OF family_world_reachable api_step.edge_clone [OF e this]]
  have "reachable first_free gen_ops (edge_cloned, add_mset 2 {#0, 0#}, {#2#}, {#0#})"
    by (simp add: edge_cloned_def add_mset_commute)
  then show ?thesis by (rule reachable_drop)
qed

lemma edge_cloned_dropped_dead: "strong_count 2 (mem (relrc_drop gen_ops 2 edge_cloned)) = 0"
  by (simp add: relrc_drop_def edge_cloned_def inner_edge_clone_def family_world_eval family_eval eval_simps
      drop_eval_simps Let_def)

text \<open>The program that makes a node of a copy of the child's data.\<close>

definition twin_world :: ex_world where
  "twin_world = snd (copy_node first_free 2 family_world)"

lemma twin_world_run: "copy_node first_free 2 family_world = (3, twin_world)"
  by (simp add: twin_world_def copy_node_def inner_data_clone_def inner_edge_clone_def relrc_deref_def relrc_from_rc_def
      family_world_eval family_eval eval_simps Let_def)

lemma twin_world_reachable: "reachable_any first_free gen_ops (twin_world, {#3, 0, 2#}, {#}, {#0#})"
proof -
  have "alive (mem family_world) 2" by (simp add: family_world_eval family_eval cell_eval)
  from reachable_any_step [OF reachable_imp_any [OF family_world_reachable] any_step.copy [OF this twin_world_run]]
  show ?thesis by simp
qed

lemma family_registry_ok: "registry_ok gen_ops family_registry"
  using reachable_ok [OF gen.slot_map_axioms first_free_ok family_world_reachable]
  by (auto intro: world_registry_ok family_registry_at)

text \<open>The program that drops the registry of the child and makes a new one (at another address).\<close>

definition orphaned :: ex_world where
  "orphaned = snd (rc_registry first_free (registry_new gen_ops) (rc_registry_drop gen_ops 0 family_world))"

lemma orphaned_eval: "orphaned =
  \<lparr>mem = family[2 := \<lparr>strong = 1, weak = 5, payload = Some \<lparr>node_value = 30,
       incoming = [\<lparr>edge_value = 7, source = 0, target = 2\<rparr>, \<lparr>edge_value = 8, source = 1, target = 2\<rparr>],
       outgoing = [], registry = Some 0\<rparr>\<rparr>],
   regs = [\<lparr>strong = 0, weak = 1, payload = None\<rparr>, \<lparr>strong = 1, weak = 1, payload = Some (registry_new gen_ops)\<rparr>]\<rparr>"
  by (simp add: orphaned_def rc_registry_drop_def family_world_eval family_eval eval_simps registry_eval_simps
   slotmap_iter_def slotmap_keys_def)

lemma orphaned_run:
  "rc_registry first_free (registry_new gen_ops) (rc_registry_drop gen_ops 0 family_world) = (1, orphaned)"
  by (rule prod_eqI) (simp_all add: orphaned_def, simp add: rc_registry_drop_def family_world_eval eval_simps
    rc_registry_def slotmap_iter_def slotmap_keys_def gen_ops_def)

lemma orphaned_reachable: "reachable first_free gen_ops (orphaned, {#0, 2#}, {#}, {#1#})"
proof -
  have 1: "reachable first_free gen_ops (rc_registry_drop gen_ops 0 family_world, {#0, 2#}, {#}, {#})"
    using family_world_reachable by (rule reachable_step) (rule api_step.drop_registry)
  show ?thesis
    using reachable_new_registry [OF 1, where r = 1 and w' = orphaned]
    by (simp add: orphaned_run)
qed

lemma family_parents: "all_parents c (mem family_world) = (if c = 2 then [0, 1] else [])"
  by (cases "c = 0 \<or> c = 1 \<or> c = 2")
    (auto simp: all_parents_def all_incoming_def family_world_eval family_eval cell_eval box_def)

lemma family_unshared: "unshared (mem family_world) 2"
  by (simp add: unshared_def family_parents)

subsection \<open>A shared ancestor\<close>

definition diamond_base :: "(nat, nat) node_heap" where
  "diamond_base = relrc_clone 0 (snd (relrc_new first_free 1 (snd (relrc_new first_free 0 []))))"

definition diamond :: "(nat, nat) node_heap" where
  "diamond = snd (with_parents first_free 4 [(2, 0), (3, 0)]
     (snd (with_parents first_free 3 [(0, 0), (1, 0)] (snd (with_parents first_free 2 [(0, 0)] diamond_base)))))"

lemma diamond_eval: "diamond =
  [\<lparr>strong = 2, weak = 1, payload = Some \<lparr>node_value = 0, incoming = [],
       outgoing = [\<lparr>we_index = 0, we_target = 2\<rparr>, \<lparr>we_index = 0, we_target = 3\<rparr>], registry = None\<rparr>\<rparr>,
   \<lparr>strong = 1, weak = 1, payload = Some \<lparr>node_value = 1, incoming = [],
       outgoing = [\<lparr>we_index = 1, we_target = 3\<rparr>], registry = None\<rparr>\<rparr>,
   \<lparr>strong = 1, weak = 3, payload = Some \<lparr>node_value = 2, incoming = [\<lparr>edge_value = 0, source = 0, target = 2\<rparr>],
       outgoing = [\<lparr>we_index = 0, we_target = 4\<rparr>], registry = None\<rparr>\<rparr>,
   \<lparr>strong = 1, weak = 5, payload = Some \<lparr>node_value = 3, incoming = [\<lparr>edge_value = 0, source = 0, target = 3\<rparr>, \<lparr>edge_value = 0, source = 1, target = 3\<rparr>],
       outgoing = [\<lparr>we_index = 1, we_target = 4\<rparr>], registry = None\<rparr>\<rparr>,
   \<lparr>strong = 1, weak = 5, payload = Some \<lparr>node_value = 4, incoming = [\<lparr>edge_value = 0, source = 2, target = 4\<rparr>, \<lparr>edge_value = 0, source = 3, target = 4\<rparr>],
       outgoing = [], registry = None\<rparr>\<rparr>]"
  by (simp add: diamond_def diamond_base_def eval_simps)

lemma diamond_reachable: "reachable first_free gen_ops (\<lparr>mem = diamond, regs = []\<rparr>, {#4#}, {#}, {#})"
proof -
  let ?h1 = "snd (relrc_new first_free 0 []) :: (nat, nat) node_heap"
  let ?h2 = "snd (relrc_new first_free 1 ?h1)"
  let ?h3 = "snd (with_parents first_free 2 [(0, 0)] diamond_base)"
  let ?h4 = "snd (with_parents first_free 3 [(0, 0), (1, 0)] ?h3)"
  have 1: "reachable first_free gen_ops (\<lparr>mem = ?h1, regs = []\<rparr>, {#0#}, {#}, {#})"
    using reachable_new [OF reachable_start, where v = 0 and al = first_free and a = 0 and h = ?h1]
    by (simp add: eval_simps)
  have 2: "reachable first_free gen_ops (\<lparr>mem = ?h2, regs = []\<rparr>, {#1, 0#}, {#}, {#})"
    using reachable_new [OF 1, where v = 1 and a = 1 and h = ?h2] by (simp add: eval_simps)
  have 3: "reachable first_free gen_ops (\<lparr>mem = diamond_base, regs = []\<rparr>, mset (map fst [(0, 0 :: nat)]) + {#1, 0#}, {#}, {#})"
    using reachable_clone [OF 2, where a = 0] by (simp add: diamond_base_def eval_simps add_mset_commute)
  have "with_parents first_free 2 [(0, 0)] diamond_base = (2, ?h3)" by (simp add: diamond_base_def eval_simps)
  with reachable_with_parents [OF 3, where v = 2 and a = 2 and h = ?h3]
  have 4: "reachable first_free gen_ops (\<lparr>mem = ?h3, regs = []\<rparr>, mset (map fst [(0, 0 :: nat), (1, 0)]) + {#2#}, {#}, {#})"
    by (simp add: add_mset_commute)
  have "with_parents first_free 3 [(0, 0), (1, 0)] ?h3 = (3, ?h4)" by (simp add: diamond_base_def eval_simps)
  with reachable_with_parents [OF 4, where v = 3 and a = 3 and h = ?h4]
  have 5: "reachable first_free gen_ops (\<lparr>mem = ?h4, regs = []\<rparr>, mset (map fst [(2, 0 :: nat), (3, 0)]) + {#}, {#}, {#})"
    by (simp add: add_mset_commute)
  have "with_parents first_free 4 [(2, 0), (3, 0)] ?h4 = (4, diamond)"
    by (simp add: diamond_def) (simp add: diamond_base_def eval_simps)
  with reachable_with_parents [OF 5, where v = 4 and a = 4 and h = diamond] show ?thesis by simp
qed

lemma diamond_ancestors: "all_ancestors 4 diamond = [4, 2, 3, 0]"
  by (simp add: all_ancestors_def collect_ancestors_simps all_parents_def all_incoming_def diamond_eval cell_eval)

lemma diamond_ancestor_1: "(1, 4) \<in> (parents diamond)\<^sup>*"
proof -
  have "(1, 3) \<in> parents diamond" "(3, 4) \<in> parents diamond"
    by (simp_all add: parents_all_parents all_parents_def all_incoming_def diamond_eval cell_eval)
  then show ?thesis by (blast intro: rtrancl_trans)
qed

subsection \<open>History graphs\<close>

lemma family_node_registry: "node_registry b (mem family_world) = (if b = 2 then Some 0 else None)"
  by (cases "b = 0 \<or> b = 1 \<or> b = 2")
    (auto simp: node_registry_def family_world_eval family_eval cell_eval box_def)

lemma family_world_ok: "world_ok gen_ops family_world {#0, 2#} {#} {#0#} {#}"
  using reachable_ok [OF gen.slot_map_axioms first_free_ok family_world_reachable] by simp

text \<open>The empty graph over the registry, and the graph that took over the child.\<close>

definition no_history :: "gen_key HistoryGraph" where
  "no_history = \<lparr>hg_nodes = sec_new, hg_registry = 0\<rparr>"

lemma no_history_inv: "hist_inv gen_ops no_history family_world {#2, 0#} {#} {#} {#}"
  and no_history_set: "graph_set no_history = {}"
proof -
  have "history_new gen_ops [] 0 family_world = (no_history, family_world)"
    by (simp add: history_new_def no_history_def)
  from gen.history_new_ok [OF _ this, of "{#2, 0#}" "{#}" "{#}" "{#}"] family_world_ok
  show "hist_inv gen_ops no_history family_world {#2, 0#} {#} {#} {#}" "graph_set no_history = {}"
    by (simp_all add: add_mset_commute)
qed

definition child_history :: "gen_key HistoryGraph \<times> ex_world" where
  "child_history = history_new gen_ops [2] 0 family_world"

lemma child_history_inv: "hist_inv gen_ops (fst child_history) (snd child_history) {#0#} {#} {#} {#}"
  and child_history_set: "graph_set (fst child_history) = {2}"
proof -
  have "history_new gen_ops [2] 0 family_world = (fst child_history, snd child_history)"
    by (simp add: child_history_def)
  from gen.history_new_ok [OF _ this, of "{#0#}" "{#}" "{#}" "{#}"] family_world_ok
  show "hist_inv gen_ops (fst child_history) (snd child_history) {#0#} {#} {#} {#}" "graph_set (fst child_history) = {2}"
    by (auto simp: add_mset_commute node_registry_def family_world_eval family_eval cell_eval)
qed

lemma child_history_eval:
  "child_history = (\<lparr>hg_nodes = \<lparr>sec_keys = [(0, 1)], sec_vals = [(0, 1) \<mapsto> 2]\<rparr>, hg_registry = 0\<rparr>, family_world)"
  by (simp add: child_history_def history_new_def insert_node_def get_node_id_def hg_get_id_def family_world_eval
      family_eval eval_simps registry_eval_simps sec_new_def sec_contains_key_def sec_insert_def gen_sec_insert_def
      map_filter_simps)

text \<open>The graph that took over the child and a parent of it, and the edge between them.\<close>

definition pair_history :: "gen_key HistoryGraph \<times> ex_world" where
  "pair_history = history_new gen_ops [2, 0] 0 family_world"

lemma pair_history_inv: "hist_inv gen_ops (fst pair_history) (snd pair_history) {#} {#} {#} {#}"
proof -
  have "history_new gen_ops [2, 0] 0 family_world = (fst pair_history, snd pair_history)"
    by (simp add: pair_history_def)
  from gen.history_new_ok [OF _ this, of "{#}" "{#}" "{#}" "{#}"] family_world_ok show ?thesis by (simp add: add_mset_commute)
qed

definition pair_edge :: "gen_key EdgeId" where
  "pair_edge = \<lparr>eid_target = (0, 1), eid_index = 0\<rparr>"

lemmas history_eval_simps = history_new_def insert_node_def get_node_id_def hg_get_id_def registry_eval_simps sec_new_def
  sec_contains_key_def sec_insert_def gen_sec_insert_def map_filter_simps

lemma pair_edge_ends:
  "edge_source (fst pair_history) pair_edge (snd pair_history) = Some (1, 1)"
  "edge_target (fst pair_history) pair_edge (snd pair_history) = Some (0, 1)"
  by (simp_all add: pair_edge_def pair_history_def edge_source_def edge_target_def contains_edge_def get_edge_def get_node_def
      sec_get_def hg_contains_def incoming_at_def n_incoming_def all_incoming_def family_world_eval family_eval eval_simps
      history_eval_simps hg_contains_id_def)

text \<open>A child of the child, which the graph does not know.\<close>

definition grandchild_world :: ex_world where
  "grandchild_world = family_world\<lparr>mem := snd (with_parents first_free 40 [(2, 9)] (relrc_clone 2 (mem family_world)))\<rparr>"

lemma grandchild_inv: "hist_inv gen_ops (fst child_history) grandchild_world (add_mset 3 {#0#}) {#} {#} {#}"
proof -
  let ?g = "fst child_history"
  have fw: "snd child_history = family_world" by (simp add: child_history_eval)
  have "alive (mem family_world) 2" by (simp add: family_world_eval family_eval cell_eval)
  from hist_inv_clone [OF child_history_inv [unfolded fw] this]
  have 1: "world_ok gen_ops (family_world\<lparr>mem := relrc_clone 2 (mem family_world)\<rparr>)
      (mset (map fst [(2 :: nat, 9 :: nat)]) + (graph_own ?g + {#0#})) {#} {#hg_registry ?g#} {#}" and g: "graph_ok ?g family_world"
    by (simp_all add: hist_inv_def add_mset_commute)
  have "with_parents first_free 40 [(2, 9)] (mem (family_world\<lparr>mem := relrc_clone 2 (mem family_world)\<rparr>)) = (3, mem grandchild_world)"
    by (simp add: grandchild_world_def) (simp add: family_world_eval family_eval eval_simps)
  from with_parents_ok [OF first_free_ok 1 this] g show ?thesis by (simp add: hist_inv_def grandchild_world_def)
qed

lemma grandchild_reads:
  "all_parents 3 (mem grandchild_world) = [2]" "all_parents 2 (mem grandchild_world) = [0, 1]"
  "node_registry b (mem grandchild_world) = (if b = 2 then Some 0 else None)"
proof -
  have cells: "length (mem grandchild_world) = 4"
    by (simp add: grandchild_world_def family_world_eval family_eval eval_simps)
  have "deref (mem grandchild_world) b = None" if "4 \<le> b" using that cells by simp
  moreover have "b = 0 \<or> b = 1 \<or> b = 2 \<or> b = 3 \<or> 4 \<le> b" by linarith
  ultimately show "node_registry b (mem grandchild_world) = (if b = 2 then Some 0 else None)"
    by (auto simp: node_registry_def grandchild_world_def family_world_eval family_eval eval_simps)
  show "all_parents 3 (mem grandchild_world) = [2]" "all_parents 2 (mem grandchild_world) = [0, 1]"
    by (simp_all add: all_parents_def all_incoming_def grandchild_world_def family_world_eval family_eval eval_simps)
qed

lemma grandchild_ancestor: "(0, 3) \<in> (parents (mem grandchild_world))\<^sup>*"
proof -
  have "(0, 2) \<in> parents (mem grandchild_world)" "(2, 3) \<in> parents (mem grandchild_world)"
    by (simp_all add: parents_all_parents grandchild_reads)
  then show ?thesis by (blast intro: rtrancl_trans)
qed

lemma grandchild_inserts:
  "\<exists>k g' w'. insert_ancestors gen_ops 3 (fst child_history, grandchild_world) = Some (Inr (k, g', w'))"
proof -
  have "\<not> foreign (hg_registry (fst child_history)) b (mem grandchild_world)" for b
    by (simp add: grandchild_reads(3) child_history_eval)
  from gen.insert_ancestors_succeeds [OF grandchild_inv this] show ?thesis by blast
qed

end
