(* ===== verification/Serialization.thy ===== *)
theory Serialization
  imports History
begin

section \<open>Serialisation (\<open>src/src/serialization.rs\<close>)\<close>

text \<open>
  The serialised forms replace nodes by their ids: the data of a node is its value and the list
  of its parents' ids with the edge values. A set of ids (\<open>BTreeSet\<close>) is a set over a linearly
  ordered key type, iterated in order. The derived implementations of \<open>serde\<close> are left out.
\<close>

record ('n, 'e, 'k) SerializedInnerData =
  ser_value :: 'n
  ser_incoming :: "('k \<times> 'e) list"

record ('n, 'e, 'k, 's) SerializedRegistry =
  ser_nodes :: "('k, 's, ('n, 'e, 'k) SerializedInnerData) SlotMap"

record ('n, 'e, 'k, 's) SerializedHistoryGraph =
  shg_nodes :: "'k set"
  shg_registry :: "('n, 'e, 'k, 's) SerializedRegistry"

record ('n, 'e, 'k, 's) SerializedRelRc =
  srr_id :: 'k
  ancestors_graph :: "('n, 'e, 'k, 's) SerializedHistoryGraph"

definition map_value :: "('n \<Rightarrow> 'm) \<Rightarrow> ('n, 'e, 'k) SerializedInnerData \<Rightarrow> ('m, 'e, 'k) SerializedInnerData" where
  "map_value f d = \<lparr>ser_value = f (ser_value d), ser_incoming = ser_incoming d\<rparr>"

definition map_nodes ::
  "('n \<Rightarrow> 'm) \<Rightarrow> ('n, 'e, 'k, 's) SerializedRegistry \<Rightarrow> ('m, 'e, 'k, 's) SerializedRegistry" where
  "map_nodes f sr = \<lparr>ser_nodes = slotmap_map (\<lambda>_. map_value f) (ser_nodes sr)\<rparr>"

subsection \<open>Writing\<close>

text \<open>
  \<open>serialize_inner_data\<close> only reads: the strong reference that \<open>get\<close> returns is dropped on return
  and is never the last one.
\<close>

definition serialize_inner_data ::
  "('k, 's) slotmap_ops \<Rightarrow> 'k \<Rightarrow> ('k, 's) Registry \<Rightarrow> ('n, 'e) node_heap \<Rightarrow>
   ('n, 'e, 'k) SerializedInnerData res" where
  "serialize_inner_data ops nid R h =
     and_then (expect ''valid node'' (fst (registry_get ops nid R h))) (\<lambda>node.
     and_then (map_res (\<lambda>p. expect ''valid node'' (get_id p R)) (all_parents node h)) (\<lambda>parent_ids.
     and_then (expect ''valid node'' (value_at node h)) (\<lambda>v.
       Inr \<lparr>ser_value = v, ser_incoming = zip parent_ids (map edge_value (all_incoming node h))\<rparr>)))"

text \<open>\<open>SlotMap::map\<close> of the fork keeps the keys; here with a function that may panic.\<close>

definition slotmap_map_res ::
  "('k, 's) slotmap_ops \<Rightarrow> ('k \<Rightarrow> 'v \<Rightarrow> 'u res) \<Rightarrow> ('k, 's, 'v) SlotMap \<Rightarrow> ('k, 's, 'u) SlotMap res" where
  "slotmap_map_res ops f m =
     and_then (map_res (\<lambda>(k, v). f k v) (slotmap_iter ops m)) (\<lambda>us.
       Inr \<lparr>slots = slots m, vals = map_of (zip (map fst (slotmap_iter ops m)) us)\<rparr>)"

definition registry_to_serialized ::
  "('k, 's) slotmap_ops \<Rightarrow> ('k, 's) Registry \<Rightarrow> ('n, 'e) node_heap \<Rightarrow> ('n, 'e, 'k, 's) SerializedRegistry res" where
  "registry_to_serialized ops R h =
     and_then (slotmap_map_res ops (\<lambda>k _. serialize_inner_data ops k R h) (reg_nodes R)) (\<lambda>m.
       Inr \<lparr>ser_nodes = m\<rparr>)"

subsection \<open>Reading\<close>

text \<open>
  \<open>deserialize_node\<close> takes the node's data out of the slot map, makes its missing parents first,
  and then the node. The recursion takes one unit of fuel per level; each level removes a node
  of the slot map, so as many levels as there are nodes are enough. The clones of the
  parents are made while \<open>with_parents\<close> builds the edges; making them before the allocation
  gives the same memory, since they occupy no cell.
\<close>

type_synonym ('n, 'e, 'k, 's) deser_state =
  "('k, 's, ('n, 'e, 'k) SerializedInnerData) SlotMap \<times> ('k, RelRc) SecondaryMap \<times> ('n, 'e, 'k, 's) world"

definition clone_parents ::
  "('k \<times> 'e) list \<Rightarrow> ('k, RelRc) SecondaryMap \<Rightarrow> ('n, 'e, 'k, 's) world \<Rightarrow>
   ((RelRc \<times> 'e) list \<times> ('n, 'e, 'k, 's) world) res" where
  "clone_parents inc all w =
     and_then (map_res (\<lambda>(k, v). and_then (expect ''valid dfs order'' (sec_get k all)) (\<lambda>p. Inr (p, v))) inc)
       (\<lambda>ps. Inr (ps, w\<lparr>mem := fold relrc_clone (map fst ps) (mem w)\<rparr>))"

definition make_node ::
  "allocator \<Rightarrow> ('k, 's) slotmap_ops \<Rightarrow> 'k \<Rightarrow> ('n, 'e, 'k) SerializedInnerData \<Rightarrow>
   ('n, 'e, 'k, 's) deser_state \<Rightarrow> ('n, 'e, 'k, 's) deser_state res" where
  "make_node al ops nid node_ser st =
     (case st of (m, all, w) \<Rightarrow>
       and_then (clone_parents (ser_incoming node_ser) all w) (\<lambda>(ps, w1).
         (let (a, h) = with_parents al (ser_value node_ser) ps (mem w1);
              (old, all') = sec_insert ops nid a all
          in Inr (m, all', drop_tasks ops (map DropRelRc old) (w1\<lparr>mem := h\<rparr>)))))"

fun deserialize_node ::
  "nat \<Rightarrow> allocator \<Rightarrow> ('k, 's) slotmap_ops \<Rightarrow> 'k \<Rightarrow> ('n, 'e, 'k, 's) deser_state \<Rightarrow>
   ('n, 'e, 'k, 's) deser_state res option"
and deserialize_parents ::
  "nat \<Rightarrow> allocator \<Rightarrow> ('k, 's) slotmap_ops \<Rightarrow> ('k \<times> 'e) list \<Rightarrow> ('n, 'e, 'k, 's) deser_state \<Rightarrow>
   ('n, 'e, 'k, 's) deser_state res option" where
  "deserialize_node 0 al ops nid st = None"
| "deserialize_node (Suc n) al ops nid (m, all, w) =
     (case slotmap_remove ops nid m of
        (None, _) \<Rightarrow> Some (Inl (Expect ''invalid node_id''))
      | (Some node_ser, m') \<Rightarrow>
          (case deserialize_parents n al ops (ser_incoming node_ser) (m', all, w) of
             None \<Rightarrow> None
           | Some r \<Rightarrow> Some (and_then r (make_node al ops nid node_ser))))"
| "deserialize_parents n al ops [] st = Some (Inr st)"
| "deserialize_parents n al ops ((pid, v) # ps) (m, all, w) =
     (if sec_contains_key pid all then deserialize_parents n al ops ps (m, all, w)
      else
        (case deserialize_node n al ops pid (m, all, w) of
           None \<Rightarrow> None
         | Some (Inl p) \<Rightarrow> Some (Inl p)
         | Some (Inr st) \<Rightarrow> deserialize_parents n al ops ps st))"

text \<open>The loop of \<open>deserialize_nodes\<close>, while the slot map has a first entry.\<close>

fun deserialize_loop ::
  "nat \<Rightarrow> allocator \<Rightarrow> ('k, 's) slotmap_ops \<Rightarrow> ('n, 'e, 'k, 's) deser_state \<Rightarrow>
   ('n, 'e, 'k, 's) deser_state res option" where
  "deserialize_loop 0 al ops st = None"
| "deserialize_loop (Suc n) al ops (m, all, w) =
     (case slotmap_iter ops m of
        [] \<Rightarrow> Some (Inr (m, all, w))
      | (nid, _) # _ \<Rightarrow>
          (case deserialize_node (Suc (slotmap_len ops m)) al ops nid (m, all, w) of
             None \<Rightarrow> None
           | Some (Inl p) \<Rightarrow> Some (Inl p)
           | Some (Inr st) \<Rightarrow> deserialize_loop n al ops st))"

definition deserialize_nodes ::
  "allocator \<Rightarrow> ('k, 's) slotmap_ops \<Rightarrow> ('k, 's, ('n, 'e, 'k) SerializedInnerData) SlotMap \<Rightarrow>
   ('n, 'e, 'k, 's) world \<Rightarrow> (('k, RelRc) SecondaryMap \<times> ('n, 'e, 'k, 's) world) res option" where
  "deserialize_nodes al ops m w =
     map_option (\<lambda>r. and_then r (\<lambda>(_, all, w'). Inr (all, w')))
       (deserialize_loop (Suc (slotmap_len ops m)) al ops (m, sec_new, w))"

definition registry_from_serialized ::
  "allocator \<Rightarrow> ('k, 's) slotmap_ops \<Rightarrow> ('n, 'e, 'k, 's) SerializedRegistry \<Rightarrow> ('n, 'e, 'k, 's) world \<Rightarrow>
   ((('k, 's) Registry \<times> ('k, RelRc) SecondaryMap) \<times> ('n, 'e, 'k, 's) world) res option" where
  "registry_from_serialized al ops sr w =
     (let nodes_set = slotmap_map (\<lambda>_ _. ()) (ser_nodes sr) in
      map_option (\<lambda>r. and_then r (\<lambda>(all, w1).
        and_then (slotmap_map_res ops (\<lambda>k _. expect ''invalid node_id'' (sec_get k all)) nodes_set) (\<lambda>m.
          Inr ((from_slotmap ops m, all),
               w1\<lparr>mem := fold rc_downgrade (map snd (slotmap_iter ops m)) (mem w1)\<rparr>))))
        (deserialize_nodes al ops (ser_nodes sr) w))"

subsection \<open>Histories and single nodes\<close>

text \<open>
  \<open>HistoryGraph::to_serialized\<close> works on a clone of the registry, in which it registers the
  ancestors of the graph's nodes that have no id yet. The clone, its weak references included,
  is dropped at the end.
\<close>

fun get_ids ::
  "('k, 's) slotmap_ops \<Rightarrow> RelRc list \<Rightarrow> ('k, 's) Registry \<Rightarrow> ('n, 'e) node_heap \<Rightarrow>
   'k list \<times> ('k, 's) Registry \<times> ('n, 'e) node_heap" where
  "get_ids ops [] R h = ([], R, h)"
| "get_ids ops (n # ns) R h =
     (let (nid, R1, h1) = get_id_or_insert ops n R h;
          (ids, R2, h2) = get_ids ops ns R1 h1
      in (nid # ids, R2, h2))"

fun collect_ids ::
  "('k, 's) slotmap_ops \<Rightarrow> 'k list \<Rightarrow> ('k, 's) Registry \<Rightarrow> ('n, 'e, 'k, 's) world \<Rightarrow>
   ('k list \<times> ('k, 's) Registry \<times> ('n, 'e, 'k, 's) world) res" where
  "collect_ids ops [] R w = Inr ([], R, w)"
| "collect_ids ops (n # ns) R w =
     (case registry_get ops n R (mem w) of
        (None, _) \<Rightarrow> Inl (Expect ''invalid node'')
      | (Some node, h) \<Rightarrow>
          (let (ids, R1, h1) = get_ids ops (all_ancestors node h) R h
           in and_then (collect_ids ops ns R1 (relrc_drop ops node (w\<lparr>mem := h1\<rparr>))) (\<lambda>(rest, R2, w2).
                Inr (ids @ rest, R2, w2))))"

definition slot_drops :: "('k, 's) slotmap_ops \<Rightarrow> ('k, 's) Registry \<Rightarrow> drop_task list" where
  "slot_drops ops R = map (\<lambda>e. DropRelWeak (snd e)) (slotmap_iter ops (reg_nodes R))"

definition history_to_serialized ::
  "('k::linorder, 's) slotmap_ops \<Rightarrow> 'k HistoryGraph \<Rightarrow> ('n, 'e, 'k, 's) world \<Rightarrow>
   (('n, 'e, 'k, 's) SerializedHistoryGraph \<times> ('n, 'e, 'k, 's) world) res" where
  "history_to_serialized ops g w =
     (let nodes = set (all_node_ids g) in
      and_then (expect ''registry'' (deref (regs w) (hg_registry g))) (\<lambda>R0.
      (let w0 = w\<lparr>mem := fold weak_clone (map snd (slotmap_iter ops (reg_nodes R0))) (mem w)\<rparr> in
      and_then (collect_ids ops (sorted_list_of_set nodes) R0 w0) (\<lambda>(ancestors, R1, w1).
      and_then (registry_to_serialized ops R1 (mem w1)) (\<lambda>sr.
        Inr (\<lparr>shg_nodes = nodes,
              shg_registry = sr\<lparr>ser_nodes := slotmap_retain ops (\<lambda>k. k \<in> set ancestors) (ser_nodes sr)\<rparr>\<rparr>,
             drop_tasks ops (slot_drops ops R1) w1))))))"

definition assert :: "bool \<Rightarrow> 'a res \<Rightarrow> 'a res" where
  "assert b r = (if b then r else Inl Assert)"

text \<open>
  \<open>HistoryGraph::from_serialized\<close>: nodes that are not kept are dropped by \<open>retain\<close> (they live on
  as ancestors of kept nodes); \<open>HistoryGraph::new\<close> then registers the kept nodes.
\<close>

definition history_from_serialized ::
  "allocator \<Rightarrow> ('k, 's) slotmap_ops \<Rightarrow> ('n, 'e, 'k, 's) SerializedHistoryGraph \<Rightarrow> ('n, 'e, 'k, 's) world \<Rightarrow>
   ('k HistoryGraph \<times> ('n, 'e, 'k, 's) world) res option" where
  "history_from_serialized al ops sh w =
     map_option (\<lambda>r. and_then r (\<lambda>((R, all), w1).
       (let keep = shg_nodes sh in
        assert (\<forall>k\<in>keep. sec_contains_key k all)
        (assert (\<forall>k\<in>keep. fst (contains_id ops k R (mem w1)))
        (let kept = sec_retain (\<lambda>k. k \<in> keep) all;
             w2 = drop_tasks ops (map DropRelRc (sec_values (sec_retain (\<lambda>k. k \<notin> keep) all))) w1
         in assert (\<forall>a\<in>set (sec_values kept). registry_contains a R)
            (let (rc, w3) = rc_registry al R w2 in Inr (history_new ops (sec_values kept) rc w3)))))))
       (registry_from_serialized al ops (shg_registry sh) w)"

text \<open>
  \<open>RelRc::to_serialized\<close> takes over a registry handle, puts the node and its ancestors into a
  graph over it, and drops the graph at the end.
\<close>

definition relrc_to_serialized ::
  "('k::linorder, 's) slotmap_ops \<Rightarrow> RelRc \<Rightarrow> addr \<Rightarrow> ('n, 'e, 'k, 's) world \<Rightarrow>
   (('n, 'e, 'k, 's) SerializedRelRc \<times> ('n, 'e, 'k, 's) world) res option" where
  "relrc_to_serialized ops a r w =
     (let (g, w1) = history_with_registry ops r w in
      map_option (\<lambda>res. and_then res (\<lambda>(curr_id, g', w2).
        and_then (history_to_serialized ops g' w2) (\<lambda>(sh, w3).
          Inr (\<lparr>srr_id = curr_id, ancestors_graph = sh\<rparr>, history_drop ops g' w3))))
        (insert_ancestors ops a (g, w1\<lparr>mem := relrc_clone a (mem w1)\<rparr>)))"

definition relrc_from_serialized ::
  "allocator \<Rightarrow> ('k, 's) slotmap_ops \<Rightarrow> ('n, 'e, 'k, 's) SerializedRelRc \<Rightarrow> ('n, 'e, 'k, 's) world \<Rightarrow>
   (RelRc \<times> ('n, 'e, 'k, 's) world) res option" where
  "relrc_from_serialized al ops s w =
     map_option (\<lambda>res. and_then res (\<lambda>(g, w1).
       and_then (expect ''valid node'' (get_node g (srr_id s))) (\<lambda>a.
         Inr (a, history_drop ops g (w1\<lparr>mem := relrc_clone a (mem w1)\<rparr>)))))
       (history_from_serialized al ops (ancestors_graph s) w)"

subsection \<open>Conversions\<close>

text \<open>
  The \<open>From\<close> implementations. The one for \<open>SerializedHistoryGraph\<close> takes the graph by value, so that
  the graph is dropped at the end.
\<close>

definition relrc_from ::
  "allocator \<Rightarrow> ('k, 's) slotmap_ops \<Rightarrow> ('n, 'e, 'k, 's) SerializedRelRc \<Rightarrow> ('n, 'e, 'k, 's) world \<Rightarrow>
   (RelRc \<times> ('n, 'e, 'k, 's) world) res option" where
  "relrc_from al ops s w = relrc_from_serialized al ops s w"

definition history_into_serialized ::
  "('k::linorder, 's) slotmap_ops \<Rightarrow> 'k HistoryGraph \<Rightarrow> ('n, 'e, 'k, 's) world \<Rightarrow>
   (('n, 'e, 'k, 's) SerializedHistoryGraph \<times> ('n, 'e, 'k, 's) world) res" where
  "history_into_serialized ops g w =
     and_then (history_to_serialized ops g w) (\<lambda>(sh, w1). Inr (sh, history_drop ops g w1))"

definition history_from ::
  "allocator \<Rightarrow> ('k, 's) slotmap_ops \<Rightarrow> ('n, 'e, 'k, 's) SerializedHistoryGraph \<Rightarrow> ('n, 'e, 'k, 's) world \<Rightarrow>
   ('k HistoryGraph \<times> ('n, 'e, 'k, 's) world) res option" where
  "history_from al ops sh w = history_from_serialized al ops sh w"

end
