(* ===== verification/Deserialize_Correct.thy ===== *)
theory Deserialize_Correct
  imports Serialization History_Queries
begin

section \<open>Correctness of deserialisation\<close>

text \<open>
  A serialised registry is well formed if every parent id is the id of one of its nodes and the
  parent relation is acyclic. On such input the recursive \<open>deserialize_node\<close> never panics, the
  fuel is enough, and the nodes it makes have the values, edge values and parents that the
  serialised data say.
\<close>

type_synonym ('n, 'e, 'k, 's) ser_map = "('k, 's, ('n, 'e, 'k) SerializedInnerData) SlotMap"

definition ser_parents :: "('n, 'e, 'k, 's) ser_map \<Rightarrow> ('k \<times> 'k) set" where
  "ser_parents m = {(p, k). \<exists>d. vals m k = Some d \<and> p \<in> fst ` set (ser_incoming d)}"

definition ser_ok :: "('k, 's) slotmap_ops \<Rightarrow> ('n, 'e, 'k, 's) ser_map \<Rightarrow> bool" where
  "ser_ok ops m \<longleftrightarrow> slotmap_ok ops m \<and> acyclic (ser_parents m) \<and> Domain (ser_parents m) \<subseteq> dom (vals m)"

text \<open>The abstract node that serialised data stand for, once the parents have addresses.\<close>

definition resolved ::
  "('k \<Rightarrow> addr option) \<Rightarrow> ('n, 'e, 'k) SerializedInnerData \<Rightarrow> 'n \<times> (addr \<times> 'e) list" where
  "resolved f d = (ser_value d, map (\<lambda>(p, e). (the (f p), e)) (ser_incoming d))"

lemma resolved_mono:
  assumes "f \<subseteq>\<^sub>m f'" "fst ` set (ser_incoming d) \<subseteq> dom f"
  shows "resolved f' d = resolved f d"
  using assms by (force simp: resolved_def map_le_def)

text \<open>
  The invariant of the reading loop over the original map \<open>m0\<close> and memory \<open>w0\<close>: entries leave
  the slot map unchanged, and the finished nodes are as described, at distinct fresh addresses.
\<close>

abbreviation made :: "('k, RelRc) SecondaryMap \<Rightarrow> 'k \<Rightarrow> addr option" where
  "made all \<equiv> (\<lambda>k. sec_get k all)"

definition deser_inv ::
  "('k, 's) slotmap_ops \<Rightarrow> ('n, 'e, 'k, 's) ser_map \<Rightarrow> ('n, 'e, 'k, 's) world \<Rightarrow>
   addr multiset \<Rightarrow> addr multiset \<Rightarrow> addr multiset \<Rightarrow> addr multiset \<Rightarrow> ('n, 'e, 'k, 's) deser_state \<Rightarrow> bool" where
  "deser_inv ops m0 w0 S W R V st \<longleftrightarrow> (case st of (m, all, w) \<Rightarrow>
     slotmap_ok ops m \<and> vals m \<subseteq>\<^sub>m vals m0 \<and>
     distinct (sec_keys all) \<and> set (sec_keys all) = dom (made all) \<and> dom (made all) \<subseteq> dom (vals m0) - dom (vals m) \<and>
     inj_on (made all) (dom (made all)) \<and>
     world_ok ops w (mset (sec_values all) + S) W R V \<and> regs w = regs w0 \<and>
     abs_graph (mem w0) \<subseteq>\<^sub>m abs_graph (mem w) \<and>
     (\<forall>k a. made all k = Some a \<longrightarrow> abs_graph (mem w0) a = None \<and> node_registry a (mem w) = None \<and>
        (\<exists>d. vals m0 k = Some d \<and> fst ` set (ser_incoming d) \<subseteq> dom (made all) \<and>
           abs_graph (mem w) a = Some (resolved (made all) d))))"

lemma deser_inv_made:
  assumes "deser_inv ops m0 w0 S W R V (m, all, w)" "made all k = Some a"
  shows "\<exists>d. vals m0 k = Some d \<and> fst ` set (ser_incoming d) \<subseteq> dom (made all) \<and>
    abs_graph (mem w) a = Some (resolved (made all) d)"
  using assms(1) [unfolded deser_inv_def prod.case] assms(2) by presburger

text \<open>Progress: nodes move from the slot map to the finished ones, and finished ones stay.\<close>

definition deser_ext :: "('n, 'e, 'k, 's) deser_state \<Rightarrow> ('n, 'e, 'k, 's) deser_state \<Rightarrow> bool" where
  "deser_ext st st' \<longleftrightarrow> (case st of (m, all, w) \<Rightarrow> case st' of (m', all', w') \<Rightarrow>
     made all \<subseteq>\<^sub>m made all' \<and> dom (vals m') \<subseteq> dom (vals m) \<and>
     dom (vals m) \<union> dom (made all) = dom (vals m') \<union> dom (made all'))"

lemma deser_ext_refl: "deser_ext st st"
  by (cases st) (simp add: deser_ext_def)

lemma deser_ext_trans: "deser_ext st st1 \<Longrightarrow> deser_ext st1 st2 \<Longrightarrow> deser_ext st st2"
  by (cases st, cases st1, cases st2) (simp add: deser_ext_def, blast intro: map_le_trans)

definition available :: "('n, 'e, 'k, 's) deser_state \<Rightarrow> 'k \<Rightarrow> bool" where
  "available st k \<longleftrightarrow> (case st of (m, all, w) \<Rightarrow> k \<in> dom (vals m) \<union> dom (made all))"

lemma available_ext: "deser_ext st st' \<Longrightarrow> available st' k \<longleftrightarrow> available st k"
  unfolding deser_ext_def available_def by (auto split: prod.splits)

subsection \<open>Making a node\<close>

lemma made_values: "set (sec_values all) = ran (made all)"
  by (auto simp: sec_values_def sec_get_def sec_contains_key_def ran_def)

lemma fold_rc_clone_registry [simp]: "node_registry a (fold rc_clone xs h) = node_registry a h"
  by (induction xs arbitrary: h) simp_all

lemma relrc_clone_rc_clone: "relrc_clone = rc_clone"
  by (simp add: relrc_clone_def fun_eq_iff)

lemma with_parents_registry:
  assumes "alloc_ok al" "world_ok ops w (mset (map fst ps) + S) W R V" "with_parents al v ps (mem w) = (a, h')"
  shows "node_registry x h' = (if x = a then None else node_registry x (mem w))"
  using with_parents_effect_ok(2) [OF assms, of x]
  by (cases "deref (mem w) x") (simp_all add: node_registry_def)

lemma clone_parents_result:
  assumes "fst ` set inc \<subseteq> dom (made all)"
  shows "clone_parents inc all w =
    Inr (map (\<lambda>(p, e). (the (made all p), e)) inc,
         w\<lparr>mem := fold rc_clone (map (the \<circ> made all \<circ> fst) inc) (mem w)\<rparr>)"
proof -
  have "map_res (\<lambda>(k, v). and_then (expect ''valid dfs order'' (sec_get k all)) (\<lambda>p. Inr (p, v))) inc =
      Inr (map (\<lambda>(p, e). (the (made all p), e)) inc)"
    using assms by (induction inc) auto
  then show ?thesis by (simp add: clone_parents_def relrc_clone_rc_clone case_prod_unfold comp_def)
qed

context slot_map
begin

lemma clone_parents_ok:
  assumes ok: "world_ok ops w (mset (sec_values all) + S) W R V" and par: "fst ` set inc \<subseteq> dom (made all)"
  shows "world_ok ops (w\<lparr>mem := fold rc_clone (map (the \<circ> made all \<circ> fst) inc) (mem w)\<rparr>)
    (mset (map (the \<circ> made all \<circ> fst) inc) + (mset (sec_values all) + S)) W R V"
proof -
  have "\<forall>a\<in>set (map (the \<circ> made all \<circ> fst) inc). alive (mem w) a"
  proof
    fix a assume "a \<in> set (map (the \<circ> made all \<circ> fst) inc)"
    with par have "a \<in> set (sec_values all)" unfolding made_values by (force simp: ran_def)
    then show "alive (mem w) a" using owned_strong [OF ok] by simp
  qed
  from strong.dup_all_ok [OF ok this] show ?thesis by (simp add: fold_mem_clone)
qed

lemma sec_insert_fresh:
  assumes "distinct (sec_keys all)" "set (sec_keys all) = dom (made all)" "k \<notin> dom (made all)"
    and "insert k (dom (made all)) \<subseteq> set (sm_keys ops s)"
  shows "\<exists>all'. sec_insert ops k a all = ([], all') \<and> distinct (sec_keys all') \<and>
    set (sec_keys all') = dom (made all') \<and> made all' = (made all)(k \<mapsto> a) \<and>
    mset (sec_values all') = add_mset a (mset (sec_values all))"
proof -
  have k: "k \<notin> set (sec_keys all)" "insert k (set (sec_keys all)) \<subseteq> set (sm_keys ops s)"
    using assms by simp_all
  from sec_insert_spec [OF assms(1) k(2,1), of a] obtain all' where
    all': "sec_insert ops k a all = ([], all')" "distinct (sec_keys all')"
      "set (sec_keys all') = insert k (set (sec_keys all))" "sec_vals all' = (sec_vals all)(k \<mapsto> a)" by blast
  then have "made all' = (made all)(k \<mapsto> a)" by (auto simp: sec_get_def sec_contains_key_def fun_eq_iff)
  moreover from this all'(3) assms(2) have "set (sec_keys all') = dom (made all')" by simp
  ultimately show ?thesis using all' sec_values_insert [OF assms(1) all'(2,3) k(1) all'(4)] by blast
qed

lemma ser_keys: "slotmap_ok ops m \<Longrightarrow> set (sm_keys ops (slots m)) = dom (vals m)"
  using slotmap_keys_ok [of ops m] by (simp add: slotmap_keys_def)

lemma make_node_memory:
  assumes al: "alloc_ok al" and ok: "world_ok ops w (mset (sec_values all) + S) W R V"
    and par: "fst ` set (ser_incoming d) \<subseteq> dom (made all)"
    and sec: "distinct (sec_keys all)" "set (sec_keys all) = dom (made all)" "k \<notin> dom (made all)"
      "insert k (dom (made all)) \<subseteq> set (sm_keys ops s)"
  shows "\<exists>a all' w'. make_node al ops k d (m, all, w) = Inr (m, all', w') \<and>
    distinct (sec_keys all') \<and> set (sec_keys all') = dom (made all') \<and> made all' = (made all)(k \<mapsto> a) \<and>
    world_ok ops w' (mset (sec_values all') + S) W R V \<and> regs w' = regs w \<and>
    a \<notin> dom (abs_graph (mem w)) \<and> abs_graph (mem w') = (abs_graph (mem w))(a \<mapsto> resolved (made all) d) \<and>
    (\<forall>x. node_registry x (mem w') = (if x = a then None else node_registry x (mem w)))"
proof -
  let ?ps = "map (\<lambda>(p, e). (the (made all p), e)) (ser_incoming d)"
  let ?w1 = "w\<lparr>mem := fold rc_clone (map (the \<circ> made all \<circ> fst) (ser_incoming d)) (mem w)\<rparr>"
  obtain a h where wp: "with_parents al (ser_value d) ?ps (mem ?w1) = (a, h)" by fastforce
  from sec_insert_fresh [OF sec, of a] obtain all' where all': "sec_insert ops k a all = ([], all')"
    "distinct (sec_keys all')" "set (sec_keys all') = dom (made all')" "made all' = (made all)(k \<mapsto> a)"
    "mset (sec_values all') = add_mset a (mset (sec_values all))" by blast
  have "map fst ?ps = map (the \<circ> made all \<circ> fst) (ser_incoming d)" by (simp add: case_prod_unfold comp_def)
  with clone_parents_ok [OF ok par]
  have ok1: "world_ok ops ?w1 (mset (map fst ?ps) + (mset (sec_values all) + S)) W R V" by (simp only:)
  have "make_node al ops k d (m, all, w) = Inr (m, all', ?w1\<lparr>mem := h\<rparr>)"
    using wp all'(1) by (simp add: make_node_def clone_parents_result [OF par])
  moreover have "world_ok ops (?w1\<lparr>mem := h\<rparr>) (mset (sec_values all') + S) W R V"
    using with_parents_ok [OF al ok1 wp] all'(5) by simp
  moreover have "node_registry x h = (if x = a then None else node_registry x (mem w))" for x
    using with_parents_registry [OF al ok1 wp, of x] by simp
  moreover have "a \<notin> dom (abs_graph (mem w))" "abs_graph h = (abs_graph (mem w))(a \<mapsto> resolved (made all) d)"
    using abs_with_parents [OF al ok1 wp] by (simp_all add: resolved_def)
  ultimately show ?thesis using all' by (intro exI [of _ a] exI [of _ all'] exI [of _ "?w1\<lparr>mem := h\<rparr>"]) simp
qed

text \<open>What the invariant says of the nodes made so far, after one more of them.\<close>

lemma made_nodes_extend:
  assumes nodes: "\<forall>k a. made all k = Some a \<longrightarrow> G0 a = None \<and> reg a = None \<and>
      (\<exists>d. vals m0 k = Some d \<and> fst ` set (ser_incoming d) \<subseteq> dom (made all) \<and> G a = Some (resolved (made all) d))"
    and k: "vals m0 k = Some d" "k \<notin> dom (made all)" "fst ` set (ser_incoming d) \<subseteq> dom (made all)"
    and a: "a \<notin> dom G" "G0 \<subseteq>\<^sub>m G" and all': "made all' = (made all)(k \<mapsto> a)"
    and upd: "G' = G(a \<mapsto> resolved (made all) d)" "\<And>x. reg' x = (if x = a then None else reg x)"
    and b: "made all' j = Some b"
  shows "G0 b = None \<and> reg' b = None \<and>
    (\<exists>d. vals m0 j = Some d \<and> fst ` set (ser_incoming d) \<subseteq> dom (made all') \<and> G' b = Some (resolved (made all') d))"
proof -
  have at: "sec_get x all' = (if x = k then Some a else sec_get x all)" for x using fun_cong [OF all', of x] by simp
  have mono: "made all \<subseteq>\<^sub>m made all'" using k(2) by (auto simp: at map_le_def)
  then have dom: "dom (made all) \<subseteq> dom (made all')" by (rule map_le_implies_dom_le)
  show ?thesis
  proof (cases "j = k")
    case True
    have "G0 a = None" using a by (force simp: map_le_def)
    with True b k(1) k(3) dom resolved_mono [OF mono k(3)] show ?thesis by (auto simp: at upd)
  next
    case False
    with b have j: "made all j = Some b" by (simp add: at)
    with nodes a(1) have "b \<noteq> a" by blast
    from nodes j obtain d' where d': "vals m0 j = Some d'" "fst ` set (ser_incoming d') \<subseteq> dom (made all)"
      "G b = Some (resolved (made all) d')" and "G0 b = None" "reg b = None" by blast
    with dom show ?thesis using resolved_mono [OF mono d'(2)] \<open>b \<noteq> a\<close> by (auto simp: upd)
  qed
qed

lemma make_node_ok:
  assumes al: "alloc_ok al" and ser: "ser_ok ops m0" and inv: "deser_inv ops m0 w0 S W R V (m, all, w)"
    and k: "vals m0 k = Some d" "k \<notin> dom (vals m)" "k \<notin> dom (made all)"
    and par: "fst ` set (ser_incoming d) \<subseteq> dom (made all)"
  shows "\<exists>a all' w'. make_node al ops k d (m, all, w) = Inr (m, all', w') \<and>
    deser_inv ops m0 w0 S W R V (m, all', w') \<and> made all' = (made all)(k \<mapsto> a)"
proof -
  have I: "slotmap_ok ops m" "vals m \<subseteq>\<^sub>m vals m0" "distinct (sec_keys all)" "set (sec_keys all) = dom (made all)"
    "dom (made all) \<subseteq> dom (vals m0) - dom (vals m)" "inj_on (made all) (dom (made all))"
    "world_ok ops w (mset (sec_values all) + S) W R V" "regs w = regs w0" "abs_graph (mem w0) \<subseteq>\<^sub>m abs_graph (mem w)"
    and nodes: "\<forall>k a. made all k = Some a \<longrightarrow> abs_graph (mem w0) a = None \<and> node_registry a (mem w) = None \<and>
        (\<exists>d. vals m0 k = Some d \<and> fst ` set (ser_incoming d) \<subseteq> dom (made all) \<and>
           abs_graph (mem w) a = Some (resolved (made all) d))"
    using inv by (auto simp: deser_inv_def)
  have "insert k (dom (made all)) \<subseteq> set (sm_keys ops (slots m0))"
    using ser k(1) I(5) by (auto simp: ser_ok_def ser_keys)
  from make_node_memory [OF al I(7) par I(3,4) k(3) this] obtain a all' w' where
    mk: "make_node al ops k d (m, all, w) = Inr (m, all', w')" and all': "distinct (sec_keys all')"
      "set (sec_keys all') = dom (made all')" "made all' = (made all)(k \<mapsto> a)"
    and ok': "world_ok ops w' (mset (sec_values all') + S) W R V" "regs w' = regs w"
    and a: "a \<notin> dom (abs_graph (mem w))" and abs: "abs_graph (mem w') = (abs_graph (mem w))(a \<mapsto> resolved (made all) d)"
    and reg: "\<And>x. node_registry x (mem w') = (if x = a then None else node_registry x (mem w))" by blast
  have at: "sec_get x all' = (if x = k then Some a else sec_get x all)" for x using fun_cong [OF all'(3), of x] by simp
  have fresh: "made all j \<noteq> Some a" for j using nodes a by blast
  note new = made_nodes_extend [OF nodes k(1,3) par a I(9) all'(3) abs reg]
  have "deser_inv ops m0 w0 S W R V (m, all', w')"
    unfolding deser_inv_def prod.case
  proof (intro conjI allI impI)
    show "dom (made all') \<subseteq> dom (vals m0) - dom (vals m)" using I(5) k by (auto simp: at dom_def split: if_splits)
    show "inj_on (made all') (dom (made all'))"
      using I(6) fresh by (auto simp: at inj_on_def dom_def split: if_splits)
    show "abs_graph (mem w0) \<subseteq>\<^sub>m abs_graph (mem w')" using map_le_upd_fresh [OF I(9) a] by (simp add: abs)
    fix j b assume "made all' j = Some b"
    from new [OF this] show "abs_graph (mem w0) b = None" "node_registry b (mem w') = None"
      "\<exists>d. vals m0 j = Some d \<and> fst ` set (ser_incoming d) \<subseteq> dom (made all') \<and> abs_graph (mem w') b = Some (resolved (made all') d)"
      by blast+
  qed (use I all' ok' in simp_all)
  with mk all'(3) show ?thesis by blast
qed

subsection \<open>The recursion\<close>

lemma deser_inv_remove:
  assumes "deser_inv ops m0 w0 S W R V (m, all, w)" "slotmap_remove ops k m = (r, m')"
  shows "deser_inv ops m0 w0 S W R V (m', all, w)" "vals m' = (vals m)(k := None)" "r = vals m k"
proof -
  have rm: "slotmap_ok ops m'" "r = vals m k" "vals m' = (vals m)(k := None)"
    using remove_spec [OF assms(2)] assms(1) by (auto simp: deser_inv_def)
  then show "vals m' = (vals m)(k := None)" "r = vals m k" by simp_all
  show "deser_inv ops m0 w0 S W R V (m', all, w)"
    using assms(1) rm by (auto simp: deser_inv_def map_le_def)
qed

lemma deser_keys: "deser_inv ops m0 w0 S W R V (m, all, w) \<Longrightarrow> sec_contains_key p all \<longleftrightarrow> p \<in> dom (made all)"
  by (auto simp: deser_inv_def sec_contains_key_def)

lemma deserialize_parents_ok:
  fixes w0 :: "('n, 'e, 'k, 's) world"
  assumes IH: "\<forall>k m all w. deser_inv ops m0 w0 S W R V (m, all, w) \<longrightarrow> k \<in> dom (vals m) \<longrightarrow> card (dom (vals m)) \<le> n \<longrightarrow>
      (\<forall>p. (p, k) \<in> (ser_parents m0)\<^sup>+ \<longrightarrow> available (m, all, w) p) \<longrightarrow>
      (\<exists>m' all' w'. deserialize_node n al ops k (m, all, w) = Some (Inr (m', all', w')) \<and>
         deser_inv ops m0 w0 S W R V (m', all', w') \<and> deser_ext (m, all, w) (m', all', w') \<and> k \<in> dom (made all'))"
  shows "deser_inv ops m0 w0 S W R V (m, all, w) \<Longrightarrow> card (dom (vals m)) \<le> n \<Longrightarrow>
    \<forall>p q. p \<in> fst ` set ps \<longrightarrow> (q, p) \<in> (ser_parents m0)\<^sup>* \<longrightarrow> available (m, all, w) q \<Longrightarrow>
    \<exists>m' all' w'. deserialize_parents n al ops ps (m, all, w) = Some (Inr (m', all', w')) \<and>
       deser_inv ops m0 w0 S W R V (m', all', w') \<and> deser_ext (m, all, w) (m', all', w') \<and> fst ` set ps \<subseteq> dom (made all')"
proof (induction ps arbitrary: m all w)
  case Nil
  then show ?case by (simp add: deser_ext_refl)
next
  case (Cons x ps)
  obtain p e where x: "x = (p, e)" by fastforce
  have step: "\<exists>m1 all1 w1. deserialize_parents n al ops (x # ps) (m, all, w) = deserialize_parents n al ops ps (m1, all1, w1) \<and>
      deser_inv ops m0 w0 S W R V (m1, all1, w1) \<and> deser_ext (m, all, w) (m1, all1, w1) \<and> p \<in> dom (made all1)"
  proof (cases "sec_contains_key p all")
    case True
    with Cons.prems(1) x show ?thesis
      by (intro exI [of _ m] exI [of _ all] exI [of _ w]) (simp add: deser_ext_refl deser_keys [symmetric])
  next
    case False
    have "available (m, all, w) p" using Cons.prems(3) x by auto
    with False deser_keys [OF Cons.prems(1)] have "p \<in> dom (vals m)" by (auto simp: available_def)
    moreover have "available (m, all, w) q" if "(q, p) \<in> (ser_parents m0)\<^sup>+" for q
      using Cons.prems(3) that x by (auto dest: trancl_into_rtrancl)
    ultimately obtain m1 all1 w1 where "deserialize_node n al ops p (m, all, w) = Some (Inr (m1, all1, w1))"
      "deser_inv ops m0 w0 S W R V (m1, all1, w1)" "deser_ext (m, all, w) (m1, all1, w1)" "p \<in> dom (made all1)"
      using IH Cons.prems(1,2) by blast
    with False x show ?thesis by auto
  qed
  then obtain m1 all1 w1 where 1: "deserialize_parents n al ops (x # ps) (m, all, w) = deserialize_parents n al ops ps (m1, all1, w1)"
      "deser_inv ops m0 w0 S W R V (m1, all1, w1)" "deser_ext (m, all, w) (m1, all1, w1)" "p \<in> dom (made all1)" by blast
  have "card (dom (vals m1)) \<le> card (dom (vals m))"
    using 1(3) Cons.prems(1) by (intro card_mono) (auto simp: deser_ext_def deser_inv_def finite_dom)
  then have "card (dom (vals m1)) \<le> n" using Cons.prems(2) by linarith
  moreover have "available (m1, all1, w1) q" if "r \<in> fst ` set ps" "(q, r) \<in> (ser_parents m0)\<^sup>*" for r q
    using Cons.prems(3) that available_ext [OF 1(3)] by auto
  ultimately obtain m2 all2 w2 where 2: "deserialize_parents n al ops ps (m1, all1, w1) = Some (Inr (m2, all2, w2))"
    "deser_inv ops m0 w0 S W R V (m2, all2, w2)" "deser_ext (m1, all1, w1) (m2, all2, w2)" "fst ` set ps \<subseteq> dom (made all2)"
    using Cons.IH [OF 1(2)] by metis
  have "dom (made all1) \<subseteq> dom (made all2)" using 2(3) by (simp add: deser_ext_def map_le_implies_dom_le)
  with 1 2 x deser_ext_trans [OF 1(3) 2(3)] show ?case by auto
qed

lemma deserialize_node_ok:
  fixes w0 :: "('n, 'e, 'k, 's) world"
  assumes al: "alloc_ok al" and ser: "ser_ok ops m0"
  shows "deser_inv ops m0 w0 S W R V (m, all, w) \<Longrightarrow> k \<in> dom (vals m) \<Longrightarrow> card (dom (vals m)) \<le> n \<Longrightarrow>
    (\<And>p. (p, k) \<in> (ser_parents m0)\<^sup>+ \<Longrightarrow> available (m, all, w) p) \<Longrightarrow>
    \<exists>m' all' w'. deserialize_node n al ops k (m, all, w) = Some (Inr (m', all', w')) \<and>
       deser_inv ops m0 w0 S W R V (m', all', w') \<and> deser_ext (m, all, w) (m', all', w') \<and> k \<in> dom (made all')"
proof (induction n arbitrary: k m all w)
  case 0
  have "finite (dom (vals m))" using "0.prems"(1) by (auto simp: deser_inv_def finite_dom)
  with "0.prems"(2,3) show ?case by auto
next
  case (Suc n)
  obtain r m' where rm: "slotmap_remove ops k m = (r, m')" by fastforce
  note inv' = deser_inv_remove [OF Suc.prems(1) rm]
  have fin: "finite (dom (vals m))" using Suc.prems(1) by (auto simp: deser_inv_def finite_dom)
  obtain d where d: "r = Some d" "vals m k = Some d" using Suc.prems(2) inv'(3) by auto
  have m0k: "vals m0 k = Some d" using Suc.prems(1) d(2) by (auto simp: deser_inv_def map_le_def dom_def)
  have dom': "dom (vals m') = dom (vals m) - {k}" by (simp add: inv'(2))
  then have card': "card (dom (vals m')) \<le> n" using fin Suc.prems(2,3) by simp
  have av: "available (m', all, w) q" if "p \<in> fst ` set (ser_incoming d)" "(q, p) \<in> (ser_parents m0)\<^sup>*" for p q
  proof -
    have "(p, k) \<in> ser_parents m0" using that(1) m0k by (auto simp: ser_parents_def)
    with that(2) have "(q, k) \<in> (ser_parents m0)\<^sup>+" by (rule rtrancl_into_trancl1)
    moreover from this ser have "q \<noteq> k" by (auto simp: ser_ok_def acyclic_def)
    ultimately show ?thesis using Suc.prems(4) [of q] dom' by (auto simp: available_def)
  qed
  have IH: "\<forall>k m all w. deser_inv ops m0 w0 S W R V (m, all, w) \<longrightarrow> k \<in> dom (vals m) \<longrightarrow> card (dom (vals m)) \<le> n \<longrightarrow>
      (\<forall>p. (p, k) \<in> (ser_parents m0)\<^sup>+ \<longrightarrow> available (m, all, w) p) \<longrightarrow>
      (\<exists>m' all' w'. deserialize_node n al ops k (m, all, w) = Some (Inr (m', all', w')) \<and>
         deser_inv ops m0 w0 S W R V (m', all', w') \<and> deser_ext (m, all, w) (m', all', w') \<and> k \<in> dom (made all'))"
    using Suc.IH by blast
  have "\<forall>p q. p \<in> fst ` set (ser_incoming d) \<longrightarrow> (q, p) \<in> (ser_parents m0)\<^sup>* \<longrightarrow> available (m', all, w) q"
    using av by blast
  from deserialize_parents_ok [OF IH inv'(1) card' this]
  obtain m1 all1 w1 where 1: "deserialize_parents n al ops (ser_incoming d) (m', all, w) = Some (Inr (m1, all1, w1))"
    "deser_inv ops m0 w0 S W R V (m1, all1, w1)" "deser_ext (m', all, w) (m1, all1, w1)"
    "fst ` set (ser_incoming d) \<subseteq> dom (made all1)"
    by blast
  have "k \<notin> dom (vals m')" "k \<notin> dom (made all)" using dom' Suc.prems(1,2) by (auto simp: deser_inv_def)
  then have k: "k \<notin> dom (vals m1)" "k \<notin> dom (made all1)" using 1(3) by (auto simp: deser_ext_def)
  from make_node_ok [OF al ser 1(2) m0k k 1(4)] obtain a all2 w2 where 2: "make_node al ops k d (m1, all1, w1) = Inr (m1, all2, w2)"
    "deser_inv ops m0 w0 S W R V (m1, all2, w2)" "made all2 = (made all1)(k \<mapsto> a)" by blast
  have dom2: "dom (made all2) = insert k (dom (made all1))" by (simp add: 2(3))
  have e: "made all \<subseteq>\<^sub>m made all1" "dom (vals m1) \<subseteq> dom (vals m')"
    "dom (vals m') \<union> dom (made all) = dom (vals m1) \<union> dom (made all1)" using 1(3) by (simp_all add: deser_ext_def)
  have "made all \<subseteq>\<^sub>m made all2" using map_le_upd_fresh [OF e(1) k(2)] by (simp add: 2(3))
  moreover have "dom (vals m) = insert k (dom (vals m'))" using dom' Suc.prems(2) by (simp add: insert_absorb)
  then have "dom (vals m) \<union> dom (made all) = dom (vals m1) \<union> dom (made all2)" using e(3) by (simp only: dom2) simp
  moreover have "dom (vals m1) \<subseteq> dom (vals m)" using e(2) dom' by blast
  ultimately have "deser_ext (m, all, w) (m1, all2, w2)" by (simp add: deser_ext_def)
  with 2(1,2) dom2 1(1) rm d(1) show ?case by simp
qed

end

end
