(* ===== verification/Serialization_Correct.thy ===== *)
theory Serialization_Correct
  imports Deserialize_Correct
begin

section \<open>Round trips of serialised registries\<close>

text \<open>
  Writing a registry succeeds exactly if all its nodes are alive and their parents have ids; what
  it writes is well formed. Reading a well-formed serialised registry succeeds, and writing the
  result gives the same serialised registry.
\<close>

lemma set_slotmap_iter_eq: "slotmap_ok ops m \<Longrightarrow> set (slotmap_iter ops m) = {(k, v). vals m k = Some v}"
  using set_slotmap_iter [of ops m] by auto

context slot_map
begin

subsection \<open>The loop of \<open>deserialize_nodes\<close>\<close>

lemma deserialize_loop_ok:
  fixes w0 :: "('n, 'e, 'k, 's) world"
  assumes al: "alloc_ok al" and ser: "ser_ok ops m0"
  shows "deser_inv ops m0 w0 S W R V (m, all, w) \<Longrightarrow> dom (vals m) \<union> dom (made all) = dom (vals m0) \<Longrightarrow>
    card (dom (vals m)) < n \<Longrightarrow>
    \<exists>m' all' w'. deserialize_loop n al ops (m, all, w) = Some (Inr (m', all', w')) \<and>
      deser_inv ops m0 w0 S W R V (m', all', w') \<and> dom (made all') = dom (vals m0)"
proof (induction n arbitrary: m all w)
  case (Suc n)
  have ok: "slotmap_ok ops m" using Suc.prems(1) by (simp add: deser_inv_def)
  show ?case
  proof (cases "slotmap_iter ops m")
    case Nil
    then have "dom (vals m) = {}" using set_slotmap_iter [OF ok] by (auto simp: dom_def)
    with Nil Suc.prems show ?thesis by simp
  next
    case (Cons x xs)
    obtain k d where x: "x = (k, d)" by fastforce
    with Cons set_slotmap_iter [OF ok, of k d] have k: "k \<in> dom (vals m)" by auto
    have "available (m, all, w) p" if "(p, k) \<in> (ser_parents m0)\<^sup>+" for p
    proof -
      from that have "p \<in> Domain (ser_parents m0)" by (meson DomainI tranclD)
      with ser have "p \<in> dom (vals m0)" by (auto simp: ser_ok_def)
      with Suc.prems(2) show ?thesis by (simp add: available_def) blast
    qed
    from deserialize_node_ok [OF al ser Suc.prems(1) k _ this, of "Suc (slotmap_len ops m)"] len_spec [OF ok]
    obtain m1 all1 w1 where 1: "deserialize_node (Suc (slotmap_len ops m)) al ops k (m, all, w) = Some (Inr (m1, all1, w1))"
      "deser_inv ops m0 w0 S W R V (m1, all1, w1)" "deser_ext (m, all, w) (m1, all1, w1)" "k \<in> dom (made all1)" by auto
    have e: "dom (vals m1) \<subseteq> dom (vals m)" "dom (vals m) \<union> dom (made all) = dom (vals m1) \<union> dom (made all1)"
      using 1(3) by (simp_all add: deser_ext_def)
    have "k \<notin> dom (vals m1)" using 1(2,4) by (auto simp: deser_inv_def)
    with e(1) k have "card (dom (vals m1)) < card (dom (vals m))"
      by (intro psubset_card_mono finite_dom [OF ok]) blast
    with Suc.prems(3) have "card (dom (vals m1)) < n" by linarith
    from Suc.IH [OF 1(2) _ this] e(2) Suc.prems(2) show ?thesis using Cons x 1(1) by simp
  qed
qed simp

lemma deserialize_nodes_ok:
  fixes w :: "('n, 'e, 'k, 's) world"
  assumes al: "alloc_ok al" and ser: "ser_ok ops m0" and ok: "world_ok ops w S W R V"
  shows "\<exists>m all w'. deserialize_nodes al ops m0 w = Some (Inr (all, w')) \<and>
    deser_inv ops m0 w S W R V (m, all, w') \<and> dom (made all) = dom (vals m0)"
proof -
  have m0: "slotmap_ok ops m0" using ser by (simp add: ser_ok_def)
  have new: "sec_get k sec_new = None" for k :: 'k by (simp add: sec_get_def sec_contains_key_def sec_new_def)
  have "deser_inv ops m0 w S W R V (m0, sec_new, w)"
    using m0 ok by (simp add: deser_inv_def new) (simp add: sec_new_def sec_values_def map_filter_simps)
  from deserialize_loop_ok [OF al ser this, of "Suc (slotmap_len ops m0)"] len_spec [OF m0]
  show ?thesis by (auto simp: new deserialize_nodes_def)
qed

subsection \<open>The registry that is read\<close>

lemma slotmap_map_res_ok:
  assumes ok: "slotmap_ok ops m" and f: "\<And>k v. vals m k = Some v \<Longrightarrow> f k v = Inr (g k v)"
  shows "slotmap_map_res ops f m = Inr (slotmap_map g m)"
proof -
  let ?it = "slotmap_iter ops m"
  have "map_res (\<lambda>(k, v). f k v) ?it = Inr (map (\<lambda>(k, v). g k v) ?it)"
    by (rule map_res_map) (auto simp: set_slotmap_iter [OF ok] f)
  moreover have "map_of (zip (map fst ?it) (map (\<lambda>(k, v). g k v) ?it)) k = map_option (g k) (vals m k)" for k
  proof (rule option_eqI)
    fix u
    have z: "zip (map fst ?it) (map (\<lambda>(k, v). g k v) ?it) = map (\<lambda>(k, v). (k, g k v)) ?it"
      by (simp add: zip_map_map zip_same_conv_map case_prod_unfold comp_def)
    have "distinct (map fst (map (\<lambda>(k, v). (k, g k v)) ?it))"
      using distinct_iter_keys [of m] by (simp add: case_prod_unfold comp_def)
    then show "map_of (zip (map fst ?it) (map (\<lambda>(k, v). g k v) ?it)) k = Some u \<longleftrightarrow> map_option (g k) (vals m k) = Some u"
      unfolding z by (auto simp: map_of_eq_Some_iff set_slotmap_iter_eq [OF ok] image_iff)
  qed
  ultimately show ?thesis by (simp add: slotmap_map_res_def slotmap_map_def fun_eq_iff)
qed

lemma from_slotmap_ok:
  assumes ok: "slotmap_ok ops m" and inj: "inj_on (vals m) (dom (vals m))"
  shows "registry_ok ops (from_slotmap ops m)" "reg_nodes (from_slotmap ops m) = m"
proof -
  let ?it = "slotmap_iter ops m"
  have "distinct ?it" using distinct_iter_keys [of m] by (simp add: distinct_map)
  moreover have "inj_on snd (set ?it)"
  proof (rule inj_onI, clarsimp simp: set_slotmap_iter [OF ok])
    fix k j a assume "vals m k = Some a" "vals m j = Some a"
    with inj show "k = j" by (auto simp: inj_on_def dom_def)
  qed
  ultimately have "distinct (map fst (rev (map (\<lambda>(nid, w). (relweak_as_ptr w, nid)) ?it)))"
    by (simp add: rev_map relweak_as_ptr_def distinct_map case_prod_unfold comp_def inj_on_def)
  then have "ptr_to_id (from_slotmap ops m) p = Some k \<longleftrightarrow> vals m k = Some p" for p k
    by (auto simp: from_slotmap_def map_of_eq_Some_iff set_slotmap_iter_eq [OF ok] relweak_as_ptr_def image_iff)
  with ok show "registry_ok ops (from_slotmap ops m)" "reg_nodes (from_slotmap ops m) = m"
    by (simp_all add: registry_ok_def) (simp_all add: from_slotmap_def)
qed

text \<open>What a serialised node says about a registry \<open>Rg\<close> and a memory.\<close>

lemma serialize_resolved:
  assumes reg: "registry_ok ops Rg" and live: "live_ok h"
    and k: "vals (reg_nodes Rg) k = Some a" and abs: "abs_graph h a = Some (resolved (vals (reg_nodes Rg)) d)"
    and par: "fst ` set (ser_incoming d) \<subseteq> dom (vals (reg_nodes Rg))"
  shows "serialize_inner_data ops k Rg h = Inr d"
proof -
  from abs obtain x where x: "deref h a = Some x" "abs_node x = resolved (vals (reg_nodes Rg)) d"
    by (auto simp: abs_graph_def)
  let ?f = "\<lambda>(p, e). (the (vals (reg_nodes Rg) p), e)"
  have pairs: "map (\<lambda>e. (source e, edge_value e)) (incoming x) = map ?f (ser_incoming d)" and v: "node_value x = ser_value d"
    using x(2) by (simp_all add: abs_node_def resolved_def)
  have src: "map source (incoming x) = map (the \<circ> vals (reg_nodes Rg) \<circ> fst) (ser_incoming d)"
    using arg_cong [OF pairs, of "map fst"] by (simp add: comp_def case_prod_unfold)
  have ev: "map edge_value (incoming x) = map snd (ser_incoming d)"
    using arg_cong [OF pairs, of "map snd"] by (simp add: comp_def case_prod_unfold)
  have "get_id (the (vals (reg_nodes Rg) p)) Rg = Some p" if "p \<in> fst ` set (ser_incoming d)" for p
    using that par registry_okD(2) [OF reg] by (auto simp: get_id_def as_ptr_def)
  then have ids: "map_res (\<lambda>p. expect ''valid node'' (get_id p Rg)) (map source (incoming x)) = Inr (map fst (ser_incoming d))"
    unfolding src by (induction "ser_incoming d") (simp_all add: map_res_Inr_iff list.rel_map list.rel_refl_strong)
  have "alive h a" using alive_iff_deref [OF live] x(1) by blast
  then have "fst (registry_get ops k Rg h) = Some a" by (simp add: registry_get_effect(1) [OF reg] k)
  then show ?thesis
    using ids ev v x(1) by (simp add: serialize_inner_data_def all_parents_def all_incoming_def value_at_def zip_map_fst_snd)
qed

lemma registry_from_serialized_ok:
  fixes w :: "('n, 'e, 'k, 's) world"
  assumes al: "alloc_ok al" and ser: "ser_ok ops (ser_nodes sr)" and ok: "world_ok ops w S W R V"
  shows "\<exists>Rg all w'. registry_from_serialized al ops sr w = Some (Inr ((Rg, all), w')) \<and>
    registry_ok ops Rg \<and> vals (reg_nodes Rg) = made all \<and> slots (reg_nodes Rg) = slots (ser_nodes sr) \<and>
    world_ok ops w' (mset (sec_values all) + S) (slot_refs ops Rg + W) R V \<and> regs w' = regs w \<and>
    (\<exists>m w1. deser_inv ops (ser_nodes sr) w S W R V (m, all, w1) \<and> (\<forall>a. deref (mem w') a = deref (mem w1) a)) \<and>
    dom (made all) = dom (vals (ser_nodes sr))"
proof -
  let ?m0 = "ser_nodes sr"
  have m0: "slotmap_ok ops ?m0" using ser by (simp add: ser_ok_def)
  from deserialize_nodes_ok [OF al ser ok] obtain m all w1 where
    des: "deserialize_nodes al ops ?m0 w = Some (Inr (all, w1))" and inv: "deser_inv ops ?m0 w S W R V (m, all, w1)"
    and dom: "dom (made all) = dom (vals ?m0)" by blast
  let ?ns = "slotmap_map (\<lambda>_ _. ()) ?m0 :: ('k, 's, unit) SlotMap"
  let ?m = "slotmap_map (\<lambda>k _. the (made all k)) ?ns"
  have got: "\<exists>a. sec_get k all = Some a" if "vals ?m0 k \<noteq> None" for k using dom that by (auto simp: set_eq_iff dom_def)
  have res: "slotmap_map_res ops (\<lambda>k _. expect ''invalid node_id'' (sec_get k all)) ?ns = Inr ?m"
    using m0 got by (intro slotmap_map_res_ok) fastforce+
  have "vals ?m k = made all k" for k
  proof (cases "vals ?m0 k")
    case None
    then have "k \<notin> dom (made all)" using dom by (simp add: domIff)
    with None show ?thesis by (simp add: domIff)
  qed (use got [of k] in auto)
  then have vals: "vals ?m = made all" by (rule ext)
  have inj: "inj_on (vals ?m) (dom (vals ?m))" using inv by (simp add: vals deser_inv_def)
  have "slotmap_ok ops ?m" using m0 by simp
  note Rg = from_slotmap_ok [OF this inj]
  let ?Rg = "from_slotmap ops ?m" and ?ws = "map snd (slotmap_iter ops ?m)"
  have ok1: "world_ok ops w1 (mset (sec_values all) + S) W R V" and regs: "regs w1 = regs w"
    using inv by (simp_all add: deser_inv_def)
  have "\<forall>a\<in>set ?ws. 0 < weak (box (mem w1) a)"
  proof
    fix a assume "a \<in> set ?ws"
    then have "a \<in> set (sec_values all)"
      using set_slotmap_iter_eq [OF \<open>slotmap_ok ops ?m\<close>] unfolding made_values vals by (auto simp: ran_def)
    with owned_strong [OF ok1, of a] alive_weak_count [OF ok1] show "0 < weak (box (mem w1) a)" by simp
  qed
  note dup = weak_handles.dup_all_ok [OF ok1 this]
  have down: "rc_downgrade = weak_clone" by (simp add: rc_downgrade_def weak_clone_def fun_eq_iff)
  have refs: "mset ?ws = slot_refs ops ?Rg"
    by (simp add: slot_refs_def slotmap_values_def Rg(2) slotmap_iter_snd)
  have deref: "deref (fold weak_clone xs h) a = deref h a" for xs a and h :: "('n, 'e) node_heap"
    by (induction xs arbitrary: h) (simp_all add: heap_simps)
  have "registry_from_serialized al ops sr w =
      Some (Inr ((?Rg, all), w1\<lparr>mem := fold rc_downgrade ?ws (mem w1)\<rparr>))"
    by (simp add: registry_from_serialized_def des res)
  moreover have "world_ok ops (w1\<lparr>mem := fold rc_downgrade ?ws (mem w1)\<rparr>) (mset (sec_values all) + S) (slot_refs ops ?Rg + W) R V"
    using dup unfolding fold_mem_weak_clone down refs .
  ultimately show ?thesis
    using Rg vals regs inv dom
    by (intro exI [of _ ?Rg] exI [of _ all] exI [of _ "w1\<lparr>mem := fold rc_downgrade ?ws (mem w1)\<rparr>"])
      (auto simp: down deref)
qed

lemma registry_roundtrip_ser:
  fixes w :: "('n, 'e, 'k, 's) world"
  assumes al: "alloc_ok al" and ser: "ser_ok ops (ser_nodes sr)" and ok: "world_ok ops w S W R V"
  shows "\<exists>Rg all w'. registry_from_serialized al ops sr w = Some (Inr ((Rg, all), w')) \<and>
    registry_ok ops Rg \<and> world_ok ops w' (mset (sec_values all) + S) (slot_refs ops Rg + W) R V \<and>
    registry_to_serialized ops Rg (mem w') = Inr sr"
proof -
  from registry_from_serialized_ok [OF assms] obtain Rg all w' m w1 where
    1: "registry_from_serialized al ops sr w = Some (Inr ((Rg, all), w'))" "registry_ok ops Rg"
      "vals (reg_nodes Rg) = made all" "slots (reg_nodes Rg) = slots (ser_nodes sr)"
      "world_ok ops w' (mset (sec_values all) + S) (slot_refs ops Rg + W) R V"
    and inv: "deser_inv ops (ser_nodes sr) w S W R V (m, all, w1)" and deref: "\<And>a. deref (mem w') a = deref (mem w1) a"
    and dom: "dom (made all) = dom (vals (ser_nodes sr))" by blast
  have abs: "abs_graph (mem w') = abs_graph (mem w1)" using deref by (rule abs_graph_deref)
  have "serialize_inner_data ops k Rg (mem w') = Inr (the (vals (ser_nodes sr) k))" if k: "vals (reg_nodes Rg) k = Some a" for k a
  proof -
    have "made all k = Some a" using k 1(3) by simp
    from deser_inv_made [OF inv this]
    obtain d where "vals (ser_nodes sr) k = Some d" "fst ` set (ser_incoming d) \<subseteq> dom (made all)"
      "abs_graph (mem w') a = Some (resolved (made all) d)" unfolding abs by blast
    with serialize_resolved [OF 1(2) world_okD(5) [OF 1(5)] k, of d] 1(3) show ?thesis by simp
  qed
  from slotmap_map_res_ok [OF registry_okD(1) [OF 1(2)] this]
  have "registry_to_serialized ops Rg (mem w') = Inr \<lparr>ser_nodes = slotmap_map (\<lambda>k _. the (vals (ser_nodes sr) k)) (reg_nodes Rg)\<rparr>"
    by (simp add: registry_to_serialized_def)
  moreover have "slotmap_map (\<lambda>k _. the (vals (ser_nodes sr) k)) (reg_nodes Rg) = ser_nodes sr"
  proof -
    have "map_option (\<lambda>_. the (vals (ser_nodes sr) k)) (made all k) = vals (ser_nodes sr) k" for k
      using arg_cong [OF dom, of "\<lambda>s. k \<in> s"] by (cases "made all k"; cases "vals (ser_nodes sr) k") (auto simp: domIff)
    then show ?thesis using 1(3,4) by (simp add: slotmap_map_def)
  qed
  ultimately show ?thesis using 1 by auto
qed

end

end
