(* ===== verification/Serialize_Correct.thy ===== *)
theory Serialize_Correct
  imports Serialization_Correct
begin

section \<open>Correctness of serialisation\<close>

text \<open>
  \<open>Registry::to_serialized\<close> writes every entry of the registry. It succeeds exactly if all of
  them are alive and all their parents have ids, panics otherwise, and what it writes is well
  formed, so that it can be read back into an isomorphic copy.
\<close>

definition entry_ok :: "('k, 's) Registry \<Rightarrow> ('n, 'e) node_heap \<Rightarrow> addr \<Rightarrow> bool" where
  "entry_ok Rg h a \<longleftrightarrow> alive h a \<and> list_all (\<lambda>p. registry_contains p Rg) (all_parents a h)"

lemma map_res_same_panic:
  assumes "\<And>x q. x \<in> set xs \<Longrightarrow> f x = Inl q \<Longrightarrow> q = e" "x \<in> set xs" "\<nexists>y. f x = Inr y"
  shows "map_res f xs = Inl e"
proof -
  have same: "\<forall>x\<in>set xs. \<forall>q. f x = Inl q \<longrightarrow> q = e \<Longrightarrow> map_res f xs = Inl p \<Longrightarrow> p = e" for p
    by (induction xs) (auto simp: and_then_def split: sum.splits)
  have "\<exists>p. f x = Inl p" using assms(3) by (cases "f x") auto
  with assms(2) obtain p where "map_res f xs = Inl p" using map_res_Inl [of f xs] by blast
  with same assms(1) show ?thesis by blast
qed

context slot_map
begin

lemma serialize_inner_data_ok:
  assumes reg: "registry_ok ops Rg" and live: "live_ok h" and k: "vals (reg_nodes Rg) k = Some a"
    and ok: "entry_ok Rg h a"
  shows "\<exists>d. serialize_inner_data ops k Rg h = Inr d \<and> abs_graph h a = Some (resolved (vals (reg_nodes Rg)) d) \<and>
    fst ` set (ser_incoming d) \<subseteq> dom (vals (reg_nodes Rg))"
proof -
  from ok alive_iff_deref [OF live] obtain x where x: "deref h a = Some x" by (auto simp: entry_ok_def)
  let ?id = "\<lambda>p. the (ptr_to_id Rg p)"
  let ?d = "\<lparr>ser_value = node_value x, ser_incoming = map (\<lambda>e. (?id (source e), edge_value e)) (incoming x)\<rparr>"
  have ids: "vals (reg_nodes Rg) (?id (source e)) = Some (source e)" if "e \<in> set (incoming x)" for e
  proof -
    from ok x that obtain k where "ptr_to_id Rg (source e) = Some k"
      by (auto simp: entry_ok_def list_all_iff all_parents_def all_incoming_def registry_contains_def get_id_def as_ptr_def)
    moreover from this have "vals (reg_nodes Rg) k = Some (source e)" by (simp add: registry_okD(2) [OF reg])
    ultimately show ?thesis by simp
  qed
  have "map (\<lambda>e. (source e, edge_value e)) (incoming x) =
      map (\<lambda>e. (the (vals (reg_nodes Rg) (?id (source e))), edge_value e)) (incoming x)"
    using ids by (simp cong: map_cong)
  then have abs: "abs_graph h a = Some (resolved (vals (reg_nodes Rg)) ?d)"
    by (simp add: abs_graph_def x abs_node_def resolved_def comp_def)
  have par: "fst ` set (ser_incoming ?d) \<subseteq> dom (vals (reg_nodes Rg))" using ids by auto
  from serialize_resolved [OF reg live k abs par] abs par show ?thesis by blast
qed

lemma serialize_inner_data_panics:
  assumes reg: "registry_ok ops Rg" and live: "live_ok h" and k: "vals (reg_nodes Rg) k = Some a"
    and bad: "\<not> entry_ok Rg h a"
  shows "serialize_inner_data ops k Rg h = Inl (Expect ''valid node'')"
proof (cases "alive h a")
  case False
  then show ?thesis by (simp add: serialize_inner_data_def registry_get_effect(1) [OF reg] k)
next
  case True
  with bad obtain p where "p \<in> set (all_parents a h)" "get_id p Rg = None"
    by (auto simp: entry_ok_def list_all_iff registry_contains_def)
  then have "map_res (\<lambda>p. expect ''valid node'' (get_id p Rg)) (all_parents a h) = Inl (Expect ''valid node'')"
    by (intro map_res_same_panic [of _ _ _ p]) (auto simp: expect_def split: option.splits)
  then show ?thesis using True by (simp add: serialize_inner_data_def registry_get_effect(1) [OF reg] k)
qed

lemma slotmap_map_res_panic:
  assumes ok: "slotmap_ok ops m" and all: "\<And>k v q. vals m k = Some v \<Longrightarrow> f k v = Inl q \<Longrightarrow> q = e"
    and bad: "vals m k = Some v" "f k v = Inl e"
  shows "slotmap_map_res ops f m = Inl e"
proof -
  have "map_res (\<lambda>(k, v). f k v) (slotmap_iter ops m) = Inl e"
  proof (rule map_res_same_panic)
    show "(k, v) \<in> set (slotmap_iter ops m)" "\<nexists>y. (case (k, v) of (k, v) \<Rightarrow> f k v) = Inr y"
      using bad by (simp_all add: set_slotmap_iter [OF ok])
  next
    fix x q assume "x \<in> set (slotmap_iter ops m)" "(case x of (k, v) \<Rightarrow> f k v) = Inl q"
    moreover obtain j u where "x = (j, u)" by fastforce
    ultimately have "vals m j = Some u" "f j u = Inl q" by (simp_all add: set_slotmap_iter [OF ok])
    then show "q = e" by (rule all)
  qed
  then show ?thesis by (simp add: slotmap_map_res_def)
qed

text \<open>Success, with what is written, and failure.\<close>

lemma registry_to_serialized_ok:
  assumes reg: "registry_ok ops Rg" and live: "live_ok h"
    and ok: "\<And>k a. vals (reg_nodes Rg) k = Some a \<Longrightarrow> entry_ok Rg h a"
  shows "\<exists>sr. registry_to_serialized ops Rg h = Inr sr \<and> slots (ser_nodes sr) = slots (reg_nodes Rg) \<and>
    dom (vals (ser_nodes sr)) = dom (vals (reg_nodes Rg)) \<and>
    (\<forall>k a. vals (reg_nodes Rg) k = Some a \<longrightarrow> (\<exists>d. vals (ser_nodes sr) k = Some d \<and>
       abs_graph h a = Some (resolved (vals (reg_nodes Rg)) d) \<and> fst ` set (ser_incoming d) \<subseteq> dom (vals (reg_nodes Rg))))"
proof -
  let ?P = "\<lambda>k a d. serialize_inner_data ops k Rg h = Inr d \<and> abs_graph h a = Some (resolved (vals (reg_nodes Rg)) d) \<and>
    fst ` set (ser_incoming d) \<subseteq> dom (vals (reg_nodes Rg))"
  define g where "g k a = (SOME d. ?P k a d)" for k a
  have g: "?P k a (g k a)" if "vals (reg_nodes Rg) k = Some a" for k a
    unfolding g_def by (rule someI_ex [OF serialize_inner_data_ok [OF reg live that ok [OF that]]])
  have "slotmap_map_res ops (\<lambda>k _. serialize_inner_data ops k Rg h) (reg_nodes Rg) = Inr (slotmap_map g (reg_nodes Rg))"
    using g by (intro slotmap_map_res_ok registry_okD(1) [OF reg]) blast
  then have "registry_to_serialized ops Rg h = Inr \<lparr>ser_nodes = slotmap_map g (reg_nodes Rg)\<rparr>"
    by (simp add: registry_to_serialized_def)
  with g show ?thesis by (fastforce simp: dom_def)
qed

lemma registry_to_serialized_panics:
  assumes reg: "registry_ok ops Rg" and live: "live_ok h"
    and bad: "vals (reg_nodes Rg) k = Some a" "\<not> entry_ok Rg h a"
  shows "registry_to_serialized ops Rg h = Inl (Expect ''valid node'')"
proof -
  have "q = Expect ''valid node''" if k: "vals (reg_nodes Rg) k = Some a" and s: "serialize_inner_data ops k Rg h = Inl q" for k a q
    using serialize_inner_data_ok [OF reg live k] serialize_inner_data_panics [OF reg live k] s
    by (cases "entry_ok Rg h a") auto
  from slotmap_map_res_panic [where f = "\<lambda>k _. serialize_inner_data ops k Rg h", OF registry_okD(1) [OF reg] this bad(1)
      serialize_inner_data_panics [OF reg live bad]]
  show ?thesis by (simp add: registry_to_serialized_def)
qed

text \<open>What is written is well formed, because the graph of the nodes is acyclic.\<close>

lemma ser_ok_resolved:
  assumes ok: "world_ok ops w S W R V" and sm: "slotmap_ok ops m"
    and ser: "\<And>k. k \<in> dom (vals m) \<Longrightarrow> \<exists>a d. N k = Some a \<and> vals m k = Some d \<and>
       abs_graph (mem w) a = Some (resolved N d) \<and> fst ` set (ser_incoming d) \<subseteq> dom (vals m)"
  shows "ser_ok ops m"
proof -
  have edge: "p \<in> dom (vals m) \<and> (the (N p), the (N k)) \<in> parents (mem w)" if "(p, k) \<in> ser_parents m" for p k
  proof -
    from that obtain d where d: "vals m k = Some d" "p \<in> fst ` set (ser_incoming d)" by (auto simp: ser_parents_def)
    with ser [of k] obtain a where a: "N k = Some a" "abs_graph (mem w) a = Some (resolved N d)" "p \<in> dom (vals m)" by auto
    from a(2) d(2) have "(the (N p), a) \<in> graph_parents (abs_graph (mem w))" by (force simp: graph_parents_def resolved_def)
    with a show ?thesis by simp
  qed
  have "ser_parents m \<subseteq> inv_image (parents (mem w)) (\<lambda>k. the (N k))" using edge by (auto simp: inv_image_def)
  then have "acyclic (ser_parents m)"
    by (intro wf_acyclic wf_subset [OF wf_inv_image [OF wf_parents [OF ok]]])
  moreover have "Domain (ser_parents m) \<subseteq> dom (vals m)" using edge by blast
  ultimately show ?thesis using sm by (simp add: ser_ok_def)
qed

lemma registry_to_serialized_ser_ok:
  assumes ok: "world_ok ops w S W R V" and reg: "registry_ok ops Rg"
    and dom: "dom (vals m) = dom (vals (reg_nodes Rg))" "slots m = slots (reg_nodes Rg)"
    and ser: "\<And>k a. vals (reg_nodes Rg) k = Some a \<Longrightarrow> \<exists>d. vals m k = Some d \<and>
       abs_graph (mem w) a = Some (resolved (vals (reg_nodes Rg)) d) \<and> fst ` set (ser_incoming d) \<subseteq> dom (vals (reg_nodes Rg))"
  shows "ser_ok ops m"
proof (rule ser_ok_resolved [OF ok])
  show "slotmap_ok ops m"
    using registry_okD(1) [OF reg] dom by (auto simp: slotmap_ok_def slotmap_keys_def dom_def set_eq_iff)
  show "\<exists>a d. vals (reg_nodes Rg) k = Some a \<and> vals m k = Some d \<and>
      abs_graph (mem w) a = Some (resolved (vals (reg_nodes Rg)) d) \<and> fst ` set (ser_incoming d) \<subseteq> dom (vals m)"
    if "k \<in> dom (vals m)" for k
    using that ser unfolding dom(1) by blast
qed

text \<open>Reading what was written makes a copy with the same ids, values, edges and edge values.\<close>

lemma registry_copy:
  fixes w2 :: "('n, 'e, 'k, 's) world"
  assumes ok: "world_ok ops w S W R V" and reg: "registry_ok ops Rg" and ser: "registry_to_serialized ops Rg (mem w) = Inr sr"
    and al: "alloc_ok al" and ok2: "world_ok ops w2 S2 W2 R2 V2"
  shows "\<exists>Rg' all w'. registry_from_serialized al ops sr w2 = Some (Inr ((Rg', all), w')) \<and>
    registry_ok ops Rg' \<and> world_ok ops w' (mset (sec_values all) + S2) (slot_refs ops Rg' + W2) R2 V2 \<and>
    abs_graph (mem w2) \<subseteq>\<^sub>m abs_graph (mem w') \<and> dom (vals (reg_nodes Rg')) = dom (vals (reg_nodes Rg)) \<and>
    (\<forall>k a. vals (reg_nodes Rg) k = Some a \<longrightarrow> (\<exists>a' d. vals (reg_nodes Rg') k = Some a' \<and> sec_get k all = Some a' \<and>
       abs_graph (mem w) a = Some (resolved (vals (reg_nodes Rg)) d) \<and>
       abs_graph (mem w') a' = Some (resolved (vals (reg_nodes Rg')) d)))"
proof -
  have "entry_ok Rg (mem w) a" if "vals (reg_nodes Rg) k = Some a" for k a
    using registry_to_serialized_panics [OF reg world_okD(5) [OF ok] that] ser by fastforce
  from registry_to_serialized_ok [OF reg world_okD(5) [OF ok] this] ser
  have sr: "slots (ser_nodes sr) = slots (reg_nodes Rg)" "dom (vals (ser_nodes sr)) = dom (vals (reg_nodes Rg))"
    and data: "\<And>k a. vals (reg_nodes Rg) k = Some a \<Longrightarrow> \<exists>d. vals (ser_nodes sr) k = Some d \<and>
       abs_graph (mem w) a = Some (resolved (vals (reg_nodes Rg)) d) \<and> fst ` set (ser_incoming d) \<subseteq> dom (vals (reg_nodes Rg))"
    by auto
  have "ser_ok ops (ser_nodes sr)" using sr by (intro registry_to_serialized_ser_ok [OF ok reg _ _ data]) simp_all
  from registry_from_serialized_ok [OF al this ok2] obtain Rg' all w' m w1 where
    1: "registry_from_serialized al ops sr w2 = Some (Inr ((Rg', all), w'))" "registry_ok ops Rg'"
      "vals (reg_nodes Rg') = made all" "world_ok ops w' (mset (sec_values all) + S2) (slot_refs ops Rg' + W2) R2 V2"
    and inv: "deser_inv ops (ser_nodes sr) w2 S2 W2 R2 V2 (m, all, w1)" and deref: "\<And>a. deref (mem w') a = deref (mem w1) a"
    and dom: "dom (made all) = dom (vals (ser_nodes sr))" by blast
  have abs: "abs_graph (mem w') = abs_graph (mem w1)" using deref by (rule abs_graph_deref)
  have mono: "abs_graph (mem w2) \<subseteq>\<^sub>m abs_graph (mem w1)"
    using inv by (simp add: deser_inv_def)
  have copy: "\<exists>a' d. vals (reg_nodes Rg') k = Some a' \<and> sec_get k all = Some a' \<and>
      abs_graph (mem w) a = Some (resolved (vals (reg_nodes Rg)) d) \<and>
      abs_graph (mem w') a' = Some (resolved (vals (reg_nodes Rg')) d)" if k: "vals (reg_nodes Rg) k = Some a" for k a
  proof -
    from data [OF k] obtain d where d: "vals (ser_nodes sr) k = Some d" "abs_graph (mem w) a = Some (resolved (vals (reg_nodes Rg)) d)" by blast
    then obtain a' where a': "made all k = Some a'" using dom by (metis domD domI)
    from deser_inv_made [OF inv a'] d(1) have "abs_graph (mem w1) a' = Some (resolved (made all) d)" by auto
    with d a' 1(3) show ?thesis by (auto simp: abs)
  qed
  have dom': "dom (vals (reg_nodes Rg')) = dom (vals (reg_nodes Rg))" using dom sr(2) 1(3) by simp
  have mono': "abs_graph (mem w2) \<subseteq>\<^sub>m abs_graph (mem w')" using mono abs by simp
  show ?thesis
    by (rule exI [of _ Rg'], rule exI [of _ all], rule exI [of _ w']) (intro conjI allI impI 1 copy mono' dom')
qed

end

end
