(* ===== verification/History_Serial.thy ===== *)
theory History_Serial
  imports Serialize_Correct Ancestors
begin

section \<open>Round trips of history graphs and nodes\<close>

text \<open>
  A graph that holds the parents of its nodes (every graph that \<open>insert_ancestors\<close> fills is one)
  is written without registering anything, and what is written is well formed. Reading it makes a
  graph with the same ids. A node is written and read through the graph of its ancestors.
\<close>

subsection \<open>Writing\<close>

lemma drop_weaks: "drop_tasks ops (map DropRelWeak xs) w = fold mem_weak_drop xs w"
  by (induction xs arbitrary: w) (simp_all add: mem_weak_drop_def)

lemma fold_weak_drop_same: "regs (fold mem_weak_drop xs w) = regs w \<and> deref (mem (fold mem_weak_drop xs w)) a = deref (mem w) a"
  by (induction xs arbitrary: w) (simp_all add: mem_weak_drop_def heap_simps)

lemma deref_weak_clones [simp]:
  "deref (fold weak_clone xs h) a = deref h a" "strong (box (fold weak_clone xs h) a) = strong (box h a)"
  by (induction xs arbitrary: h) (simp_all add: heap_simps)

lemma graph_node_id:
  assumes ok: "world_ok ops w S W R V" and g: "graph_ok g w" and R0: "deref (regs w) (hg_registry g) = Some R0"
  shows "get_node g k = Some a \<longleftrightarrow> a \<in> graph_set g \<and> get_id a R0 = Some k"
    and "get_node g k = Some a \<Longrightarrow> vals (reg_nodes R0) k = Some a"
proof -
  have "get_id a R0 = Some k \<longleftrightarrow> vals (reg_nodes R0) k = Some a"
    using registry_okD(2) [OF world_registry_ok [OF ok R0]] by (simp add: get_id_def as_ptr_def)
  moreover have entry: "vals (reg_nodes R0) k = Some a" if "get_node g k = Some a" for k
    using that g R0 by (fastforce simp: graph_ok_def get_node_def sec_get_def sec_contains_key_def reg_entry_def split: if_splits)
  moreover have "k = j" if "vals (reg_nodes R0) k = Some a" "get_node g j = Some a" for j
    using reg_entry_inj [OF ok, of "hg_registry g" k a j] that entry R0 by (simp add: reg_entry_def)
  ultimately show "get_node g k = Some a \<longleftrightarrow> a \<in> graph_set g \<and> get_id a R0 = Some k"
    by (metis graph_set_iff)
  show "get_node g k = Some a \<Longrightarrow> vals (reg_nodes R0) k = Some a" by (rule entry)
qed

lemma all_node_ids_dom:
  assumes "graph_ok g w"
  shows "set (all_node_ids g) = dom (get_node g)"
  using assms by (auto simp: all_node_ids_def graph_ok_def get_node_def sec_get_def sec_contains_key_def split: if_splits)

subsection \<open>A registry that the program owns\<close>

text \<open>
  While a graph is written the program owns a clone of the registry, whose weak references are
  among its own. Looking up or adding nodes extends it.
\<close>

definition reg_ext :: "('k, 's) Registry \<Rightarrow> addr set \<Rightarrow> ('k, 's) Registry \<Rightarrow> bool" where
  "reg_ext Rg A Rg' \<longleftrightarrow> vals (reg_nodes Rg) \<subseteq>\<^sub>m vals (reg_nodes Rg') \<and>
     ran (vals (reg_nodes Rg')) = ran (vals (reg_nodes Rg)) \<union> A"

lemma reg_ext_refl: "reg_ext Rg {} Rg"
  by (simp add: reg_ext_def)

lemma reg_ext_trans: "reg_ext Rg A Rg1 \<Longrightarrow> reg_ext Rg1 B Rg2 \<Longrightarrow> reg_ext Rg (A \<union> B) Rg2"
  unfolding reg_ext_def by (auto intro: map_le_trans)

definition owned_reg_ok ::
  "('k, 's) slotmap_ops \<Rightarrow> ('k, 's) Registry \<Rightarrow> ('n, 'e, 'k, 's) world \<Rightarrow>
   addr multiset \<Rightarrow> addr multiset \<Rightarrow> addr multiset \<Rightarrow> addr multiset \<Rightarrow> bool" where
  "owned_reg_ok ops Rg w S W R V \<longleftrightarrow> registry_ok ops Rg \<and> world_ok ops w S (slot_refs ops Rg + W) R V"

definition same_nodes :: "('n, 'e, 'k, 's) world \<Rightarrow> ('n, 'e, 'k, 's) world \<Rightarrow> bool" where
  "same_nodes w w' \<longleftrightarrow> regs w' = regs w \<and> (\<forall>a. deref (mem w') a = deref (mem w) a)"

lemma same_nodes_refl: "same_nodes w w"
  by (simp add: same_nodes_def)

lemma same_nodes_trans: "same_nodes w w1 \<Longrightarrow> same_nodes w1 w2 \<Longrightarrow> same_nodes w w2"
  by (simp add: same_nodes_def)

lemma same_nodes_abs: "same_nodes w w' \<Longrightarrow> abs_graph (mem w') = abs_graph (mem w)"
  unfolding same_nodes_def by (intro abs_graph_deref) blast

lemma collect_ancestors_cong:
  assumes "\<And>n. all_parents n h' = all_parents n h"
  shows "collect_ancestors h' (seen, stack) = collect_ancestors h (seen, stack)"
  by (induction seen stack rule: collect_ancestors_induct [where h = h]) (simp_all add: collect_ancestors_simps assms)

lemma all_ancestors_cong: "(\<And>a. deref h' a = deref h a) \<Longrightarrow> all_ancestors n h' = all_ancestors n h"
  unfolding all_ancestors_def by (rule collect_ancestors_cong) (simp add: all_parents_def all_incoming_def)

text \<open>The nodes whose ids are collected for a list of node ids.\<close>

definition collected :: "'k HistoryGraph \<Rightarrow> 'k list \<Rightarrow> ('n, 'e) node_heap \<Rightarrow> addr set" where
  "collected g ns h = (\<Union>n\<in>set ns. set (all_ancestors (the (get_node g n)) h))"

context slot_map
begin

lemma get_id_or_insert_owned:
  assumes own: "owned_reg_ok ops Rg w S W R V" and a: "alive (mem w) a" and res: "get_id_or_insert ops a Rg (mem w) = (k, Rg', h')"
  shows "owned_reg_ok ops Rg' (w\<lparr>mem := h'\<rparr>) S W R V" "reg_ext Rg {a} Rg'" "vals (reg_nodes Rg') k = Some a"
    and "same_nodes w (w\<lparr>mem := h'\<rparr>)" "alive h' b \<longleftrightarrow> alive (mem w) b"
proof -
  have reg: "registry_ok ops Rg" and ok: "world_ok ops w S (slot_refs ops Rg + W) R V" using own by (simp_all add: owned_reg_ok_def)
  have "owned_reg_ok ops Rg' (w\<lparr>mem := h'\<rparr>) S W R V \<and> reg_ext Rg {a} Rg' \<and> vals (reg_nodes Rg') k = Some a \<and>
      same_nodes w (w\<lparr>mem := h'\<rparr>) \<and> (alive h' b \<longleftrightarrow> alive (mem w) b)"
  proof (cases "get_id a Rg")
    case (Some j)
    then have "vals (reg_nodes Rg) j = Some a" using registry_okD(2) [OF reg] by (simp add: get_id_def as_ptr_def)
    with Some res own show ?thesis
      by (auto simp: get_id_or_insert_def reg_ext_def same_nodes_def intro: ranI)
  next
    case None
    with res have add: "add_node ops a Rg (mem w) = (k, Rg', h')" by (simp add: get_id_or_insert_def)
    note new = add_node_new [OF reg add None]
    have "world_ok ops (w\<lparr>mem := weak_clone a (mem w)\<rparr>) S (add_mset a (slot_refs ops Rg + W)) R V"
      by (rule weak_clone_ok [OF ok alive_weak_count [OF ok a]])
    moreover have "weak_clone a (mem w) = h'" by (simp add: new(2) weak_clone_def rc_downgrade_def)
    ultimately show ?thesis using new
      by (auto simp: owned_reg_ok_def reg_ext_def map_le_def same_nodes_def heap_simps ran_map_upd)
  qed
  then show "owned_reg_ok ops Rg' (w\<lparr>mem := h'\<rparr>) S W R V" "reg_ext Rg {a} Rg'" "vals (reg_nodes Rg') k = Some a"
    "same_nodes w (w\<lparr>mem := h'\<rparr>)" "alive h' b \<longleftrightarrow> alive (mem w) b" by simp_all
qed

lemma get_ids_owned:
  assumes "owned_reg_ok ops Rg w S W R V" "\<forall>n\<in>set ns. alive (mem w) n" "get_ids ops ns Rg (mem w) = (ids, Rg', h')"
  shows "owned_reg_ok ops Rg' (w\<lparr>mem := h'\<rparr>) S W R V \<and> reg_ext Rg (set ns) Rg' \<and> same_nodes w (w\<lparr>mem := h'\<rparr>) \<and>
    set ids = {k. \<exists>n\<in>set ns. vals (reg_nodes Rg') k = Some n}"
  using assms
proof (induction ns arbitrary: Rg w ids)
  case (Cons n ns)
  obtain k Rg1 h1 where 1: "get_id_or_insert ops n Rg (mem w) = (k, Rg1, h1)" by (metis prod_cases3)
  obtain ids2 Rg2 h2 where 2: "get_ids ops ns Rg1 h1 = (ids2, Rg2, h2)" by (metis prod_cases3)
  from Cons.prems 1 2 have eq: "ids = k # ids2" "Rg' = Rg2" "h' = h2" by simp_all
  note s1 = get_id_or_insert_owned [OF Cons.prems(1) _ 1]
  have "alive (mem w) n" using Cons.prems(2) by simp
  note s1 = s1 [OF this]
  have s2: "owned_reg_ok ops Rg2 (w\<lparr>mem := h2\<rparr>) S W R V" "reg_ext Rg1 (set ns) Rg2" "same_nodes (w\<lparr>mem := h1\<rparr>) (w\<lparr>mem := h2\<rparr>)"
      "set ids2 = {k. \<exists>n\<in>set ns. vals (reg_nodes Rg2) k = Some n}"
    using Cons.IH [OF s1(1)] s1(5) Cons.prems(2) 2 eq by simp_all
  have k: "vals (reg_nodes Rg2) k = Some n" using s1(3) s2(2) unfolding reg_ext_def map_le_def by (metis domI)
  have reg2: "registry_ok ops Rg2" using s2(1) by (simp add: owned_reg_ok_def)
  have "vals (reg_nodes Rg2) j = Some n \<longleftrightarrow> j = k" for j
    using registry_okD(2) [OF reg2, of n] k by (metis option.inject)
  then show ?case
    using s2 reg_ext_trans [OF s1(2) s2(2)] same_nodes_trans [OF s1(4) s2(3)] eq by auto
qed (auto simp: reg_ext_refl same_nodes_refl)

lemma reg_ext_ids:
  assumes "registry_ok ops Rg'" "reg_ext Rg B Rg'" "A \<subseteq> ran (vals (reg_nodes Rg))"
  shows "{k. \<exists>b\<in>A. vals (reg_nodes Rg') k = Some b} = {k. \<exists>b\<in>A. vals (reg_nodes Rg) k = Some b}"
proof (intro equalityI subsetI; clarify)
  fix k b assume b: "b \<in> A" "vals (reg_nodes Rg') k = Some b"
  with assms(3) obtain j where j: "vals (reg_nodes Rg) j = Some b" by (auto simp: ran_def)
  then have "vals (reg_nodes Rg') j = Some b" using assms(2) unfolding reg_ext_def map_le_def by (metis domI)
  with b registry_okD(2) [OF assms(1), of b] have "j = k" by (metis option.inject)
  with b j show "\<exists>b\<in>A. vals (reg_nodes Rg) k = Some b" by blast
next
  fix k b assume "b \<in> A" "vals (reg_nodes Rg) k = Some b"
  with assms(2) show "\<exists>b\<in>A. vals (reg_nodes Rg') k = Some b" unfolding reg_ext_def map_le_def by (metis domI)
qed

lemma visit_ancestors:
  assumes own: "owned_reg_ok ops Rg w (graph_own g + S) W R V" and n: "vals (reg_nodes Rg) n = Some a" and a: "a \<in> graph_set g"
    and ids: "get_ids ops (all_ancestors a (rc_clone a (mem w))) Rg (rc_clone a (mem w)) = (ids, Rg', h')"
  shows "registry_get ops n Rg (mem w) = (Some a, rc_clone a (mem w))"
    and "owned_reg_ok ops Rg' (relrc_drop ops a (w\<lparr>mem := h'\<rparr>)) (graph_own g + S) W R V"
    and "same_nodes w (relrc_drop ops a (w\<lparr>mem := h'\<rparr>))"
    and "reg_ext Rg (set (all_ancestors a (mem w))) Rg'"
    and "set ids = {k. \<exists>b\<in>set (all_ancestors a (mem w)). vals (reg_nodes Rg') k = Some b}"
proof -
  have reg: "registry_ok ops Rg" and ok: "world_ok ops w (graph_own g + S) (slot_refs ops Rg + W) R V"
    using own by (simp_all add: owned_reg_ok_def)
  have alive: "alive (mem w) a" using owned_strong [OF ok, of a] a by simp
  show "registry_get ops n Rg (mem w) = (Some a, rc_clone a (mem w))"
    using registry_get_effect [OF reg, of n "mem w"] n alive by (simp add: prod_eq_iff)
  let ?w1 = "w\<lparr>mem := rc_clone a (mem w)\<rparr>" and ?w2 = "w\<lparr>mem := h'\<rparr>"
  have anc: "all_ancestors a (mem ?w1) = all_ancestors a (mem w)" by (rule all_ancestors_cong) (simp add: heap_simps)
  have own1: "owned_reg_ok ops Rg ?w1 (add_mset a (graph_own g + S)) W R V"
    using clone_ok [OF ok alive] reg by (simp add: owned_reg_ok_def)
  have "alive (mem ?w1) b" if "b \<in> set (all_ancestors a (mem w))" for b
    using that all_ancestors_sound [of a "mem w"] parent_alive [OF ok _ alive, of b] by (auto simp: heap_simps)
  with get_ids_owned [OF own1, of "all_ancestors a (mem w)" ids Rg' h'] ids anc
  have 2: "owned_reg_ok ops Rg' ?w2 (add_mset a (graph_own g + S)) W R V" "reg_ext Rg (set (all_ancestors a (mem w))) Rg'"
      "same_nodes ?w1 ?w2" "set ids = {k. \<exists>b\<in>set (all_ancestors a (mem w)). vals (reg_nodes Rg') k = Some b}" by simp_all
  then have ok2: "world_ok ops ?w2 (add_mset a (graph_own g + S)) (slot_refs ops Rg' + W) R V" by (simp add: owned_reg_ok_def)
  have drop: "relrc_drop ops a ?w2 = ?w2\<lparr>mem := rc_release a (mem ?w2)\<rparr>"
    using a by (intro drop_shared [OF ok2]) simp
  show "owned_reg_ok ops Rg' (relrc_drop ops a ?w2) (graph_own g + S) W R V"
    using 2(1) relrc_drop_ok [OF slot_map_axioms ok2] by (simp add: owned_reg_ok_def)
  show "same_nodes w (relrc_drop ops a ?w2)" using 2(3) by (simp add: drop same_nodes_def heap_simps)
  show "reg_ext Rg (set (all_ancestors a (mem w))) Rg'"
    "set ids = {k. \<exists>b\<in>set (all_ancestors a (mem w)). vals (reg_nodes Rg') k = Some b}" by (rule 2)+
qed

lemma collect_ids_owned:
  assumes "owned_reg_ok ops Rg w (graph_own g + S) W R V" "get_node g \<subseteq>\<^sub>m vals (reg_nodes Rg)" "set ns \<subseteq> dom (get_node g)"
  shows "\<exists>ids Rg' w'. collect_ids ops ns Rg w = Inr (ids, Rg', w') \<and> owned_reg_ok ops Rg' w' (graph_own g + S) W R V \<and>
    same_nodes w w' \<and> reg_ext Rg (collected g ns (mem w)) Rg' \<and>
    set ids = {k. \<exists>b\<in>collected g ns (mem w). vals (reg_nodes Rg') k = Some b}"
  using assms
proof (induction ns arbitrary: Rg w)
  case Nil
  then show ?case by (simp add: collected_def same_nodes_refl reg_ext_refl)
next
  case (Cons n ns)
  from Cons.prems(3) obtain a where a: "get_node g n = Some a" by auto
  then have n: "vals (reg_nodes Rg) n = Some a" using Cons.prems(2) by (metis domI map_le_def)
  have a_in: "a \<in> graph_set g" using a by (auto simp: graph_set_iff)
  obtain ids1 Rg1 h1 where 1: "get_ids ops (all_ancestors a (rc_clone a (mem w))) Rg (rc_clone a (mem w)) = (ids1, Rg1, h1)"
    by (metis prod_cases3)
  note v = visit_ancestors [OF Cons.prems(1) n a_in 1]
  let ?w1 = "relrc_drop ops a (w\<lparr>mem := h1\<rparr>)"
  have "get_node g \<subseteq>\<^sub>m vals (reg_nodes Rg1)" using Cons.prems(2) v(4) by (auto simp: reg_ext_def intro: map_le_trans)
  with Cons.IH [OF v(2)] Cons.prems(3) obtain ids2 Rg2 w2 where
    2: "collect_ids ops ns Rg1 ?w1 = Inr (ids2, Rg2, w2)" "owned_reg_ok ops Rg2 w2 (graph_own g + S) W R V"
      "same_nodes ?w1 w2" "reg_ext Rg1 (collected g ns (mem ?w1)) Rg2"
      "set ids2 = {k. \<exists>b\<in>collected g ns (mem ?w1). vals (reg_nodes Rg2) k = Some b}" by auto
  have col: "collected g ns (mem ?w1) = collected g ns (mem w)"
    using all_ancestors_cong [of "mem ?w1" "mem w"] v(3) by (simp add: collected_def same_nodes_def)
  have reg2: "registry_ok ops Rg2" using 2(2) by (simp add: owned_reg_ok_def)
  have "set (all_ancestors a (mem w)) \<subseteq> ran (vals (reg_nodes Rg1))" using v(4) by (auto simp: reg_ext_def)
  from reg_ext_ids [OF reg2 2(4) this] v(5)
  have ids1: "set ids1 = {k. \<exists>b\<in>set (all_ancestors a (mem w)). vals (reg_nodes Rg2) k = Some b}" by simp
  have step: "collected g (n # ns) (mem w) = set (all_ancestors a (mem w)) \<union> collected g ns (mem w)"
    using a by (simp add: collected_def)
  have "collect_ids ops (n # ns) Rg w = Inr (ids1 @ ids2, Rg2, w2)" using v(1) 1 2(1) by simp
  moreover have "set (ids1 @ ids2) = {k. \<exists>b\<in>collected g (n # ns) (mem w). vals (reg_nodes Rg2) k = Some b}"
    using ids1 2(5) unfolding col step by auto
  moreover have "reg_ext Rg (collected g (n # ns) (mem w)) Rg2"
    using reg_ext_trans [OF v(4) 2(4)] by (simp add: col step)
  ultimately show ?case using 2(2) same_nodes_trans [OF v(3) 2(3)] by blast
qed

end

subsection \<open>What is written\<close>

text \<open>
  The nodes of the graph and the ancestors of theirs that \<open>all_ancestors\<close> lists. They are closed
  under parents when the graph is, or when none of its nodes has a shared ancestor.
\<close>

definition anc_nodes :: "'k HistoryGraph \<Rightarrow> ('n, 'e) node_heap \<Rightarrow> addr set" where
  "anc_nodes g h = (\<Union>a\<in>graph_set g. set (all_ancestors a h))"

definition anc_closed :: "'k HistoryGraph \<Rightarrow> ('n, 'e) node_heap \<Rightarrow> bool" where
  "anc_closed g h \<longleftrightarrow> (\<forall>b\<in>anc_nodes g h. set (all_parents b h) \<subseteq> anc_nodes g h)"

lemma anc_nodes_self: "graph_set g \<subseteq> anc_nodes g h"
proof -
  have "a \<in> set (all_ancestors a h)" for a by (subst all_ancestors_self) simp
  then show ?thesis by (auto simp: anc_nodes_def)
qed

lemma closed_graph_anc:
  assumes "closed_graph g h"
  shows "anc_closed g h" "anc_nodes g h = graph_set g"
proof -
  have "anc_nodes g h \<subseteq> graph_set g"
    using all_ancestors_sound [of _ h] slot_map.closed_graph_ancestors [OF gen.slot_map_axioms assms] by (force simp: anc_nodes_def)
  with anc_nodes_self show eq: "anc_nodes g h = graph_set g" by blast
  show "anc_closed g h" using assms by (simp add: anc_closed_def eq closed_graph_def)
qed

lemma unshared_anc:
  assumes "acyclic (parents h)" "\<forall>a\<in>graph_set g. unshared h a"
  shows "anc_closed g h" "anc_nodes g h = (\<Union>a\<in>graph_set g. ancestors h a)"
proof -
  have "set (all_ancestors a h) = ancestors h a" if "a \<in> graph_set g" for a
    using that assms by (intro all_ancestors_complete) auto
  then show eq: "anc_nodes g h = (\<Union>a\<in>graph_set g. ancestors h a)" by (simp add: anc_nodes_def)
  show "anc_closed g h" unfolding anc_closed_def eq
    by (auto simp: parents_all_parents [symmetric] intro: converse_rtrancl_into_rtrancl)
qed

text \<open>The registry after the ids have been collected.\<close>

lemma history_to_serialized_steps:
  fixes w :: "('n, 'e, 'k::linorder, 's) world"
  assumes sm: "slot_map ops" and inv: "hist_inv ops g w S W R V" and R0: "deref (regs w) (hg_registry g) = Some R0"
  shows "\<exists>ids R1 w1. history_to_serialized ops g w =
      and_then (registry_to_serialized ops R1 (mem w1)) (\<lambda>sr. Inr (\<lparr>shg_nodes = dom (get_node g),
         shg_registry = sr\<lparr>ser_nodes := slotmap_retain ops (\<lambda>k. k \<in> set ids) (ser_nodes sr)\<rparr>\<rparr>, drop_tasks ops (slot_drops ops R1) w1)) \<and>
    owned_reg_ok ops R1 w1 (graph_own g + S) W (add_mset (hg_registry g) R) V \<and> same_nodes w w1 \<and>
    reg_ext R0 (anc_nodes g (mem w)) R1 \<and> set ids = {k. \<exists>b\<in>anc_nodes g (mem w). vals (reg_nodes R1) k = Some b}"
proof -
  let ?xs = "map snd (slotmap_iter ops (reg_nodes R0))"
  let ?w0 = "w\<lparr>mem := fold weak_clone ?xs (mem w)\<rparr>"
  have ok: "world_ok ops w (graph_own g + S) W (add_mset (hg_registry g) R) V" and g: "graph_ok g w"
    using inv by (simp_all add: hist_inv_def)
  have refs: "mset ?xs = slot_refs ops R0" by (simp add: slot_refs_def slotmap_values_def slotmap_iter_snd)
  have "0 < weak (box (mem w) a)" if "a \<in> set ?xs" for a
  proof -
    have "a \<in># slot_refs ops R0" using that refs by (metis set_mset_mset)
    then have "a \<in># refs (slot_refs ops) (regs w)" using R0 by (auto simp: in_refs_iff)
    then show ?thesis using world_okD(2) [OF ok] by (simp add: weak_ok_def)
  qed
  then have own0: "owned_reg_ok ops R0 ?w0 (graph_own g + S) W (add_mset (hg_registry g) R) V"
    using weak_handles.dup_all_ok [OF ok, of ?xs] world_registry_ok [OF ok R0]
    unfolding owned_reg_ok_def refs [symmetric] by (simp add: fold_mem_weak_clone)
  have same0: "same_nodes w ?w0" by (simp add: same_nodes_def)
  have sub: "get_node g \<subseteq>\<^sub>m vals (reg_nodes R0)" using graph_node_id(2) [OF ok g R0] by (auto simp: map_le_def)
  let ?ns = "sorted_list_of_set (set (all_node_ids g))"
  have ns: "set ?ns = dom (get_node g)" unfolding all_node_ids_dom [OF g, symmetric] by simp
  have "collected g ?ns h = (\<Union>a\<in>ran (get_node g). set (all_ancestors a h))" for h :: "('n, 'e) node_heap"
    unfolding collected_def ns by (force simp: ran_def)
  then have col: "collected g ?ns (mem ?w0) = anc_nodes g (mem w)"
    using all_ancestors_cong [of "mem ?w0" "mem w"] by (simp add: anc_nodes_def graph_set_ran)
  from slot_map.collect_ids_owned [OF sm own0 sub equalityD1 [OF ns]] col obtain ids R1 w1 where
    1: "collect_ids ops ?ns R0 ?w0 = Inr (ids, R1, w1)" "owned_reg_ok ops R1 w1 (graph_own g + S) W (add_mset (hg_registry g) R) V"
      "same_nodes ?w0 w1" "reg_ext R0 (anc_nodes g (mem w)) R1" "set ids = {k. \<exists>b\<in>anc_nodes g (mem w). vals (reg_nodes R1) k = Some b}"
    by auto
  have "history_to_serialized ops g w =
      and_then (registry_to_serialized ops R1 (mem w1)) (\<lambda>sr. Inr (\<lparr>shg_nodes = dom (get_node g),
         shg_registry = sr\<lparr>ser_nodes := slotmap_retain ops (\<lambda>k. k \<in> set ids) (ser_nodes sr)\<rparr>\<rparr>, drop_tasks ops (slot_drops ops R1) w1))"
    using 1(1) R0 by (simp add: history_to_serialized_def Let_def) (simp add: all_node_ids_dom [OF g])
  with 1(2,4,5) same_nodes_trans [OF same0 1(3)] show ?thesis by blast
qed

text \<open>
  \<open>written M I g w m\<close>: the slot map \<open>m\<close> describes the collected nodes of the graph, where \<open>M\<close> gives the
  node of an id and \<open>I\<close> the id of a node.
\<close>

definition written ::
  "('k, 's) slotmap_ops \<Rightarrow> ('k \<Rightarrow> addr option) \<Rightarrow> (addr \<Rightarrow> 'k option) \<Rightarrow> 'k HistoryGraph \<Rightarrow> ('n, 'e) node_heap \<Rightarrow> ('n, 'e, 'k, 's) ser_map \<Rightarrow> bool" where
  "written ops M I g h m \<longleftrightarrow> get_node g \<subseteq>\<^sub>m M \<and> dom I = anc_nodes g h \<and> (\<forall>k b. M k = Some b \<longleftrightarrow> I b = Some k) \<and>
     slotmap_ok ops m \<and> dom (vals m) = dom M \<and>
     (\<forall>k b. M k = Some b \<longrightarrow> (\<exists>d. vals m k = Some d \<and> abs_graph h b = Some (resolved M d) \<and> fst ` set (ser_incoming d) \<subseteq> dom M))"

lemma writtenD:
  assumes "written ops M I g h m"
  shows "get_node g \<subseteq>\<^sub>m M" "dom I = anc_nodes g h" "M k = Some b \<longleftrightarrow> I b = Some k" "slotmap_ok ops m" "dom (vals m) = dom M"
    and "M k = Some b \<Longrightarrow> \<exists>d. vals m k = Some d \<and> abs_graph h b = Some (resolved M d) \<and> fst ` set (ser_incoming d) \<subseteq> dom M"
  using assms unfolding written_def by iprover+

lemma written_ser_ok:
  assumes sm: "slot_map ops" and ok: "world_ok ops w S W R V" and wr: "written ops M I g (mem w) m"
  shows "ser_ok ops m"
proof (rule slot_map.ser_ok_resolved [OF sm ok writtenD(4) [OF wr]])
  fix k assume "k \<in> dom (vals m)"
  then obtain b where "M k = Some b" using writtenD(5) [OF wr] by blast
  with writtenD(6) [OF wr this] show "\<exists>b d. M k = Some b \<and> vals m k = Some d \<and>
      abs_graph (mem w) b = Some (resolved M d) \<and> fst ` set (ser_incoming d) \<subseteq> dom (vals m)"
    unfolding writtenD(5) [OF wr] by blast
qed

lemma resolved_cong:
  "(\<And>p. p \<in> fst ` set (ser_incoming d) \<Longrightarrow> f p = f' p) \<Longrightarrow> resolved f d = resolved f' d"
  by (force simp: resolved_def)

text \<open>A registry that has been written: all entries are there, each as the memory has it.\<close>

lemma registry_written:
  assumes sm: "slot_map ops" and reg: "registry_ok ops Rg" and live: "live_ok h" and sr: "registry_to_serialized ops Rg h = Inr sr"
  shows "slotmap_ok ops (ser_nodes sr)" "dom (vals (ser_nodes sr)) = dom (vals (reg_nodes Rg))"
    and "vals (reg_nodes Rg) k = Some a \<Longrightarrow> \<exists>d. vals (ser_nodes sr) k = Some d \<and>
       abs_graph h a = Some (resolved (vals (reg_nodes Rg)) d) \<and> fst ` set (ser_incoming d) \<subseteq> dom (vals (reg_nodes Rg))"
proof -
  have "entry_ok Rg h a" if "vals (reg_nodes Rg) k = Some a" for k a
    using slot_map.registry_to_serialized_panics [OF sm reg live that] sr by fastforce
  from slot_map.registry_to_serialized_ok [OF sm reg live this] sr
  have slots: "slots (ser_nodes sr) = slots (reg_nodes Rg)" and dom: "dom (vals (ser_nodes sr)) = dom (vals (reg_nodes Rg))"
    and data: "\<And>k a. vals (reg_nodes Rg) k = Some a \<Longrightarrow> \<exists>d. vals (ser_nodes sr) k = Some d \<and>
       abs_graph h a = Some (resolved (vals (reg_nodes Rg)) d) \<and> fst ` set (ser_incoming d) \<subseteq> dom (vals (reg_nodes Rg))" by auto
  show "slotmap_ok ops (ser_nodes sr)"
    using registry_okD(1) [OF reg] slots dom by (auto simp: slotmap_ok_def slotmap_keys_def dom_def set_eq_iff)
  show "dom (vals (ser_nodes sr)) = dom (vals (reg_nodes Rg))"
    "vals (reg_nodes Rg) k = Some a \<Longrightarrow> \<exists>d. vals (ser_nodes sr) k = Some d \<and>
       abs_graph h a = Some (resolved (vals (reg_nodes Rg)) d) \<and> fst ` set (ser_incoming d) \<subseteq> dom (vals (reg_nodes Rg))"
    by (rule dom, rule data)
qed

lemma retained_written:
  fixes w :: "('n, 'e, 'k, 's) world"
  assumes sm: "slot_map ops" and g: "get_node g \<subseteq>\<^sub>m vals (reg_nodes R0)" and closed: "anc_closed g (mem w)"
    and reg: "registry_ok ops R1" and live: "live_ok h" and deref: "\<And>a. deref h a = deref (mem w) a"
    and ext: "reg_ext R0 (anc_nodes g (mem w)) R1"
    and K: "K = {k. \<exists>b\<in>anc_nodes g (mem w). vals (reg_nodes R1) k = Some b}"
    and sr: "registry_to_serialized ops R1 h = Inr sr"
  shows "written ops (vals (reg_nodes R1) |` K) (ptr_to_id R1 |` anc_nodes g (mem w)) g (mem w) (slotmap_retain ops (\<lambda>k. k \<in> K) (ser_nodes sr))"
proof -
  let ?A = "anc_nodes g (mem w)" and ?v = "vals (reg_nodes R1)"
  note id = registry_okD(2) [OF reg]
  note written = registry_written [OF sm reg live sr]
  have data: "\<exists>d. vals (ser_nodes sr) k = Some d \<and> abs_graph (mem w) a = Some (resolved ?v d) \<and> fst ` set (ser_incoming d) \<subseteq> dom ?v"
    if "?v k = Some a" for k a using written(3) [OF that] abs_graph_deref [OF deref] by simp
  note retain = slot_map.retain_spec [OF sm written(1), of "\<lambda>k. k \<in> K"]
  have ids: "\<exists>k. ?v k = Some b" if "b \<in> ?A" for b using ext that by (fastforce simp: reg_ext_def ran_def)
  have sub: "get_node g \<subseteq>\<^sub>m ?v |` K"
  proof (rule map_le_trans)
    have "k \<in> K" if "get_node g k = Some a" for k a
    proof -
      have "?v k = Some a" using that g ext unfolding reg_ext_def map_le_def by (metis domI)
      moreover have "a \<in> ?A" using that anc_nodes_self [of g "mem w"] unfolding subset_iff graph_set_iff by blast
      ultimately show ?thesis unfolding K by blast
    qed
    then show "get_node g \<subseteq>\<^sub>m get_node g |` K" by (auto simp: map_le_def)
    show "get_node g |` K \<subseteq>\<^sub>m ?v |` K"
      using map_le_trans [OF g, of ?v] ext by (auto simp: reg_ext_def map_le_def restrict_map_def)
  qed
  have node: "\<exists>d. vals (slotmap_retain ops (\<lambda>k. k \<in> K) (ser_nodes sr)) k = Some d \<and>
      abs_graph (mem w) b = Some (resolved (?v |` K) d) \<and> fst ` set (ser_incoming d) \<subseteq> dom (?v |` K)"
    if k: "(?v |` K) k = Some b" for k b
  proof -
    from k have kb: "?v k = Some b" "k \<in> K" by (auto simp: restrict_map_def split: if_splits)
    then have "b \<in> ?A" unfolding K by auto
    from data [OF kb(1)] obtain d where d: "vals (ser_nodes sr) k = Some d" "abs_graph (mem w) b = Some (resolved ?v d)"
      "fst ` set (ser_incoming d) \<subseteq> dom ?v" by blast
    have par: "p \<in> K" if "p \<in> fst ` set (ser_incoming d)" for p
    proof -
      from that d(3) obtain c where c: "?v p = Some c" by blast
      with that d(2) have "(c, b) \<in> graph_parents (abs_graph (mem w))" by (force simp: graph_parents_def resolved_def)
      then have "c \<in> set (all_parents b (mem w))" by (simp add: parents_all_parents)
      with closed \<open>b \<in> ?A\<close> have "c \<in> ?A" unfolding anc_closed_def by blast
      with c show ?thesis unfolding K by blast
    qed
    then have "resolved ?v d = resolved (?v |` K) d" by (intro resolved_cong) (simp add: restrict_map_def)
    with d par kb(2) show ?thesis by (auto simp: retain(2))
  qed
  have "dom (vals (slotmap_retain ops (\<lambda>k. k \<in> K) (ser_nodes sr))) = dom (?v |` K)"
    using written(2) unfolding set_eq_iff domIff by (simp add: retain(2) restrict_map_def)
  moreover have "dom (ptr_to_id R1 |` ?A) = ?A" using ids id by (fastforce simp: restrict_map_def dom_def split: if_splits)
  moreover have "(?v |` K) k = Some b \<longleftrightarrow> (ptr_to_id R1 |` ?A) b = Some k" for k b
    unfolding K by (auto simp: restrict_map_def id)
  ultimately show ?thesis using sub retain(1) node unfolding written_def by blast
qed

lemma history_to_serialized_data:
  fixes w :: "('n, 'e, 'k::linorder, 's) world"
  assumes sm: "slot_map ops" and inv: "hist_inv ops g w S W R V" and closed: "anc_closed g (mem w)"
    and res: "history_to_serialized ops g w = Inr (sh, w')"
  shows "hist_inv ops g w' S W R V" "same_nodes w w'" "shg_nodes sh = dom (get_node g)"
    and "\<exists>M I. written ops M I g (mem w) (ser_nodes (shg_registry sh))"
proof -
  have ok: "world_ok ops w (graph_own g + S) W (add_mset (hg_registry g) R) V" and g: "graph_ok g w"
    using inv by (simp_all add: hist_inv_def)
  obtain R0 where R0: "deref (regs w) (hg_registry g) = Some R0" using g by (auto simp: graph_ok_def)
  from history_to_serialized_steps [OF sm inv R0] obtain ids R1 w1 where
    eq: "history_to_serialized ops g w =
      and_then (registry_to_serialized ops R1 (mem w1)) (\<lambda>sr. Inr (\<lparr>shg_nodes = dom (get_node g),
         shg_registry = sr\<lparr>ser_nodes := slotmap_retain ops (\<lambda>k. k \<in> set ids) (ser_nodes sr)\<rparr>\<rparr>, drop_tasks ops (slot_drops ops R1) w1))"
    and own: "owned_reg_ok ops R1 w1 (graph_own g + S) W (add_mset (hg_registry g) R) V" and same: "same_nodes w w1"
    and ext: "reg_ext R0 (anc_nodes g (mem w)) R1" and ids: "set ids = {k. \<exists>b\<in>anc_nodes g (mem w). vals (reg_nodes R1) k = Some b}"
    by blast
  have reg1: "registry_ok ops R1" and ok1: "world_ok ops w1 (graph_own g + S) (slot_refs ops R1 + W) (add_mset (hg_registry g) R) V"
    using own by (simp_all add: owned_reg_ok_def)
  from res [unfolded eq] obtain sr where sr: "registry_to_serialized ops R1 (mem w1) = Inr sr"
    and w': "w' = drop_tasks ops (slot_drops ops R1) w1"
    and sh: "sh = \<lparr>shg_nodes = dom (get_node g), shg_registry = sr\<lparr>ser_nodes := slotmap_retain ops (\<lambda>k. k \<in> set ids) (ser_nodes sr)\<rparr>\<rparr>"
    by (auto simp: and_then_def split: sum.splits)
  let ?xs = "map snd (slotmap_iter ops (reg_nodes R1))"
  have w'_fold: "w' = fold mem_weak_drop ?xs w1" using drop_weaks [of ops ?xs w1] by (simp add: w' slot_drops_def comp_def)
  have "mset ?xs = slot_refs ops R1" by (simp add: slot_refs_def slotmap_values_def slotmap_iter_snd)
  then have ok': "world_ok ops w' (graph_own g + S) W (add_mset (hg_registry g) R) V"
    unfolding w'_fold using ok1 by (intro weak_handles.discard_all_ok) simp
  show same': "same_nodes w w'"
    using same_nodes_trans [OF same, of w'] fold_weak_drop_same [of ?xs w1] by (simp add: w'_fold same_nodes_def)
  then have "graph_ok g w'" using g by (simp add: graph_ok_def reg_entry_def same_nodes_def)
  with ok' show "hist_inv ops g w' S W R V" by (simp add: hist_inv_def)
  show "shg_nodes sh = dom (get_node g)" by (simp add: sh)
  have sub: "get_node g \<subseteq>\<^sub>m vals (reg_nodes R0)" using graph_node_id(2) [OF ok g R0] by (auto simp: map_le_def)
  have "deref (mem w1) a = deref (mem w) a" for a using same by (simp add: same_nodes_def)
  from retained_written [OF sm sub closed reg1 world_okD(5) [OF ok1] this ext ids sr]
  show "\<exists>M I. written ops M I g (mem w) (ser_nodes (shg_registry sh))" by (auto simp: sh)
qed

text \<open>
  Writing needs an id for every parent of a node that it writes. It writes all that the registry
  holds, so that one dead entry, or one registered node with a parent that is neither
  registered nor among the ancestors of the graph's nodes, is enough for a panic.
\<close>

definition known :: "'k HistoryGraph \<Rightarrow> ('n, 'e, 'k, 's) world \<Rightarrow> addr set" where
  "known g w = anc_nodes g (mem w) \<union> {a. \<exists>k. reg_entry w (hg_registry g) k a}"

definition writable :: "'k HistoryGraph \<Rightarrow> ('n, 'e, 'k, 's) world \<Rightarrow> bool" where
  "writable g w \<longleftrightarrow> (\<forall>a\<in>known g w. alive (mem w) a \<and> set (all_parents a (mem w)) \<subseteq> known g w)"

lemma history_to_serialized_outcome:
  fixes w :: "('n, 'e, 'k::linorder, 's) world"
  assumes sm: "slot_map ops" and inv: "hist_inv ops g w S W R V"
  shows "if writable g w then \<exists>sh w'. history_to_serialized ops g w = Inr (sh, w')
    else history_to_serialized ops g w = Inl (Expect ''valid node'')"
proof -
  have ok: "world_ok ops w (graph_own g + S) W (add_mset (hg_registry g) R) V" and g: "graph_ok g w"
    using inv by (simp_all add: hist_inv_def)
  obtain R0 where R0: "deref (regs w) (hg_registry g) = Some R0" using g by (auto simp: graph_ok_def)
  from history_to_serialized_steps [OF sm inv R0] obtain ids R1 w1 where
    eq: "history_to_serialized ops g w =
      and_then (registry_to_serialized ops R1 (mem w1)) (\<lambda>sr. Inr (\<lparr>shg_nodes = dom (get_node g),
         shg_registry = sr\<lparr>ser_nodes := slotmap_retain ops (\<lambda>k. k \<in> set ids) (ser_nodes sr)\<rparr>\<rparr>, drop_tasks ops (slot_drops ops R1) w1))"
    and own: "owned_reg_ok ops R1 w1 (graph_own g + S) W (add_mset (hg_registry g) R) V" and same: "same_nodes w w1"
    and ext: "reg_ext R0 (anc_nodes g (mem w)) R1" by blast
  have reg1: "registry_ok ops R1" and ok1: "world_ok ops w1 (graph_own g + S) (slot_refs ops R1 + W) (add_mset (hg_registry g) R) V"
    using own by (simp_all add: owned_reg_ok_def)
  have ran: "ran (vals (reg_nodes R1)) = known g w"
    using ext R0 by (auto simp: reg_ext_def known_def reg_entry_def ran_def)
  then have "registry_contains p R1 \<longleftrightarrow> p \<in> known g w" for p
    using registry_okD(2) [OF reg1] unfolding ran_def registry_contains_def get_id_def as_ptr_def by fastforce
  moreover have "alive (mem w1) a \<longleftrightarrow> alive (mem w) a" "all_parents a (mem w1) = all_parents a (mem w)" for a
    using same alive_iff_deref [OF world_okD(5) [OF ok]] alive_iff_deref [OF world_okD(5) [OF ok1]]
    by (simp_all add: same_nodes_def all_parents_def all_incoming_def)
  ultimately have "entry_ok R1 (mem w1) a \<longleftrightarrow> alive (mem w) a \<and> set (all_parents a (mem w)) \<subseteq> known g w" for a
    by (auto simp: entry_ok_def list_all_iff)
  then have "writable g w \<longleftrightarrow> (\<forall>a\<in>ran (vals (reg_nodes R1)). entry_ok R1 (mem w1) a)" by (simp add: writable_def ran)
  then have all: "writable g w \<longleftrightarrow> (\<forall>k a. vals (reg_nodes R1) k = Some a \<longrightarrow> entry_ok R1 (mem w1) a)" by (auto simp: ran_def)
  show ?thesis
  proof (cases "writable g w")
    case True
    with slot_map.registry_to_serialized_ok [OF sm reg1 world_okD(5) [OF ok1]] all
    obtain sr where "registry_to_serialized ops R1 (mem w1) = Inr sr" by blast
    with eq True show ?thesis by simp
  next
    case False
    with slot_map.registry_to_serialized_panics [OF sm reg1 world_okD(5) [OF ok1]] all
    have "registry_to_serialized ops R1 (mem w1) = Inl (Expect ''valid node'')" by blast
    with eq False show ?thesis by simp
  qed
qed

end
