(* ===== verification/History_Copy.thy ===== *)
theory History_Copy
  imports History_Serial
begin

section \<open>Copies of history graphs and nodes\<close>

text \<open>
  Reading what was written makes a copy of the nodes of the graph and of their ancestors: \<open>copied C A h h'\<close>
  says that \<open>C\<close> gives every node of \<open>A\<close> in the memory \<open>h\<close> its own node in \<open>h'\<close>, with the same value,
  the same edge values and the copies of its parents.
\<close>

definition copied :: "(addr \<Rightarrow> addr option) \<Rightarrow> addr set \<Rightarrow> ('n, 'e) graph \<Rightarrow> ('n, 'e) graph \<Rightarrow> bool" where
  "copied C A g g' \<longleftrightarrow> inj_on C A \<and>
     (\<forall>b\<in>A. \<exists>b' v ps. C b = Some b' \<and> g b = Some (v, ps) \<and> fst ` set ps \<subseteq> A \<and>
        g' b' = Some (v, map (\<lambda>(p, e). (the (C p), e)) ps))"

lemma copiedD:
  assumes "copied C A g g'" "b \<in> A"
  shows "\<exists>b'. C b = Some b'"
    and "C b = Some b' \<Longrightarrow> \<exists>v ps. g b = Some (v, ps) \<and> fst ` set ps \<subseteq> A \<and> g' b' = Some (v, map (\<lambda>(p, e). (the (C p), e)) ps)"
  using assms unfolding copied_def by (auto dest!: bspec [of A _ b])

text \<open>Ancestors are copied to ancestors.\<close>

lemma copied_ancestors:
  assumes cp: "copied C A g g'" and a: "a \<in> A" "C a = Some a'" and anc: "(b, a) \<in> (graph_parents g)\<^sup>*"
  shows "b \<in> A \<and> (\<exists>b'. C b = Some b' \<and> (b', a') \<in> (graph_parents g')\<^sup>*)"
  using anc
proof (induction rule: converse_rtrancl_induct)
  case base
  with a show ?case by simp
next
  case (step p c)
  then obtain c' where c: "c \<in> A" "C c = Some c'" "(c', a') \<in> (graph_parents g')\<^sup>*" by blast
  from copiedD(2) [OF cp c(1,2)] obtain v ps where
    n: "g c = Some (v, ps)" "fst ` set ps \<subseteq> A" "g' c' = Some (v, map (\<lambda>(p, e). (the (C p), e)) ps)" by blast
  have "p \<in> fst ` set ps" using step.hyps(1) n(1) by (auto simp: graph_parents_def)
  then have p: "p \<in> A" using n(2) by blast
  then obtain p' where p': "C p = Some p'" using copiedD(1) [OF cp p] by blast
  with \<open>p \<in> fst ` set ps\<close> n(3) have "(p', c') \<in> graph_parents g'" by (force simp: graph_parents_def)
  with c(3) p p' show ?case by (auto intro: converse_rtrancl_into_rtrancl)
qed

text \<open>Collecting garbage keeps the copies of what is held.\<close>

lemma copied_collect:
  assumes cp: "copied C A g g'" and held: "\<And>b. b \<in> A \<Longrightarrow> \<exists>a\<in>A. \<exists>a'. (b, a) \<in> (graph_parents g)\<^sup>* \<and> C a = Some a' \<and> a' \<in># S"
  shows "copied C A g (collect_garbage S g')"
proof -
  have "collect_garbage S g' b' = g' b'" if "b \<in> A" "C b = Some b'" for b b'
  proof -
    from held [OF that(1)] obtain a a' where a: "a \<in> A" "(b, a) \<in> (graph_parents g)\<^sup>*" "C a = Some a'" "a' \<in># S" by blast
    from copied_ancestors [OF cp a(1,3,2)] that(2) have "(b', a') \<in> (graph_parents g')\<^sup>*" by auto
    with a(4) show ?thesis by (intro collect_garbage_keeps)
  qed
  then have "\<exists>b' v ps. C b = Some b' \<and> g b = Some (v, ps) \<and> fst ` set ps \<subseteq> A \<and>
      collect_garbage S g' b' = Some (v, map (\<lambda>(p, e). (the (C p), e)) ps)" if "b \<in> A" for b
    using copiedD(1) [OF cp that] copiedD(2) [OF cp that] that by fastforce
  with cp show ?thesis by (simp add: copied_def)
qed

subsection \<open>Reading a graph\<close>

text \<open>
  \<open>restored N m g0 g1\<close>: \<open>N\<close> gives every id of \<open>m\<close> its own node in \<open>g1\<close>, as the serialised data describe
  it, at an address that is free in \<open>g0\<close>; the nodes of \<open>g0\<close> are still in \<open>g1\<close>.
\<close>

definition restored :: "('k \<Rightarrow> addr option) \<Rightarrow> ('n, 'e, 'k, 's) ser_map \<Rightarrow> ('n, 'e) graph \<Rightarrow> ('n, 'e) graph \<Rightarrow> bool" where
  "restored N m g0 g1 \<longleftrightarrow> dom N = dom (vals m) \<and> inj_on N (dom N) \<and> g0 \<subseteq>\<^sub>m g1 \<and>
     (\<forall>k a. N k = Some a \<longrightarrow> g0 a = None \<and>
        (\<exists>d. vals m k = Some d \<and> fst ` set (ser_incoming d) \<subseteq> dom N \<and> g1 a = Some (resolved N d)))"

lemma restoredD:
  assumes "restored N m g0 g1"
  shows "dom N = dom (vals m)" "inj_on N (dom N)" "g0 \<subseteq>\<^sub>m g1" "N k = Some a \<Longrightarrow> g0 a = None"
    and "N k = Some a \<Longrightarrow> vals m k = Some d \<Longrightarrow> g1 a = Some (resolved N d)"
  using assms unfolding restored_def by fastforce+

lemma written_restored:
  assumes wr: "written ops M I g h m" and re: "restored N m g0 g1"
  shows "copied (N \<circ>\<^sub>m I) (anc_nodes g h) (abs_graph h) g1"
  unfolding copied_def
proof (intro conjI ballI)
  have I: "\<exists>k. I b = Some k \<and> M k = Some b \<and> (\<exists>b'. N k = Some b')" if "b \<in> anc_nodes g h" for b
  proof -
    from that writtenD(2) [OF wr] obtain k where k: "I b = Some k" "M k = Some b" using writtenD(3) [OF wr] by blast
    then have "k \<in> dom N" using writtenD(5) [OF wr] restoredD(1) [OF re] by blast
    with k show ?thesis by blast
  qed
  show "inj_on (N \<circ>\<^sub>m I) (anc_nodes g h)"
  proof (rule inj_onI)
    fix b c assume b: "b \<in> anc_nodes g h" and c: "c \<in> anc_nodes g h" and eq: "(N \<circ>\<^sub>m I) b = (N \<circ>\<^sub>m I) c"
    from I [OF b] I [OF c] obtain k j where "I b = Some k" "M k = Some b" "k \<in> dom N" "I c = Some j" "M j = Some c" "j \<in> dom N" by blast
    moreover then have "k = j" using eq inj_onD [OF restoredD(2) [OF re], of k j] by (simp add: map_comp_def)
    ultimately show "b = c" by simp
  qed
  fix b assume "b \<in> anc_nodes g h"
  from I [OF this] obtain k b' where k: "I b = Some k" "M k = Some b" "N k = Some b'" by blast
  from writtenD(6) [OF wr k(2)] obtain d where d: "vals m k = Some d" "abs_graph h b = Some (resolved M d)"
    "fst ` set (ser_incoming d) \<subseteq> dom M" by blast
  have par: "the (M p) \<in> anc_nodes g h \<and> (N \<circ>\<^sub>m I) (the (M p)) = N p" if "(p, e) \<in> set (ser_incoming d)" for p e
  proof -
    from that d(3) obtain c where "M p = Some c" by force
    moreover then have "I c = Some p" using writtenD(3) [OF wr] by blast
    ultimately show ?thesis using writtenD(2) [OF wr] by (auto simp: map_comp_def)
  qed
  then have "map (\<lambda>(p, e). (the ((N \<circ>\<^sub>m I) p), e)) (snd (resolved M d)) = snd (resolved N d)"
    by (auto simp: resolved_def)
  moreover have "fst ` set (snd (resolved M d)) \<subseteq> anc_nodes g h" using par by (auto simp: resolved_def)
  ultimately show "\<exists>b' v ps. (N \<circ>\<^sub>m I) b = Some b' \<and> abs_graph h b = Some (v, ps) \<and> fst ` set ps \<subseteq> anc_nodes g h \<and>
      g1 b' = Some (v, map (\<lambda>(p, e). (the ((N \<circ>\<^sub>m I) p), e)) ps)"
    using k d(2) restoredD(5) [OF re k(3) d(1)] by (simp add: map_comp_def resolved_def)
qed

lemma mset_map_filter_partition:
  "mset (List.map_filter f xs) = mset (List.map_filter f (filter p xs)) + mset (List.map_filter f (filter (\<lambda>x. \<not> p x) xs))"
  by (induction xs) (auto simp: map_filter_simps split: option.splits)

lemma sec_values_partition:
  "mset (sec_values m) = mset (sec_values (sec_retain p m)) + mset (sec_values (sec_retain (\<lambda>k. \<not> p k) m))"
  unfolding sec_values_def sec_retain_def by (simp, rule mset_map_filter_partition)

text \<open>A graph is given by its nodes and their ids in its registry.\<close>

lemma get_node_eqI:
  assumes inv: "hist_inv ops g w S W R V" and set: "graph_set g = ran N"
    and ent: "\<And>k a. N k = Some a \<Longrightarrow> reg_entry w (hg_registry g) k a"
  shows "get_node g = N"
proof -
  have ok: "world_ok ops w (graph_own g + S) W (add_mset (hg_registry g) R) V" and g: "graph_ok g w"
    using inv by (simp_all add: hist_inv_def)
  have entry: "reg_entry w (hg_registry g) k a" if "get_node g k = Some a" for k a
    using that g by (fastforce simp: graph_ok_def get_node_def sec_get_def sec_contains_key_def split: if_splits)
  have "get_node g k = Some a \<longleftrightarrow> N k = Some a" for k a
  proof
    assume k: "get_node g k = Some a"
    then obtain j where "N j = Some a" using set graph_set_iff [of a g] by (auto simp: ran_def)
    with reg_entry_inj [OF ok entry [OF k] ent] show "N k = Some a" by blast
  next
    assume k: "N k = Some a"
    then obtain j where "get_node g j = Some a" using set graph_set_iff [of a g] by (auto simp: ran_def)
    with reg_entry_inj [OF ok entry ent [OF k]] show "get_node g k = Some a" by blast
  qed
  then show ?thesis by (metis ext option.exhaust)
qed

lemma made_retain: "made (sec_retain (\<lambda>k. k \<in> K) all) = made all |` K"
  by (auto simp: sec_retain_def sec_get_def sec_contains_key_def restrict_map_def)

context slot_map
begin

lemma insert_nodes_known:
  assumes "hist_inv ops g w (mset ns + S) W R V" "\<forall>a\<in>set ns. \<not> foreign (hg_registry g) a (mem w)" "insert_nodes ops ns (g, w) = (g', w')"
  shows "hist_inv ops g' w' S W R V \<and> hg_registry g' = hg_registry g \<and> graph_set g' = graph_set g \<union> set ns \<and>
    abs_graph (mem w') = abs_graph (mem w) \<and> (\<forall>k b. reg_entry w (hg_registry g) k b \<longrightarrow> reg_entry w' (hg_registry g) k b)"
  using assms
proof (induction ns arbitrary: g w)
  case (Cons a ns)
  obtain x g1 w1 where x: "insert_node ops a (g, w) = (x, g1, w1)" by (metis prod_cases3)
  have inv: "hist_inv ops g w (add_mset a (mset ns + S)) W R V" using Cons.prems(1) by simp
  have nf: "\<not> foreign (hg_registry g) a (mem w)" using Cons.prems(2) by simp
  have "x \<noteq> None" using insert_node_inv [OF inv x] nf by (cases x) auto
  then obtain k where k: "x = Some k" by blast
  with insert_node_inv [OF inv x] have 1: "hist_inv ops g1 w1 (mset ns + S) W R V" "hist_ext g w {a} g1 w1" "get_node g1 k = Some a" by auto
  have keep: "reg_entry w1 (hg_registry g) j b" if "reg_entry w (hg_registry g) j b" for j b
    using 1(2) that by (simp add: hist_ext_def entry_ext_def)
  have set1: "graph_set g1 = insert a (graph_set g)"
    using 1(2,3) graph_set_mono [of g g1] by (auto simp: hist_ext_def graph_set_iff)
  have "insert_nodes ops ns (g1, w1) = (g', w')" using Cons.prems(3) x by simp
  moreover have e: "hg_registry g1 = hg_registry g" "abs_graph (mem w1) = abs_graph (mem w)" using 1(2) by (simp_all add: hist_ext_def)
  moreover have "\<forall>b\<in>set ns. \<not> foreign (hg_registry g1) b (mem w1)"
    using 1(2) Cons.prems(2) unfolding hist_ext_def by (metis list.set_intros(2))
  ultimately have "hist_inv ops g' w' S W R V \<and> hg_registry g' = hg_registry g \<and> graph_set g' = graph_set g1 \<union> set ns \<and>
      abs_graph (mem w') = abs_graph (mem w) \<and> (\<forall>k b. reg_entry w1 (hg_registry g) k b \<longrightarrow> reg_entry w' (hg_registry g) k b)"
    using Cons.IH [OF 1(1)] by simp
  with keep set1 show ?case by auto
qed simp

lemma history_new_known:
  assumes ok: "world_ok ops w (mset ns + S) W (add_mset r R) V" and new: "history_new ops ns r w = (g, w')"
    and nf: "\<forall>a\<in>set ns. \<not> foreign r a (mem w)"
  shows "hist_inv ops g w' S W R V \<and> hg_registry g = r \<and> graph_set g = set ns \<and>
    abs_graph (mem w') = abs_graph (mem w) \<and> (\<forall>k b. reg_entry w r k b \<longrightarrow> reg_entry w' r k b)"
proof -
  let ?g = "\<lparr>hg_nodes = sec_new, hg_registry = r\<rparr> :: 'k HistoryGraph"
  have own: "graph_own ?g = {#}" "graph_set ?g = {}"
    by (simp_all add: graph_own_def graph_set_def sec_values_def sec_new_def map_filter_simps)
  have "deref (regs w) r \<noteq> None"
    using owned_reg [OF ok, of r] alive_iff_deref [OF world_okD(6) [OF ok], of r] by auto
  then have "graph_ok ?g w" by (simp add: graph_ok_def sec_new_def)
  with ok have "hist_inv ops ?g w (mset ns + S) W R V" by (simp add: hist_inv_def own)
  from insert_nodes_known [OF this] new nf own show ?thesis by (simp add: history_new_def)
qed

lemma registry_restored:
  fixes w :: "('n, 'e, 'k, 's) world"
  assumes al: "alloc_ok al" and ser: "ser_ok ops (ser_nodes sr)" and ok: "world_ok ops w S W R V"
  shows "\<exists>Rg all w1. registry_from_serialized al ops sr w = Some (Inr ((Rg, all), w1)) \<and>
    registry_ok ops Rg \<and> vals (reg_nodes Rg) = made all \<and> set (sec_keys all) = dom (made all) \<and>
    world_ok ops w1 (mset (sec_values all) + S) (slot_refs ops Rg + W) R V \<and>
    restored (made all) (ser_nodes sr) (abs_graph (mem w)) (abs_graph (mem w1)) \<and>
    (\<forall>a\<in>ran (made all). node_registry a (mem w1) = None)"
proof -
  from registry_from_serialized_ok [OF assms] obtain Rg all w1 m v1 where
    1: "registry_from_serialized al ops sr w = Some (Inr ((Rg, all), w1))" "registry_ok ops Rg" "vals (reg_nodes Rg) = made all"
      "world_ok ops w1 (mset (sec_values all) + S) (slot_refs ops Rg + W) R V" "dom (made all) = dom (vals (ser_nodes sr))"
    and inv: "deser_inv ops (ser_nodes sr) w S W R V (m, all, v1)" and deref: "\<And>a. deref (mem w1) a = deref (mem v1) a" by blast
  note inv = inv [unfolded deser_inv_def prod.case]
  have "restored (made all) (ser_nodes sr) (abs_graph (mem w)) (abs_graph (mem v1))"
    unfolding restored_def using inv 1(5) by - (elim conjE, intro conjI; (assumption | iprover))
  moreover have "node_registry a (mem w1) = None" if "a \<in> ran (made all)" for a
    using inv that deref unfolding ran_def node_registry_def by fastforce
  moreover have "set (sec_keys all) = dom (made all)" using inv by blast
  ultimately show ?thesis
    using 1 abs_graph_deref [OF deref] by (intro exI [of _ Rg] exI [of _ all] exI [of _ w1]) (simp only: simp_thms, blast)
qed

text \<open>The three assertions of \<open>HistoryGraph::from_serialized\<close> hold.\<close>

lemma kept_checks:
  assumes reg: "registry_ok ops Rg" and vals: "vals (reg_nodes Rg) = made all" and keys: "set (sec_keys all) = dom (made all)"
    and ok: "world_ok ops w (mset (sec_values all) + S) W R V" and K: "K \<subseteq> dom (made all)"
  shows "\<forall>k\<in>K. sec_contains_key k all" "\<forall>k\<in>K. fst (contains_id ops k Rg (mem w))"
    and "\<forall>a\<in>set (sec_values (sec_retain (\<lambda>k. k \<in> K) all)). registry_contains a Rg"
    and "set (sec_values (sec_retain (\<lambda>k. k \<in> K) all)) = ran (made all |` K)" "ran (made all |` K) \<subseteq> ran (made all)"
proof -
  show "\<forall>k\<in>K. sec_contains_key k all" using K keys by (auto simp: sec_contains_key_def)
  have "alive (mem w) a" if "made all k = Some a" for k a
    using owned_strong [OF ok, of a] ranI [of "made all", OF that] by (simp add: made_values)
  then show "\<forall>k\<in>K. fst (contains_id ops k Rg (mem w))"
    using K by (fastforce simp: contains_id_effect [OF reg] vals)
  show eq: "set (sec_values (sec_retain (\<lambda>k. k \<in> K) all)) = ran (made all |` K)" by (simp only: made_values made_retain)
  show sub: "ran (made all |` K) \<subseteq> ran (made all)" by (auto simp: ran_def restrict_map_def split: if_splits)
  show "\<forall>a\<in>set (sec_values (sec_retain (\<lambda>k. k \<in> K) all)). registry_contains a Rg"
    using registry_okD(2) [OF reg] sub unfolding eq ran_def registry_contains_def get_id_def as_ptr_def vals by fastforce
qed

lemma history_from_serialized_ok:
  fixes w :: "('n, 'e, 'k, 's) world"
  assumes al: "alloc_ok al" and ser: "ser_ok ops (ser_nodes (shg_registry sh))" and keep: "shg_nodes sh \<subseteq> dom (vals (ser_nodes (shg_registry sh)))"
    and ok: "world_ok ops w S W R V"
  shows "\<exists>g w' N g1. history_from_serialized al ops sh w = Some (Inr (g, w')) \<and> hist_inv ops g w' S W R V \<and>
    restored N (ser_nodes (shg_registry sh)) (abs_graph (mem w)) g1 \<and> get_node g = N |` shg_nodes sh \<and>
    abs_graph (mem w') = collect_garbage (graph_own g + S) g1"
proof -
  let ?K = "shg_nodes sh"
  from registry_restored [OF al ser ok] obtain Rg all w1 where
    1: "registry_from_serialized al ops (shg_registry sh) w = Some (Inr ((Rg, all), w1))" "registry_ok ops Rg"
      "vals (reg_nodes Rg) = made all" "set (sec_keys all) = dom (made all)"
      "world_ok ops w1 (mset (sec_values all) + S) (slot_refs ops Rg + W) R V"
      "restored (made all) (ser_nodes (shg_registry sh)) (abs_graph (mem w)) (abs_graph (mem w1))"
      "\<forall>a\<in>ran (made all). node_registry a (mem w1) = None" by blast
  let ?kept = "sec_retain (\<lambda>k. k \<in> ?K) all" and ?rest = "sec_retain (\<lambda>k. k \<notin> ?K) all"
  have K: "?K \<subseteq> dom (made all)" using keep restoredD(1) [OF 1(6)] by simp
  note checks = kept_checks [OF 1(2-5) K]
  let ?w2 = "drop_tasks ops (map DropRelRc (sec_values ?rest)) w1"
  have "world_ok ops w1 (mset (sec_values ?rest) + (mset (sec_values ?kept) + S)) (slot_refs ops Rg + W) R V"
    using 1(5) sec_values_partition [of all "\<lambda>k. k \<in> ?K"] by (simp add: ac_simps)
  note w2 = drop_relrcs_ok [OF slot_map_axioms this]
  obtain rc w3 where rc: "rc_registry al Rg ?w2 = (rc, w3)" by fastforce
  note w3 = rc_registry_ok [OF al w2(1) 1(2) rc]
  have mem3: "mem w3 = mem ?w2" using rc by (auto simp: rc_registry_def split: prod.splits)
  obtain g w' where new: "history_new ops (sec_values ?kept) rc w3 = (g, w')" by fastforce
  have "node_registry a (mem w3) = None" if "a \<in> ran (made all)" for a
    using 1(7) that drop_effectD(1) [OF w2(2), of a] by (fastforce simp: mem3 node_registry_def split: option.splits)
  with checks(4,5) have "\<forall>a\<in>set (sec_values ?kept). \<not> foreign rc a (mem w3)" by auto
  note g = history_new_known [OF w3(1) new this]
  then have inv: "hist_inv ops g w' S W R V" and r: "hg_registry g = rc" and set: "graph_set g = ran (made all |` ?K)"
    and abs: "abs_graph (mem w') = abs_graph (mem ?w2)" and ent: "\<And>k b. made all k = Some b \<Longrightarrow> reg_entry w' rc k b"
    using w3(2) 1(3) checks(4) mem3 by (auto simp: reg_entry_def)
  have nodes: "get_node g = made all |` ?K"
  proof (rule get_node_eqI [OF inv])
    fix k a assume "(made all |` ?K) k = Some a"
    then show "reg_entry w' (hg_registry g) k a" using ent r by (auto simp: restrict_map_def split: if_splits)
  qed (simp add: set)
  have "set_mset (mset (sec_values ?kept) + S) = set_mset (graph_own g + S)" using set checks(4) by simp
  then have "abs_graph (mem w') = collect_garbage (graph_own g + S) (abs_graph (mem w1))"
    unfolding abs w2(3) by (rule collect_garbage_cong)
  moreover have "history_from_serialized al ops sh w = Some (Inr (g, w'))"
    using checks(1-3) rc new by (simp add: history_from_serialized_def 1(1) assert_def Let_def)
  ultimately show ?thesis using inv 1(6) nodes by blast
qed

end

subsection \<open>Writing and reading a graph\<close>

lemma history_copy:
  fixes w v :: "('n, 'e, 'k::linorder, 's) world"
  assumes sm: "slot_map ops" and inv: "hist_inv ops g w S W R V" and closed: "anc_closed g (mem w)"
    and res: "history_to_serialized ops g w = Inr (sh, w')"
    and al: "alloc_ok al" and ok: "world_ok ops v S' W' R' V'"
  shows "\<exists>g' v' C. history_from_serialized al ops sh v = Some (Inr (g', v')) \<and> hist_inv ops g' v' S' W' R' V' \<and>
    get_node g' = C \<circ>\<^sub>m get_node g \<and> copied C (anc_nodes g (mem w)) (abs_graph (mem w)) (abs_graph (mem v')) \<and>
    abs_graph (mem v) \<subseteq>\<^sub>m abs_graph (mem v') \<and> (\<forall>a. a \<in> ran C \<longrightarrow> abs_graph (mem v) a = None)"
proof -
  let ?A = "anc_nodes g (mem w)" and ?m = "ser_nodes (shg_registry sh)"
  have w: "world_ok ops w (graph_own g + S) W (add_mset (hg_registry g) R) V" using inv by (simp add: hist_inv_def)
  note data = history_to_serialized_data [OF sm inv closed res]
  from data(4) obtain M I where wr: "written ops M I g (mem w) ?m" by blast
  have "shg_nodes sh \<subseteq> dom (vals ?m)"
    using map_le_implies_dom_le [OF writtenD(1) [OF wr]] writtenD(5) [OF wr] by (simp add: data(3))
  from slot_map.history_from_serialized_ok [OF sm al written_ser_ok [OF sm w wr] this ok] obtain g' v' N g1 where
    1: "history_from_serialized al ops sh v = Some (Inr (g', v'))" "hist_inv ops g' v' S' W' R' V'"
      "restored N ?m (abs_graph (mem v)) g1" "get_node g' = N |` shg_nodes sh"
      "abs_graph (mem v') = collect_garbage (graph_own g' + S') g1" by blast
  let ?C = "N \<circ>\<^sub>m I"
  have nodes: "get_node g' = ?C \<circ>\<^sub>m get_node g"
  proof
    fix k
    show "get_node g' k = (?C \<circ>\<^sub>m get_node g) k"
    proof (cases "get_node g k")
      case (Some a)
      then have "I a = Some k" using writtenD(1,3) [OF wr] unfolding map_le_def by (metis domI)
      with Some show ?thesis by (simp add: 1(4) data(3) map_comp_def domI)
    qed (simp add: 1(4) data(3) map_comp_def domIff)
  qed
  note cp = written_restored [OF wr 1(3)]
  have "copied ?C ?A (abs_graph (mem w)) (collect_garbage (graph_own g' + S') g1)"
  proof (rule copied_collect [OF cp])
    fix b assume "b \<in> ?A"
    then obtain k a where a: "get_node g k = Some a" "b \<in> set (all_ancestors a (mem w))" by (auto simp: anc_nodes_def graph_set_iff)
    then have anc: "a \<in> ?A" "(b, a) \<in> (graph_parents (abs_graph (mem w)))\<^sup>*"
      using anc_nodes_self [of g "mem w"] all_ancestors_sound [of a "mem w"] by (auto simp: graph_set_iff subset_iff)
    from copiedD(1) [OF cp anc(1)] obtain a' where a': "?C a = Some a'" by blast
    have "get_node g' k = Some a'" using a(1) a' by (simp add: nodes)
    then have "a' \<in># graph_own g' + S'" by (auto simp: graph_set_iff simp del: nodes)
    with anc a' show "\<exists>a\<in>?A. \<exists>a'. (b, a) \<in> (graph_parents (abs_graph (mem w)))\<^sup>* \<and> ?C a = Some a' \<and> a' \<in># graph_own g' + S'" by blast
  qed
  moreover have "abs_graph (mem v) \<subseteq>\<^sub>m abs_graph (mem v')"
    unfolding 1(5) by (rule collect_garbage_extends [OF restoredD(3) [OF 1(3)] collect_garbage_alive [OF ok]])
  moreover have "abs_graph (mem v) a = None" if "a \<in> ran ?C" for a
    using that restoredD(4) [OF 1(3)] by (auto simp: ran_def map_comp_def split: option.splits)
  ultimately show ?thesis using 1(1,2) nodes unfolding 1(5) [symmetric] by blast
qed

text \<open>The conversion of a graph by value also releases the graph.\<close>

lemma history_into_serialized_ok:
  fixes w :: "('n, 'e, 'k::linorder, 's) world"
  assumes sm: "slot_map ops" and inv: "hist_inv ops g w S W R V" and closed: "anc_closed g (mem w)"
    and res: "history_into_serialized ops g w = Inr (sh, w')"
  shows "world_ok ops w' S W R V" "abs_graph (mem w') = collect_garbage S (abs_graph (mem w))"
proof -
  from res obtain w1 where his: "history_to_serialized ops g w = Inr (sh, w1)" and w': "w' = history_drop ops g w1"
    by (auto simp: history_into_serialized_def and_then_def split: sum.splits)
  note data = history_to_serialized_data [OF sm inv closed his]
  from slot_map.history_drop_ok [OF sm data(1)] same_nodes_abs [OF data(2)]
  show "world_ok ops w' S W R V" "abs_graph (mem w') = collect_garbage S (abs_graph (mem w))" by (simp_all add: w')
qed

end
