(* ===== verification/Relrc_Copy.thy ===== *)
theory Relrc_Copy
  imports History_Copy
begin

section \<open>Copies of single nodes\<close>

text \<open>
  A node is written and read through the graph of its ancestors. Writing leaves all nodes as they
  are and gives the registry handle back; reading makes copies of the node and of its ancestors,
  of which the caller holds the first.
\<close>

lemma empty_graph_inv:
  assumes ok: "world_ok ops w S W (add_mset r R) V"
  shows "hist_inv ops (fst (history_with_registry ops r w)) w S W R V" "graph_set (fst (history_with_registry ops r w)) = {}"
proof -
  let ?g = "fst (history_with_registry ops r w)"
  have g: "graph_own ?g = {#}" "graph_set ?g = {}" "hg_registry ?g = r" "sec_keys (hg_nodes ?g) = []"
    by (simp_all add: history_with_registry_def history_new_def graph_own_def graph_set_def sec_values_def sec_new_def map_filter_simps)
  have "deref (regs w) r \<noteq> None"
    using owned_reg [OF ok, of r] alive_iff_deref [OF world_okD(6) [OF ok], of r] by auto
  with ok show "hist_inv ops ?g w S W R V" by (simp add: hist_inv_def graph_ok_def g)
  show "graph_set ?g = {}" by (rule g)
qed

lemma history_with_registry_world [simp]: "snd (history_with_registry ops r w) = w" "hg_registry (fst (history_with_registry ops r w)) = r"
  by (simp_all add: history_with_registry_def history_new_def)

text \<open>The graph of the ancestors of a node.\<close>

definition ancestor_graph ::
  "('k, 's) slotmap_ops \<Rightarrow> addr \<Rightarrow> addr \<Rightarrow> ('n, 'e, 'k, 's) world \<Rightarrow> 'k \<Rightarrow> 'k HistoryGraph \<Rightarrow> ('n, 'e, 'k, 's) world \<Rightarrow> bool" where
  "ancestor_graph ops a r w k g w2 \<longleftrightarrow>
     insert_ancestors ops a (fst (history_with_registry ops r w), w\<lparr>mem := relrc_clone a (mem w)\<rparr>) = Some (Inr (k, g, w2)) \<and>
     hg_registry g = r \<and> get_node g k = Some a \<and> graph_set g = ancestors (mem w) a \<and> closed_graph g (mem w2) \<and>
     abs_graph (mem w2) = abs_graph (mem w) \<and> entry_ext r w (ancestors (mem w) a) w2"

context slot_map
begin

lemma ancestor_graph_made:
  assumes ok: "world_ok ops w S W (add_mset r R) V" and a: "a \<in># S"
  shows "(\<exists>k g w2. ancestor_graph ops a r w k g w2 \<and> hist_inv ops g w2 S W R V) \<or>
    insert_ancestors ops a (fst (history_with_registry ops r w), w\<lparr>mem := relrc_clone a (mem w)\<rparr>) =
      Some (Inl (Expect ''node not registered'')) \<and> (\<exists>b\<in>ancestors (mem w) a. foreign r b (mem w))"
proof -
  let ?g0 = "fst (history_with_registry ops r w)" and ?w0 = "w\<lparr>mem := relrc_clone a (mem w)\<rparr>"
  note g0 = empty_graph_inv [OF ok]
  have "alive (mem w) a" using owned_strong [OF ok, of a] a by simp
  note inv0 = hist_inv_clone [OF g0(1) this]
  from insert_ancestors_spec [OF inv0] obtain res where res: "insert_ancestors ops a (?g0, ?w0) = Some res"
    and spec: "case res of Inl p \<Rightarrow> not_registered (ancestors_or_self (mem ?w0) a) ?g0 ?w0 p
      | Inr (k, g', w') \<Rightarrow> get_node g' k = Some a \<and> inserted ops (ancestors_or_self (mem ?w0) a) ?g0 ?w0 S W R V g' w'" by blast
  show ?thesis
  proof (cases res)
    case (Inl p)
    with spec res show ?thesis by (auto simp: not_registered_def relrc_clone_def)
  next
    case (Inr x)
    obtain k g w2 where x: "x = (k, g, w2)" by (cases x) auto
    have cl0: "closed_graph ?g0 (mem ?w0)" using g0(2) by (simp add: closed_graph_def)
    from spec Inr x cl0 have 1: "get_node g k = Some a" "hist_inv ops g w2 S W R V" "closed_graph g (mem w2)"
      "hist_ext ?g0 ?w0 (ancestors (mem w) a) g w2" by (simp_all add: inserted_def relrc_clone_def)
    then have 2: "hg_registry g = r" "abs_graph (mem w2) = abs_graph (mem w)" "entry_ext r w (ancestors (mem w) a) w2"
      "graph_set g \<subseteq> ancestors (mem w) a" using g0(2) by (simp_all add: hist_ext_def relrc_clone_def)
    have "a \<in> graph_set g" using 1(1) by (auto simp: graph_set_iff)
    from closed_graph_ancestors [OF 1(3) this] parents_abs_cong [OF 2(2)] have "ancestors (mem w) a \<subseteq> graph_set g" by simp
    with 1 2 res Inr x show ?thesis by (auto simp: ancestor_graph_def)
  qed
qed

end

lemma relrc_to_serialized_graph:
  assumes "ancestor_graph ops a r w k g w2"
  shows "relrc_to_serialized ops a r w = Some (and_then (history_to_serialized ops g w2) (\<lambda>(sh, w3).
    Inr (\<lparr>srr_id = k, ancestors_graph = sh\<rparr>, history_drop ops g w3)))"
  using assms by (auto simp: relrc_to_serialized_def ancestor_graph_def case_prod_unfold)

lemma ancestor_graph_anc:
  assumes "ancestor_graph ops a r w k g w2"
  shows "anc_closed g (mem w2)" "anc_nodes g (mem w2) = ancestors (mem w) a"
  using assms closed_graph_anc [of g "mem w2"] by (simp_all add: ancestor_graph_def)

text \<open>
  Writing a node always ends. It succeeds if none of the node's ancestors is registered elsewhere and
  whatever else the registry holds is alive, with all its parents.
\<close>

definition node_writable :: "addr \<Rightarrow> addr \<Rightarrow> ('n, 'e, 'k, 's) world \<Rightarrow> bool" where
  "node_writable a r w \<longleftrightarrow> (\<forall>k b. reg_entry w r k b \<longrightarrow> alive (mem w) b \<and>
     set (all_parents b (mem w)) \<subseteq> ancestors (mem w) a \<union> {c. \<exists>j. reg_entry w r j c})"

lemma ancestor_graph_writable:
  assumes gr: "ancestor_graph ops a r w k g w2" and ok: "world_ok ops w S W R V" "world_ok ops w2 S2 W2 R2 V2" and a: "a \<in># S"
  shows "writable g w2 \<longleftrightarrow> node_writable a r w"
proof -
  let ?A = "ancestors (mem w) a" and ?E = "{b. \<exists>k. reg_entry w r k b}"
  have abs: "abs_graph (mem w2) = abs_graph (mem w)" and r: "hg_registry g = r" and ext: "entry_ext r w ?A w2"
    using gr by (simp_all add: ancestor_graph_def)
  have par: "set (all_parents b (mem w2)) = set (all_parents b (mem w))" for b by (rule all_parents_abs_cong [OF abs])
  have live: "alive (mem w2) b \<longleftrightarrow> alive (mem w) b" for b
    using alive_iff_deref [OF world_okD(5) [OF ok(1)], of b] alive_iff_deref [OF world_okD(5) [OF ok(2)], of b] fun_cong [OF abs, of b]
    by (cases "deref (mem w) b"; cases "deref (mem w2) b") (simp_all add: abs_graph_def)
  have known: "known g w2 = ?A \<union> ?E"
    using ext unfolding known_def ancestor_graph_anc(2) [OF gr] r entry_ext_def by blast
  have anc: "alive (mem w) b \<and> set (all_parents b (mem w)) \<subseteq> ?A" if "b \<in> ?A" for b
    using that parent_alive [OF ok(1), of b a] owned_strong [OF ok(1), of a] a
    by (auto simp: parents_all_parents [symmetric] intro: converse_rtrancl_into_rtrancl)
  show ?thesis unfolding writable_def known par live node_writable_def using anc by blast
qed

lemma relrc_to_serialized_outcome:
  fixes w :: "('n, 'e, 'k::linorder, 's) world"
  assumes sm: "slot_map ops" and ok: "world_ok ops w S W (add_mset r R) V" and a: "a \<in># S"
  shows "\<exists>res. relrc_to_serialized ops a r w = Some res \<and>
    (case res of Inr _ \<Rightarrow> node_writable a r w
     | Inl p \<Rightarrow> p = Expect ''valid node'' \<and> \<not> node_writable a r w \<or>
         p = Expect ''node not registered'' \<and> (\<exists>b\<in>ancestors (mem w) a. foreign r b (mem w)))"
  using slot_map.ancestor_graph_made [OF sm ok a]
proof (elim disjE conjE exE)
  fix k g w2 assume gr: "ancestor_graph ops a r w k g w2" and inv: "hist_inv ops g w2 S W R V"
  have "world_ok ops w2 (graph_own g + S) W (add_mset (hg_registry g) R) V" using inv by (simp add: hist_inv_def)
  note wr = ancestor_graph_writable [OF gr ok this a]
  show ?thesis
    using history_to_serialized_outcome [OF sm inv] unfolding relrc_to_serialized_graph [OF gr] wr by (auto split: if_splits)
next
  assume "insert_ancestors ops a (fst (history_with_registry ops r w), w\<lparr>mem := relrc_clone a (mem w)\<rparr>) =
      Some (Inl (Expect ''node not registered''))" "\<exists>b\<in>ancestors (mem w) a. foreign r b (mem w)"
  then show ?thesis by (simp add: relrc_to_serialized_def case_prod_unfold)
qed

subsection \<open>Writing and reading a node\<close>

lemma relrc_to_serialized_steps:
  fixes w :: "('n, 'e, 'k::linorder, 's) world"
  assumes sm: "slot_map ops" and ok: "world_ok ops w S W (add_mset r R) V" and a: "a \<in># S"
    and res: "relrc_to_serialized ops a r w = Some (Inr (s, w1))"
  obtains g w2 w3 where "ancestor_graph ops a r w (srr_id s) g w2" "hist_inv ops g w2 S W R V"
    "history_to_serialized ops g w2 = Inr (ancestors_graph s, w3)" "w1 = history_drop ops g w3"
proof -
  from slot_map.ancestor_graph_made [OF sm ok a] res obtain k g w2 where
    gr: "ancestor_graph ops a r w k g w2" and inv: "hist_inv ops g w2 S W R V"
    by (auto simp: relrc_to_serialized_def case_prod_unfold)
  moreover obtain sh w3 where "history_to_serialized ops g w2 = Inr (sh, w3)" "s = \<lparr>srr_id = k, ancestors_graph = sh\<rparr>" "w1 = history_drop ops g w3"
    using res unfolding relrc_to_serialized_graph [OF gr] by (auto simp: and_then_def split: sum.splits)
  ultimately show ?thesis using that by simp
qed

lemma relrc_copy:
  fixes w v :: "('n, 'e, 'k::linorder, 's) world"
  assumes sm: "slot_map ops" and ok: "world_ok ops w S W (add_mset r R) V" and a: "a \<in># S"
    and res: "relrc_to_serialized ops a r w = Some (Inr (s, w'))"
    and al: "alloc_ok al" and okv: "world_ok ops v S' W' R' V'"
  shows "world_ok ops w' S W R V" "abs_graph (mem w') = abs_graph (mem w)"
    and "\<exists>a' v' C. relrc_from_serialized al ops s v = Some (Inr (a', v')) \<and> world_ok ops v' (add_mset a' S') W' R' V' \<and>
      C a = Some a' \<and> copied C (ancestors (mem w) a) (abs_graph (mem w)) (abs_graph (mem v')) \<and>
      abs_graph (mem v) \<subseteq>\<^sub>m abs_graph (mem v') \<and> abs_graph (mem v) a' = None"
proof -
  let ?A = "ancestors (mem w) a"
  from relrc_to_serialized_steps [OF sm ok a res] obtain g w2 w3 where
    gr: "ancestor_graph ops a r w (srr_id s) g w2" and inv: "hist_inv ops g w2 S W R V"
    and his: "history_to_serialized ops g w2 = Inr (ancestors_graph s, w3)" and w': "w' = history_drop ops g w3" by blast
  have abs2: "abs_graph (mem w2) = abs_graph (mem w)" and k: "get_node g (srr_id s) = Some a" using gr by (simp_all add: ancestor_graph_def)
  note anc = ancestor_graph_anc [OF gr]
  note data = history_to_serialized_data [OF sm inv anc(1) his]
  note drop = slot_map.history_drop_ok [OF sm data(1)]
  show "world_ok ops w' S W R V" using drop(1) by (simp add: w')
  show "abs_graph (mem w') = abs_graph (mem w)"
    using drop(2) same_nodes_abs [OF data(2)] abs2 collect_garbage_alive [OF ok] by (simp add: w')
  from history_copy [OF sm inv anc(1) his al okv, unfolded anc(2) abs2] obtain g' v1 C where
    1: "history_from_serialized al ops (ancestors_graph s) v = Some (Inr (g', v1))" "hist_inv ops g' v1 S' W' R' V'"
      "get_node g' = C \<circ>\<^sub>m get_node g" "copied C ?A (abs_graph (mem w)) (abs_graph (mem v1))"
      "abs_graph (mem v) \<subseteq>\<^sub>m abs_graph (mem v1)" "\<forall>a. a \<in> ran C \<longrightarrow> abs_graph (mem v) a = None" by blast
  from copiedD(1) [OF 1(4), of a] obtain a' where a': "C a = Some a'" by blast
  then have node: "get_node g' (srr_id s) = Some a'" by (simp add: 1(3) k)
  then have "a' \<in> graph_set g'" by (auto simp: graph_set_iff simp del: 1(3))
  then have "alive (mem v1) a'" using 1(2) owned_strong [of _ ops v1 "graph_own g' + S'" W' _ V' a'] by (auto simp: hist_inv_def)
  note v' = slot_map.history_drop_ok [OF sm hist_inv_clone [OF 1(2) this]]
  let ?v' = "history_drop ops g' (v1\<lparr>mem := relrc_clone a' (mem v1)\<rparr>)"
  have abs': "abs_graph (mem ?v') = collect_garbage (add_mset a' S') (abs_graph (mem v1))" using v'(2) by (simp add: relrc_clone_def)
  have "copied C ?A (abs_graph (mem w)) (abs_graph (mem ?v'))"
    unfolding abs' using a' by (intro copied_collect [OF 1(4)]) auto
  moreover have "abs_graph (mem v) \<subseteq>\<^sub>m abs_graph (mem ?v')"
    using collect_garbage_extends [OF 1(5) collect_garbage_alive [OF okv], of "{#a'#}"] by (simp add: abs')
  moreover have "abs_graph (mem v) a' = None" using 1(6) ranI [of C a, OF a'] by simp
  moreover have "relrc_from_serialized al ops s v = Some (Inr (a', ?v'))" using 1(1) node by (simp add: relrc_from_serialized_def)
  ultimately show "\<exists>a' v' C. relrc_from_serialized al ops s v = Some (Inr (a', v')) \<and> world_ok ops v' (add_mset a' S') W' R' V' \<and>
      C a = Some a' \<and> copied C ?A (abs_graph (mem w)) (abs_graph (mem v')) \<and>
      abs_graph (mem v) \<subseteq>\<^sub>m abs_graph (mem v') \<and> abs_graph (mem v) a' = None"
    using v'(1) a' by blast
qed

end
