(* ===== verification/Serial_Examples.thy ===== *)
theory Serial_Examples
  imports Examples Relrc_Copy
begin

section \<open>Concrete serialised registries and histories\<close>

text \<open>
  Two nodes, the second a child of the first, as a serialised registry, and the graph over the
  registry of the family that holds only the parent 0.
\<close>

definition two_nodes :: "(nat, nat, gen_key, gen_slots) SerializedRegistry" where
  "two_nodes = \<lparr>ser_nodes = \<lparr>slots = [(1, True), (1, True)],
     vals = [(0, 1) \<mapsto> \<lparr>ser_value = 30, ser_incoming = [((1, 1), 7)]\<rparr>, (1, 1) \<mapsto> \<lparr>ser_value = 10, ser_incoming = []\<rparr>]\<rparr>\<rparr>"

lemma two_nodes_ok: "ser_ok gen_ops (ser_nodes two_nodes)"
proof -
  have "ser_parents (ser_nodes two_nodes) = {((1, 1), (0, 1))}"
    by (auto simp: ser_parents_def two_nodes_def split: if_splits)
  moreover have "acyclic {((1 :: nat, 1 :: nat), (0 :: nat, 1 :: nat))}"
    by (rule wf_acyclic) (auto intro!: finite_acyclic_wf simp: acyclic_insert)
  ultimately show ?thesis
    by (auto simp: ser_ok_def slotmap_ok_def slotmap_keys_def two_nodes_def gen_ops_def)
qed

definition parent_history :: "gen_key HistoryGraph \<times> ex_world" where
  "parent_history = history_new gen_ops [0] 0 family_world"

lemma parent_history_inv: "hist_inv gen_ops (fst parent_history) (snd parent_history) {#2#} {#} {#} {#}"
  and parent_history_set: "graph_set (fst parent_history) = {0}"
proof -
  have "history_new gen_ops [0] 0 family_world = (fst parent_history, snd parent_history)"
    by (simp add: parent_history_def)
  moreover have "world_ok gen_ops family_world (mset [0] + {#2#}) {#} {#0#} {#}" using family_world_ok by (simp add: add_mset_commute)
  ultimately have "hist_inv gen_ops (fst parent_history) (snd parent_history) {#2#} {#} {#} {#} \<and>
      graph_set (fst parent_history) = {a\<in>set [0]. \<not> foreign 0 a (mem family_world)}"
    using gen.history_new_ok by blast
  then
  show "hist_inv gen_ops (fst parent_history) (snd parent_history) {#2#} {#} {#} {#}" "graph_set (fst parent_history) = {0}"
    by (auto simp: family_node_registry)
qed

lemma parent_history_eval:
  "fst parent_history = \<lparr>hg_nodes = \<lparr>sec_keys = [(1, 1)], sec_vals = [(1, 1) \<mapsto> 0]\<rparr>, hg_registry = 0\<rparr>"
  "mem (snd parent_history) = (mem family_world)[0 := \<lparr>strong = 2, weak = 2, payload = Some \<lparr>node_value = 10, incoming = [],
       outgoing = [\<lparr>we_index = 0, we_target = 2\<rparr>], registry = Some 0\<rparr>\<rparr>]"
  "deref (regs (snd parent_history)) 0 = Some \<lparr>reg_nodes = \<lparr>slots = [(1, True), (1, True)], vals = [(0, 1) \<mapsto> 2, (1, 1) \<mapsto> 0]\<rparr>,
       ptr_to_id = [2 \<mapsto> (0, 1), 0 \<mapsto> (1, 1)]\<rparr>"
  by (simp_all add: parent_history_def history_new_def insert_node_def get_node_id_def hg_get_id_def family_world_eval
      family_eval eval_simps registry_eval_simps sec_new_def sec_contains_key_def sec_insert_def gen_sec_insert_def
      map_filter_simps)

text \<open>The registry knows the child 2, whose parent 1 is neither registered nor an ancestor of 0.\<close>

lemma parent_history_not_writable: "\<not> writable (fst parent_history) (snd parent_history)"
proof -
  let ?h = "mem (snd parent_history)"
  have par: "all_parents 0 ?h = []" "all_parents 2 ?h = [0, 1]"
    by (simp_all add: all_parents_def all_incoming_def parent_history_eval family_world_eval family_eval cell_eval)
  have "all_ancestors 0 ?h = [0]" by (simp add: all_ancestors_def collect_ancestors_simps par)
  then have "anc_nodes (fst parent_history) ?h = {0}" by (simp add: anc_nodes_def parent_history_set)
  moreover have "reg_entry (snd parent_history) 0 k b \<longleftrightarrow> k = (0, 1) \<and> b = 2 \<or> k = (1, 1) \<and> b = 0" for k b
    by (auto simp: reg_entry_def parent_history_eval(3) split: if_splits)
  ultimately have "known (fst parent_history) (snd parent_history) = {0, 2}"
    by (auto simp: known_def parent_history_eval(1))
  then show ?thesis by (simp add: writable_def par)
qed

subsection \<open>The graph of the child and its ancestors\<close>

definition family_history :: "gen_key \<times> gen_key HistoryGraph \<times> ex_world" where
  "family_history = projr (the (insert_ancestors gen_ops 2 (fst (history_with_registry gen_ops 0 family_world),
     family_world\<lparr>mem := relrc_clone 2 (mem family_world)\<rparr>)))"

abbreviation family_graph :: "gen_key HistoryGraph" where
  "family_graph \<equiv> fst (snd family_history)"

abbreviation family_graph_world :: ex_world where
  "family_graph_world \<equiv> snd (snd family_history)"

lemma family_graph_made: "ancestor_graph gen_ops 2 0 family_world (fst family_history) family_graph family_graph_world"
  and family_graph_inv: "hist_inv gen_ops family_graph family_graph_world {#0, 2#} {#} {#} {#}"
proof -
  have "\<not> (\<exists>b\<in>ancestors (mem family_world) 2. foreign 0 b (mem family_world))" by (auto simp: family_node_registry split: if_splits)
  with gen.ancestor_graph_made [of family_world "{#0, 2#}" "{#}" 0 "{#}" "{#}" 2] family_world_ok
  obtain k g w2 where 1: "ancestor_graph gen_ops 2 0 family_world k g w2" "hist_inv gen_ops g w2 {#0, 2#} {#} {#} {#}" by auto
  then have fh: "family_history = (k, g, w2)" by (simp add: family_history_def ancestor_graph_def)
  show "ancestor_graph gen_ops 2 0 family_world (fst family_history) family_graph family_graph_world"
    "hist_inv gen_ops family_graph family_graph_world {#0, 2#} {#} {#} {#}"
    unfolding fh fst_conv snd_conv by (rule 1)+
qed

lemma family_graph_closed: "closed_graph family_graph (mem family_graph_world)"
  using family_graph_made by (simp add: ancestor_graph_def)

lemma family_node_writable: "node_writable 2 0 family_world"
proof -
  have par: "(p, 2) \<in> parents (mem family_world)" if "p \<in> {0, 1}" for p
    using that by (auto simp: parents_all_parents family_parents)
  have "reg_entry family_world 0 k b \<longleftrightarrow> k = (0, 1) \<and> b = 2" for k b
    by (auto simp: reg_entry_def family_registry_at family_registry_def)
  moreover have "alive (mem family_world) 2" using owned_strong [OF family_world_ok, of 2] by simp
  ultimately show ?thesis using par by (auto simp: node_writable_def family_parents)
qed

lemma family_graph_written:
  "\<exists>sh w'. history_to_serialized gen_ops family_graph family_graph_world = Inr (sh, w')"
proof -
  have "world_ok gen_ops family_graph_world (graph_own family_graph + {#0, 2#}) {#} (add_mset (hg_registry family_graph) {#}) {#}"
    using family_graph_inv by (simp add: hist_inv_def)
  from ancestor_graph_writable [OF family_graph_made family_world_ok this] family_node_writable
  show ?thesis using history_to_serialized_outcome [OF gen.slot_map_axioms family_graph_inv] by simp
qed

end
