(* ===== verification/RefCell.thy ===== *)
theory RefCell
  imports Drop
begin

section \<open>Borrow flags of \<open>RefCell\<close>\<close>

text \<open>
  A node keeps its outgoing edges and its registry field in a \<open>RefCell\<close> each, and a registry is
  shared behind an \<open>Rc<RefCell<Registry>>\<close>. A \<open>RefCell\<close> checks borrows when the program runs:
  its flag counts the shared borrows that are held, or is negative while it is borrowed mutably,
  and a conflicting \<open>borrow\<close> or \<open>borrow_mut\<close> panics. The theories before this one leave the flags
  out. Here every operation that borrows is given again with its borrows, in the order and with
  the extent they have in the source, as an action on the flags and the world that may panic.
\<close>

datatype cell = OutgoingOf RelRc | RegistryOf RelRc | RegistryCell addr

type_synonym flags = "cell \<Rightarrow> int"
type_synonym ('n, 'e, 'k, 's) bstate = "flags \<times> ('n, 'e, 'k, 's) world"
type_synonym ('x, 'n, 'e, 'k, 's) action = "('n, 'e, 'k, 's) bstate \<Rightarrow> ('x \<times> ('n, 'e, 'k, 's) bstate) res"

definition return_b :: "'x \<Rightarrow> ('x, 'n, 'e, 'k, 's) action" where
  "return_b x st = Inr (x, st)"

definition bind_b ::
  "('x, 'n, 'e, 'k, 's) action \<Rightarrow> ('x \<Rightarrow> ('y, 'n, 'e, 'k, 's) action) \<Rightarrow> ('y, 'n, 'e, 'k, 's) action" where
  "bind_b m k st = and_then (m st) (\<lambda>(x, st'). k x st')"

text \<open>Code that borrows no cell: an operation of the world, and a function that only reads it.\<close>

definition plain ::
  "(('n, 'e, 'k, 's) world \<Rightarrow> 'x \<times> ('n, 'e, 'k, 's) world) \<Rightarrow> ('x, 'n, 'e, 'k, 's) action" where
  "plain f st = (case st of (F, w) \<Rightarrow> (case f w of (x, w') \<Rightarrow> Inr (x, F, w')))"

definition reads :: "(('n, 'e, 'k, 's) world \<Rightarrow> 'x) \<Rightarrow> ('x, 'n, 'e, 'k, 's) action" where
  "reads f = plain (\<lambda>w. (f w, w))"

subsection \<open>The operations of \<open>RefCell\<close>\<close>

text \<open>\<open>BorrowFlag\<close> of \<open>std::cell\<close>: 0 is unused, \<open>n > 0\<close> means \<open>n\<close> readers and \<open>-1\<close> a writer.\<close>

definition cell_new :: "cell \<Rightarrow> (unit, 'n, 'e, 'k, 's) action" where
  "cell_new c st = (case st of (F, w) \<Rightarrow> Inr ((), F(c := 0), w))"

definition cell_borrow :: "cell \<Rightarrow> (unit, 'n, 'e, 'k, 's) action" where
  "cell_borrow c st =
     (case st of (F, w) \<Rightarrow>
       if F c < 0 then Inl (Explicit ''already mutably borrowed: BorrowError'')
       else Inr ((), F(c := F c + 1), w))"

definition cell_borrow_mut :: "cell \<Rightarrow> (unit, 'n, 'e, 'k, 's) action" where
  "cell_borrow_mut c st =
     (case st of (F, w) \<Rightarrow>
       if F c \<noteq> 0 then Inl (Explicit ''already borrowed: BorrowMutError'')
       else Inr ((), F(c := F c - 1), w))"

text \<open>The drops of a \<open>Ref\<close> and of a \<open>RefMut\<close>.\<close>

definition drop_ref :: "cell \<Rightarrow> (unit, 'n, 'e, 'k, 's) action" where
  "drop_ref c st = (case st of (F, w) \<Rightarrow> Inr ((), F(c := F c - 1), w))"

definition drop_ref_mut :: "cell \<Rightarrow> (unit, 'n, 'e, 'k, 's) action" where
  "drop_ref_mut c st = (case st of (F, w) \<Rightarrow> Inr ((), F(c := F c + 1), w))"

text \<open>A statement that holds a borrow until it is done.\<close>

definition with_ref :: "cell \<Rightarrow> ('x, 'n, 'e, 'k, 's) action \<Rightarrow> ('x, 'n, 'e, 'k, 's) action" where
  "with_ref c m = bind_b (cell_borrow c) (\<lambda>_. bind_b m (\<lambda>x. bind_b (drop_ref c) (\<lambda>_. return_b x)))"

definition with_ref_mut :: "cell \<Rightarrow> ('x, 'n, 'e, 'k, 's) action \<Rightarrow> ('x, 'n, 'e, 'k, 's) action" where
  "with_ref_mut c m = bind_b (cell_borrow_mut c) (\<lambda>_. bind_b m (\<lambda>x. bind_b (drop_ref_mut c) (\<lambda>_. return_b x)))"

text \<open>How the actions run, for the simplifier.\<close>

named_theorems run_simps \<open>running an action on flags and a world\<close>

lemma run_basic [run_simps]:
  "return_b x st = Inr (x, st)"
  "bind_b m k st = and_then (m st) (\<lambda>(x, st'). k x st')"
  "plain f (F, w) = Inr (fst (f w), F, snd (f w))"
  "reads g (F, w) = Inr (g w, F, w)"
  by (simp_all add: return_b_def bind_b_def plain_def reads_def case_prod_unfold)

lemma run_cells [run_simps]:
  "cell_new c (F, w) = Inr ((), F(c := 0), w)"
  "cell_borrow c (F, w) =
     (if F c < 0 then Inl (Explicit ''already mutably borrowed: BorrowError'') else Inr ((), F(c := F c + 1), w))"
  "cell_borrow_mut c (F, w) =
     (if F c \<noteq> 0 then Inl (Explicit ''already borrowed: BorrowMutError'') else Inr ((), F(c := F c - 1), w))"
  "drop_ref c (F, w) = Inr ((), F(c := F c - 1), w)"
  "drop_ref_mut c (F, w) = Inr ((), F(c := F c + 1), w)"
  by (simp_all add: cell_new_def cell_borrow_def cell_borrow_mut_def drop_ref_def drop_ref_mut_def)

lemma run_with_ref [run_simps]:
  "with_ref c (plain f) (F, w) =
     (if F c < 0 then Inl (Explicit ''already mutably borrowed: BorrowError'') else Inr (fst (f w), F, snd (f w)))"
  "with_ref c (reads g) (F, w) =
     (if F c < 0 then Inl (Explicit ''already mutably borrowed: BorrowError'') else Inr (g w, F, w))"
  "with_ref_mut c (plain f) (F, w) =
     (if F c \<noteq> 0 then Inl (Explicit ''already borrowed: BorrowMutError'') else Inr (fst (f w), F, snd (f w)))"
  by (auto simp: with_ref_def with_ref_mut_def run_basic run_cells fun_upd_idem)

subsection \<open>Nodes\<close>

definition relrc_new_b :: "allocator \<Rightarrow> 'n \<Rightarrow> (RelRc, 'n, 'e, 'k, 's) action" where
  "relrc_new_b al v =
     bind_b (plain (\<lambda>w. let (a, h) = relrc_new al v (mem w) in (a, w\<lparr>mem := h\<rparr>))) (\<lambda>a.
     bind_b (cell_new (OutgoingOf a)) (\<lambda>_.
     bind_b (cell_new (RegistryOf a)) (\<lambda>_. return_b a)))"

text \<open>Each edge is pushed under a mutable borrow of its source's outgoing edges.\<close>

definition push_edge_b :: "nat \<Rightarrow> 'e InnerEdgeData \<Rightarrow> (unit, 'n, 'e, 'k, 's) action" where
  "push_edge_b i e = with_ref_mut (OutgoingOf (source e)) (plain (\<lambda>w.
     let (we, h) = inner_edge_downgrade e i (mem w) in ((), w\<lparr>mem := set_payload (source e) (push_outgoing we) h\<rparr>)))"

fun register_outgoing_edges_b :: "nat \<Rightarrow> 'e InnerEdgeData list \<Rightarrow> (unit, 'n, 'e, 'k, 's) action" where
  "register_outgoing_edges_b i [] = return_b ()"
| "register_outgoing_edges_b i (e # es) = bind_b (push_edge_b i e) (\<lambda>_. register_outgoing_edges_b (Suc i) es)"

definition with_parents_b :: "allocator \<Rightarrow> 'n \<Rightarrow> (RelRc \<times> 'e) list \<Rightarrow> (RelRc, 'n, 'e, 'k, 's) action" where
  "with_parents_b al v parents =
     bind_b (plain (\<lambda>w.
       let (a, h1) = rc_cyclic_alloc al (mem w);
           (es, h3) = build_incoming a parents (weak_clone a h1);
           h5 = rc_cyclic_init a (InnerData_with_incoming v es) (weak_drop a h3)
       in ((a, es), w\<lparr>mem := h5\<rparr>))) (\<lambda>(a, es).
     bind_b (cell_new (OutgoingOf a)) (\<lambda>_.
     bind_b (cell_new (RegistryOf a)) (\<lambda>_.
     bind_b (register_outgoing_edges_b 0 es) (\<lambda>_. return_b a))))"

definition all_outgoing_weak_b :: "RelRc \<Rightarrow> (WeakEdge list, 'n, 'e, 'k, 's) action" where
  "all_outgoing_weak_b a =
     with_ref (OutgoingOf a) (plain (\<lambda>w. let (es, h) = all_outgoing_weak a (mem w) in (es, w\<lparr>mem := h\<rparr>)))"

text \<open>\<open>all_outgoing\<close> borrows twice: to reserve the capacity of its result, and to retain.\<close>

definition all_outgoing_b :: "RelRc \<Rightarrow> (Edge list, 'n, 'e, 'k, 's) action" where
  "all_outgoing_b a =
     bind_b (with_ref (OutgoingOf a) (reads (\<lambda>w. length (all_outgoing_weak_ref a (mem w))))) (\<lambda>_.
       with_ref_mut (OutgoingOf a) (plain (\<lambda>w. let (es, h) = all_outgoing a (mem w) in (es, w\<lparr>mem := h\<rparr>))))"

definition all_children_b :: "RelRc \<Rightarrow> (RelRc list, 'n, 'e, 'k, 's) action" where
  "all_children_b a = bind_b (all_outgoing_b a) (\<lambda>edges. return_b (map edge_into_target edges))"

subsection \<open>Registration\<close>

definition rc_registry_b :: "allocator \<Rightarrow> ('k, 's) Registry \<Rightarrow> (addr, 'n, 'e, 'k, 's) action" where
  "rc_registry_b al R = bind_b (plain (rc_registry al R)) (\<lambda>r. bind_b (cell_new (RegistryCell r)) (\<lambda>_. return_b r))"

definition relrc_registry_b :: "RelRc \<Rightarrow> (addr option, 'n, 'e, 'k, 's) action" where
  "relrc_registry_b a = with_ref (RegistryOf a) (plain (relrc_registry a))"

text \<open>
  The borrow in the condition of the \<open>if let\<close> lasts to the end of the \<open>if let\<close>; only then is
  the field borrowed mutably.
\<close>

definition try_set_register_b :: "RelRc \<Rightarrow> addr \<Rightarrow> (bool, 'n, 'e, 'k, 's) action" where
  "try_set_register_b a r =
     bind_b (plain (\<lambda>w. ((), w\<lparr>regs := rc_downgrade r (regs w)\<rparr>))) (\<lambda>_.
     bind_b (cell_borrow (RegistryOf a)) (\<lambda>_.
     bind_b (reads (\<lambda>w. node_registry a (mem w))) (\<lambda>existing.
     bind_b (drop_ref (RegistryOf a)) (\<lambda>_.
       (case existing of
          Some x \<Rightarrow> plain (\<lambda>w. (x = r, w\<lparr>regs := weak_drop r (regs w)\<rparr>))
        | None \<Rightarrow> with_ref_mut (RegistryOf a)
            (plain (\<lambda>w. (True, w\<lparr>mem := set_payload a (\<lambda>d. d\<lparr>registry := Some r\<rparr>) (mem w)\<rparr>))))))))"

definition try_register_in_b ::
  "('k, 's) slotmap_ops \<Rightarrow> RelRc \<Rightarrow> addr \<Rightarrow> ('k option, 'n, 'e, 'k, 's) action" where
  "try_register_in_b ops a r =
     bind_b (try_set_register_b a r) (\<lambda>ok.
       if ok then with_ref_mut (RegistryCell r) (plain (with_registry_mut r (add_node ops a))) else return_b None)"

subsection \<open>Dropping\<close>

text \<open>
  \<open>Drop for RelRc\<close>, for the last reference: the registry field is borrowed mutably to the end;
  the registry is borrowed to look the node up and then, mutably, to remove its id. The strong
  and the weak reference to the registry are dropped before the field is released.
\<close>

definition unregister_b :: "('k, 's) slotmap_ops \<Rightarrow> RelRc \<Rightarrow> (unit, 'n, 'e, 'k, 's) action" where
  "unregister_b ops a =
     with_ref_mut (RegistryOf a)
       (bind_b (plain (\<lambda>w. (node_registry a (mem w), w\<lparr>mem := set_payload a (\<lambda>d. d\<lparr>registry := None\<rparr>) (mem w)\<rparr>))) (\<lambda>field.
         (case field of
            None \<Rightarrow> return_b ()
          | Some r \<Rightarrow>
              bind_b (plain (\<lambda>w. let (x, g) = weak_upgrade r (regs w) in (x, w\<lparr>regs := g\<rparr>))) (\<lambda>upgraded.
              bind_b (case upgraded of
                 None \<Rightarrow> return_b ()
               | Some _ \<Rightarrow>
                   bind_b (with_ref (RegistryCell r) (reads (\<lambda>w.
                     case deref (regs w) r of None \<Rightarrow> None | Some R \<Rightarrow> get_id a R))) (\<lambda>found.
                   bind_b (case found of
                      None \<Rightarrow> return_b ()
                    | Some nid \<Rightarrow> with_ref_mut (RegistryCell r)
                        (plain (\<lambda>w. ((), snd (with_registry_mut r (\<lambda>R h. ((), registry_remove ops nid R h)) w))))) (\<lambda>_.
                   plain (\<lambda>w. ((), w\<lparr>regs := rc_release r (regs w)\<rparr>))))) (\<lambda>_.
              plain (\<lambda>w. ((), w\<lparr>regs := weak_drop r (regs w)\<rparr>)))))))"

lemma set_payload_idem: "(\<And>d. deref h a = Some d \<Longrightarrow> f d = d) \<Longrightarrow> set_payload a f h = h"
  by (cases "deref h a"; cases "a < length h")
    (simp_all add: set_payload_def upd_def box_def list_update_beyond list_update_same_conv [THEN iffD2])

lemma set_payload_same: "deref h a = Some d \<Longrightarrow> set_payload a (\<lambda>_. d) h = h"
  by (rule set_payload_idem) simp

text \<open>
  What stands against unregistering a node: its registry is alive and borrowed mutably, or it
  is borrowed and knows the node.
\<close>

definition borrow_conflict :: "flags \<Rightarrow> ('n, 'e, 'k, 's) world \<Rightarrow> RelRc \<Rightarrow> bool" where
  "borrow_conflict F w a \<longleftrightarrow>
     (case node_registry a (mem w) of
        None \<Rightarrow> False
      | Some r \<Rightarrow> 0 < strong_count r (regs w) \<and>
          (F (RegistryCell r) < 0 \<or>
           0 < F (RegistryCell r) \<and> (case deref (regs w) r of None \<Rightarrow> False | Some R \<Rightarrow> get_id a R \<noteq> None)))"

lemma unregister_b_result:
  "unregister_b ops a (F, w) = Inr (x, st) \<longleftrightarrow>
     F (RegistryOf a) = 0 \<and> \<not> borrow_conflict F w a \<and> st = (F, unregister ops a w)"
proof (cases "node_registry a (mem w)")
  case None
  then have "set_payload a (\<lambda>d. d\<lparr>registry := None\<rparr>) (mem w) = mem w"
    by (intro set_payload_idem) (simp add: node_registry_def)
  with None show ?thesis
    by (auto simp: unregister_b_def with_ref_mut_def run_simps borrow_conflict_def unregister_def fun_upd_idem)
next
  case (Some r)
  show ?thesis
  proof (cases "strong_count r (regs w) = 0")
    case True
    with Some show ?thesis
      by (auto simp: unregister_b_def with_ref_mut_def run_simps borrow_conflict_def unregister_def weak_upgrade_def fun_upd_idem)
  next
    case False
    with Some show ?thesis
      by (auto simp: unregister_b_def with_ref_mut_def [of "RegistryOf a"] run_simps borrow_conflict_def unregister_def
          weak_upgrade_def fun_upd_idem deref_counts_only set_payload_same with_registry_mut_def forget_node_def
          split: option.splits if_splits prod.splits)
  qed
qed

text \<open>The drop machine of \<open>Drop\<close>, with the borrows of each node that it unregisters.\<close>

function drop_tasks_b :: "('k, 's) slotmap_ops \<Rightarrow> drop_task list \<Rightarrow> (unit, 'n, 'e, 'k, 's) action" where
  "drop_tasks_b ops [] (F, w) = Inr ((), F, w)"
| "drop_tasks_b ops (DropRelWeak a # ts) (F, w) = drop_tasks_b ops ts (F, w\<lparr>mem := weak_drop a (mem w)\<rparr>)"
| "drop_tasks_b ops (DropWeakRegistry r # ts) (F, w) = drop_tasks_b ops ts (F, w\<lparr>regs := weak_drop r (regs w)\<rparr>)"
| "drop_tasks_b ops (DropRelRc a # ts) (F, w) =
     (if strong_count a (mem w) = 0 then drop_tasks_b ops ts (F, w)
      else if strong_count a (mem w) > 1 then drop_tasks_b ops ts (F, w\<lparr>mem := rc_release a (mem w)\<rparr>)
      else
        (case unregister_b ops a (F, w) of
           Inl p \<Rightarrow> Inl p
         | Inr (_, F1, w1) \<Rightarrow>
             (let (data, h) = rc_take a (mem w1)
              in drop_tasks_b ops ((case data of None \<Rightarrow> [] | Some d \<Rightarrow> field_drops a d) @ ts) (F1, w1\<lparr>mem := h\<rparr>))))"
  by pat_completeness auto
termination
proof (relation "measures [\<lambda>(ops, ts, F, w). total_strong (mem w), \<lambda>(ops, ts, F, w). length ts]", goal_cases)
  case (6 ops a ts F w y p q F1 w1 x data h)
  then have "unregister_b ops a (F, w) = Inr ((), F1, w1)" by (metis old.unit.exhaust)
  then have w1: "w1 = unregister ops a w" by (simp add: unregister_b_result)
  with 6 have "rc_take a (mem w1) = (data, h)" and "0 < strong (box (mem w1) a)"
    by (simp_all add: strong_count_def unregister_strong)
  then have "total_strong h < total_strong (mem w1)" by (intro total_strong_take)
  with w1 show ?case by (simp add: unregister_strong)
qed (auto simp: total_strong_release strong_count_def)

definition relrc_drop_b :: "('k, 's) slotmap_ops \<Rightarrow> RelRc \<Rightarrow> (unit, 'n, 'e, 'k, 's) action" where
  "relrc_drop_b ops a = drop_tasks_b ops [DropRelRc a]"

text \<open>Dropping a registry borrows nothing: it drops weak references only.\<close>

definition rc_registry_drop_b :: "('k, 's) slotmap_ops \<Rightarrow> addr \<Rightarrow> (unit, 'n, 'e, 'k, 's) action" where
  "rc_registry_drop_b ops r = plain (\<lambda>w. ((), rc_registry_drop ops r w))"

definition n_outgoing_b :: "('k, 's) slotmap_ops \<Rightarrow> RelRc \<Rightarrow> (nat, 'n, 'e, 'k, 's) action" where
  "n_outgoing_b ops a =
     bind_b (all_outgoing_b a) (\<lambda>edges.
     bind_b (drop_tasks_b ops (map (\<lambda>e. DropRelRc (e_target e)) edges)) (\<lambda>_. return_b (length edges)))"

end
