(* ===== verification/RefCell_Correct.thy ===== *)
theory RefCell_Correct
  imports RefCell Drop_Effect
begin

section \<open>Borrows and panics\<close>

text \<open>
  The actions of \<open>RefCell\<close> either panic or do what the operations without flags do, and leave the
  flags as they were. A program cannot hold a borrow of a node's cells (they are private), only
  of a registry: \<open>cells_idle\<close>. Under it a drop panics exactly if a node dies whose registry is
  borrowed, and registering a node exactly if the registry is borrowed.
\<close>

definition cells_idle :: "flags \<Rightarrow> bool" where
  "cells_idle F \<longleftrightarrow> (\<forall>a. F (OutgoingOf a) = 0 \<and> F (RegistryOf a) = 0)"

lemma cells_idleD:
  assumes "cells_idle F"
  shows "F (OutgoingOf a) = 0" "F (RegistryOf a) = 0"
  using assms by (simp_all add: cells_idle_def)

subsection \<open>Drops\<close>

lemma borrow_conflict_cong:
  assumes "node_registry x (mem w') = node_registry x (mem w)"
    and "\<And>r. strong_count r (regs w') = strong_count r (regs w)"
    and "\<And>r. 0 < F (RegistryCell r) \<Longrightarrow> deref (regs w') r = deref (regs w) r"
  shows "borrow_conflict F w' x \<longleftrightarrow> borrow_conflict F w x"
  using assms by (auto simp: borrow_conflict_def split: option.splits)

lemma unregister_reg_strong: "strong (box (regs (unregister ops a w)) r) = strong (box (regs w) r)"
proof -
  have "rc_release x (set_payload x f (rc_clone x g)) = set_payload x f g" for x f g
    by (cases "x < length g"; simp add: rc_defs upd_def box_def list_update_beyond)
  then show ?thesis
    by (auto simp: unregister_def Let_def weak_upgrade_def with_registry_mut_def heap_simps release_clone
        split: option.splits prod.splits)
qed

lemma unregister_conflict:
  assumes "\<not> borrow_conflict F w a" "x \<noteq> a"
  shows "borrow_conflict F (unregister ops a w) x \<longleftrightarrow> borrow_conflict F w x"
proof (rule borrow_conflict_cong)
  fix r assume "0 < F (RegistryCell r)"
  with assms(1) have "node_registry a (mem w) = Some r \<Longrightarrow> 0 < strong_count r (regs w) \<Longrightarrow> deref (regs w) r = Some R \<Longrightarrow>
      get_id a R = None" for R
    by (auto simp: borrow_conflict_def)
  then show "deref (regs (unregister ops a w)) r = deref (regs w) r"
    by (cases "deref (regs w) r") (auto simp: unregister_regs strong_count_def forget_node_def)
qed (use assms(2) in \<open>simp_all add: node_registry_def unregister_deref strong_count_def unregister_reg_strong\<close>)

lemma drop_tasks_dead: "deref (mem w) x = None \<Longrightarrow> deref (mem (drop_tasks ops ts w)) x = None"
proof (induction ops ts w rule: drop_tasks.induct)
  case (4 ops a ts w)
  show ?case
  proof (cases "strong_count a (mem w) = 1")
    case True
    obtain data h where take: "rc_take a (mem (unregister ops a w)) = (data, h)" by fastforce
    have "deref h x = None" using 4(4) take by (auto simp: rc_take_def box_upd unregister_deref)
    with 4(3) [OF _ _ refl refl] True take show ?thesis by simp
  next
    case False
    then show ?thesis using 4(1,2,4) by (auto simp: heap_simps)
  qed
qed (simp_all add: heap_simps)

text \<open>The step that drops the last reference: it panics on a conflict, and otherwise keeps all other conflicts.\<close>

lemma take_node:
  assumes "rc_take a (mem (unregister ops a w)) = (data, h)"
  shows "deref h x = (if x = a then None else deref (mem w) x)"
  using assms by (auto simp: rc_take_def box_upd unregister_deref in_range_deref)

lemma take_node_conflict:
  assumes "rc_take a (mem (unregister ops a w)) = (data, h)" "\<not> borrow_conflict F w a"
  shows "borrow_conflict F ((unregister ops a w)\<lparr>mem := h\<rparr>) x \<longleftrightarrow> borrow_conflict F w x"
proof (cases "x = a")
  case True
  with assms take_node [OF assms(1), of a] show ?thesis by (simp add: borrow_conflict_def node_registry_def)
next
  case False
  then have "borrow_conflict F ((unregister ops a w)\<lparr>mem := h\<rparr>) x \<longleftrightarrow> borrow_conflict F (unregister ops a w) x"
    using take_node [OF assms(1), of x] by (intro borrow_conflict_cong) (simp_all add: node_registry_def unregister_deref)
  with unregister_conflict [OF assms(2) False] show ?thesis by simp
qed

lemma drop_last_b:
  assumes "cells_idle F" "strong_count a (mem w) = 1" "rc_take a (mem (unregister ops a w)) = (data, h)"
  shows "drop_tasks_b ops (DropRelRc a # ts) (F, w) = Inr r \<longleftrightarrow>
    \<not> borrow_conflict F w a \<and>
    drop_tasks_b ops ((case data of None \<Rightarrow> [] | Some d \<Rightarrow> field_drops a d) @ ts) (F, (unregister ops a w)\<lparr>mem := h\<rparr>) = Inr r"
proof (cases "unregister_b ops a (F, w)")
  case (Inl p)
  then have "borrow_conflict F w a" using unregister_b_result [of ops a F w] cells_idleD(2) [OF assms(1)] by fastforce
  with Inl assms(2) show ?thesis by simp
next
  case (Inr y)
  then obtain u where "y = (u, F, unregister ops a w)" "\<not> borrow_conflict F w a"
    using unregister_b_result [of ops a F w] by (cases y) auto
  with Inr assms(2,3) show ?thesis by simp
qed

lemma drop_tasks_b_result:
  assumes "cells_idle F"
  shows "drop_tasks_b ops ts (F, w) = Inr (u, st) \<longleftrightarrow>
    (\<forall>x. borrow_conflict F w x \<longrightarrow> deref (mem (drop_tasks ops ts w)) x \<noteq> None) \<and> st = (F, drop_tasks ops ts w)"
proof (induction ops ts w rule: drop_tasks.induct)
  case (1 ops w)
  then show ?case by (auto simp: borrow_conflict_def node_registry_def split: option.splits)
next
  case (2 ops a ts w)
  have "borrow_conflict F (w\<lparr>mem := weak_drop a (mem w)\<rparr>) x \<longleftrightarrow> borrow_conflict F w x" for x
    by (rule borrow_conflict_cong) (simp_all add: node_registry_def heap_simps)
  with 2 show ?case by simp
next
  case (3 ops r ts w)
  have "borrow_conflict F (w\<lparr>regs := weak_drop r (regs w)\<rparr>) x \<longleftrightarrow> borrow_conflict F w x" for x
    by (rule borrow_conflict_cong) (simp_all add: strong_count_def heap_simps)
  with 3 show ?case by simp
next
  case (4 ops a ts w)
  consider "strong_count a (mem w) = 0" | "strong_count a (mem w) > 1" | "strong_count a (mem w) = 1" by linarith
  then show ?case
  proof cases
    case 2
    have "borrow_conflict F (w\<lparr>mem := rc_release a (mem w)\<rparr>) x \<longleftrightarrow> borrow_conflict F w x" for x
      by (rule borrow_conflict_cong) (simp_all add: node_registry_def heap_simps)
    with 2 4(2) show ?thesis by simp
  next
    case 3
    obtain data h where take: "rc_take a (mem (unregister ops a w)) = (data, h)" by fastforce
    let ?w = "(unregister ops a w)\<lparr>mem := h\<rparr>" and ?ts = "(case data of None \<Rightarrow> [] | Some d \<Rightarrow> field_drops a d) @ ts"
    have run: "drop_tasks ops (DropRelRc a # ts) w = drop_tasks ops ?ts ?w" using 3 take by simp
    have "deref (mem (drop_tasks ops ?ts ?w)) a = None" by (rule drop_tasks_dead) (simp add: take_node [OF take])
    with 4(3) [OF _ _ refl take [symmetric]] 3 take_node_conflict [OF take, of F] show ?thesis
      unfolding drop_last_b [OF assms 3 take] run by (cases "borrow_conflict F w a") auto
  qed (use 4(1) in simp)
qed

subsection \<open>The other operations, with the exact cause of each panic\<close>

abbreviation "BorrowError \<equiv> Explicit ''already mutably borrowed: BorrowError''"
abbreviation "BorrowMutError \<equiv> Explicit ''already borrowed: BorrowMutError''"

lemma register_outgoing_edges_b_run [run_simps]:
  "register_outgoing_edges_b i es (F, w) =
     (if \<exists>e\<in>set es. F (OutgoingOf (source e)) \<noteq> 0 then Inl BorrowMutError
      else Inr ((), F, w\<lparr>mem := register_outgoing_edges i es (mem w)\<rparr>))"
  by (induction es arbitrary: i w)
    (simp_all add: run_simps push_edge_b_def inner_edge_downgrade_def)

lemma build_incoming_sources: "fst ` set ps = source ` set (fst (build_incoming a ps h))"
  by (induction a ps h rule: build_incoming.induct) (simp_all add: case_prod_unfold Let_def)

lemma with_parents_b_run:
  "with_parents_b al v ps (F, w) =
     (case with_parents al v ps (mem w) of (a, h) \<Rightarrow>
       let F' = F(OutgoingOf a := 0, RegistryOf a := 0)
       in if \<exists>p\<in>fst ` set ps. F' (OutgoingOf p) \<noteq> 0 then Inl BorrowMutError else Inr (a, F', w\<lparr>mem := h\<rparr>))"
proof -
  obtain a h1 where 1: "rc_cyclic_alloc al (mem w) = (a, h1)" by fastforce
  obtain es h3 where 2: "build_incoming a ps (weak_clone a h1) = (es, h3)" by fastforce
  have "fst ` set ps = source ` set es" using build_incoming_sources [of ps a "weak_clone a h1"] 2 by simp
  then show ?thesis
    by (simp add: with_parents_b_def with_parents_def run_simps 1 2 Let_def)
qed

lemma outgoing_b_run [run_simps]:
  "all_outgoing_weak_b a (F, w) =
     (if F (OutgoingOf a) < 0 then Inl BorrowError
      else case all_outgoing_weak a (mem w) of (es, h) \<Rightarrow> Inr (es, F, w\<lparr>mem := h\<rparr>))"
  "all_outgoing_b a (F, w) =
     (if F (OutgoingOf a) < 0 then Inl BorrowError else if F (OutgoingOf a) \<noteq> 0 then Inl BorrowMutError
      else case all_outgoing a (mem w) of (es, h) \<Rightarrow> Inr (es, F, w\<lparr>mem := h\<rparr>))"
  by (simp_all add: all_outgoing_weak_b_def all_outgoing_b_def run_simps case_prod_unfold Let_def)

lemma relrc_registry_b_run [run_simps]:
  "relrc_registry_b a (F, w) =
     (if F (RegistryOf a) < 0 then Inl BorrowError else case relrc_registry a w of (x, w') \<Rightarrow> Inr (x, F, w'))"
  by (simp add: relrc_registry_b_def run_simps case_prod_unfold Let_def)

lemma try_set_register_b_run [run_simps]:
  assumes "cells_idle F"
  shows "try_set_register_b a r (F, w) = (case try_set_register a r w of (b, w') \<Rightarrow> Inr (b, F, w'))"
  by (simp add: try_set_register_b_def try_set_register_def run_simps cells_idleD [OF assms] fun_upd_idem Let_def
      split: option.splits)

lemma try_register_in_b_run [run_simps]:
  assumes "cells_idle F"
  shows "try_register_in_b ops a r (F, w) =
    (if fst (try_set_register a r w) \<and> F (RegistryCell r) \<noteq> 0 then Inl BorrowMutError
     else case try_register_in ops a r w of (x, w') \<Rightarrow> Inr (x, F, w'))"
  by (simp add: try_register_in_b_def try_register_in_def run_simps assms case_prod_unfold split: bool.splits)

subsection \<open>Calls from a program that holds no borrow\<close>

abbreviation no_borrows :: flags where
  "no_borrows \<equiv> \<lambda>_. 0"

lemma cells_idle_no_borrows [simp]: "cells_idle no_borrows"
  by (simp add: cells_idle_def)

lemma drop_tasks_b_idle [run_simps]:
  "drop_tasks_b ops ts (no_borrows, w) = Inr ((), no_borrows, drop_tasks ops ts w)"
  by (simp add: drop_tasks_b_result borrow_conflict_def split: option.splits)

lemma relrc_drop_b_idle [run_simps]:
  "relrc_drop_b ops a (no_borrows, w) = Inr ((), no_borrows, relrc_drop ops a w)"
  by (simp add: relrc_drop_b_def relrc_drop_def drop_tasks_b_idle)

lemma new_b_idle [run_simps]:
  "relrc_new_b al v (no_borrows, w) = (case relrc_new al v (mem w) of (a, h) \<Rightarrow> Inr (a, no_borrows, w\<lparr>mem := h\<rparr>))"
  "rc_registry_b al R (no_borrows, w) = (case rc_registry al R w of (r, w') \<Rightarrow> Inr (r, no_borrows, w'))"
  "with_parents_b al v ps (no_borrows, w) =
     (case with_parents al v ps (mem w) of (a, h) \<Rightarrow> Inr (a, no_borrows, w\<lparr>mem := h\<rparr>))"
  by (simp_all add: relrc_new_b_def rc_registry_b_def with_parents_b_run run_simps case_prod_unfold fun_upd_idem Let_def)

lemma n_outgoing_b_idle [run_simps]:
  "n_outgoing_b ops a (no_borrows, w) = (case n_outgoing ops a w of (n, w') \<Rightarrow> Inr (n, no_borrows, w'))"
  by (simp add: n_outgoing_b_def n_outgoing_def run_simps case_prod_unfold Let_def)

end
