(* ===== verification/RefCell_History.thy ===== *)
theory RefCell_History
  imports RefCell_Correct Serialization
begin

section \<open>Borrows of history graphs\<close>

text \<open>
  The operations of \<open>history.rs\<close> and \<open>serialization.rs\<close> with their borrows: every lookup of a node id
  borrows the registry for one statement, and insertion, dropping and serialisation borrow through the
  operations of nodes they call. A program may hold shared borrows of the registry while it queries
  a graph; from a program that holds no borrow no call panics because of a \<open>RefCell\<close>.
\<close>

definition panic_b :: "panic \<Rightarrow> ('x, 'n, 'e, 'k, 's) action" where
  "panic_b p st = Inl p"

text \<open>Code that borrows no cell and may panic.\<close>

definition attempt :: "(('n, 'e, 'k, 's) world \<Rightarrow> ('x \<times> ('n, 'e, 'k, 's) world) res) \<Rightarrow> ('x, 'n, 'e, 'k, 's) action" where
  "attempt f st = (case st of (F, w) \<Rightarrow> map_sum id (\<lambda>(x, w'). (x, F, w')) (f w))"

fun filter_map_b :: "('y \<Rightarrow> ('x option, 'n, 'e, 'k, 's) action) \<Rightarrow> 'y list \<Rightarrow> ('x list, 'n, 'e, 'k, 's) action" where
  "filter_map_b f [] = return_b []"
| "filter_map_b f (y # ys) =
     bind_b (f y) (\<lambda>x. bind_b (filter_map_b f ys) (\<lambda>xs.
       return_b (case x of None \<Rightarrow> xs | Some z \<Rightarrow> z # xs)))"

subsection \<open>Queries\<close>

definition hg_get_id_b :: "'k HistoryGraph \<Rightarrow> RelRc \<Rightarrow> ('k option, 'n, 'e, 'k, 's) action" where
  "hg_get_id_b g node = with_ref (RegistryCell (hg_registry g)) (reads (hg_get_id g node))"

definition get_node_id_b :: "'k HistoryGraph \<Rightarrow> RelRc \<Rightarrow> ('k option, 'n, 'e, 'k, 's) action" where
  "get_node_id_b g node =
     bind_b (hg_get_id_b g node) (\<lambda>found.
       return_b (case found of
          None \<Rightarrow> None
        | Some nid \<Rightarrow> if sec_contains_key nid (hg_nodes g) then Some nid else None))"

definition hg_contains_b :: "'k HistoryGraph \<Rightarrow> RelRc \<Rightarrow> (bool, 'n, 'e, 'k, 's) action" where
  "hg_contains_b g node =
     bind_b (hg_get_id_b g node) (\<lambda>found.
       return_b (case found of None \<Rightarrow> False | Some nid \<Rightarrow> hg_contains_id g nid))"

definition get_edge_b :: "'k HistoryGraph \<Rightarrow> 'k EdgeId \<Rightarrow> ('e InnerEdgeData option, 'n, 'e, 'k, 's) action" where
  "get_edge_b g eid =
     (case get_node g (eid_target eid) of
        None \<Rightarrow> return_b None
      | Some node \<Rightarrow>
          bind_b (reads (\<lambda>w. incoming_at node (eid_index eid) (mem w))) (\<lambda>edge.
            (case edge of
               None \<Rightarrow> return_b None
             | Some e \<Rightarrow> bind_b (hg_contains_b g (source e)) (\<lambda>b. return_b (if b then Some e else None)))))"

definition contains_edge_b :: "'k HistoryGraph \<Rightarrow> 'k EdgeId \<Rightarrow> (bool, 'n, 'e, 'k, 's) action" where
  "contains_edge_b g eid = bind_b (get_edge_b g eid) (\<lambda>e. return_b (e \<noteq> None))"

definition edge_source_b :: "'k HistoryGraph \<Rightarrow> 'k EdgeId \<Rightarrow> ('k option, 'n, 'e, 'k, 's) action" where
  "edge_source_b g eid =
     bind_b (get_edge_b g eid) (\<lambda>edge.
       (case edge of None \<Rightarrow> return_b None | Some e \<Rightarrow> get_node_id_b g (source e)))"

definition edge_target_b :: "'k HistoryGraph \<Rightarrow> 'k EdgeId \<Rightarrow> ('k option, 'n, 'e, 'k, 's) action" where
  "edge_target_b g eid =
     bind_b (contains_edge_b g eid) (\<lambda>b. return_b (if b then Some (eid_target eid) else None))"

definition incoming_edges_b :: "'k HistoryGraph \<Rightarrow> 'k \<Rightarrow> ('k EdgeId list, 'n, 'e, 'k, 's) action" where
  "incoming_edges_b g nid =
     bind_b (reads (\<lambda>w. case get_node g nid of None \<Rightarrow> 0 | Some node \<Rightarrow> n_incoming node (mem w))) (\<lambda>n.
       filter_map_b (\<lambda>e. bind_b (contains_edge_b g e) (\<lambda>b. return_b (if b then Some e else None)))
         (map (\<lambda>i. \<lparr>eid_target = nid, eid_index = i\<rparr>) [0..<n]))"

definition hg_parents_b :: "'k HistoryGraph \<Rightarrow> 'k \<Rightarrow> ('k list, 'n, 'e, 'k, 's) action" where
  "hg_parents_b g nid = bind_b (incoming_edges_b g nid) (filter_map_b (edge_source_b g))"

definition outgoing_edges_b ::
  "('k, 's) slotmap_ops \<Rightarrow> 'k HistoryGraph \<Rightarrow> 'k \<Rightarrow> ('k EdgeId list, 'n, 'e, 'k, 's) action" where
  "outgoing_edges_b ops g nid =
     (case get_node g nid of
        None \<Rightarrow> return_b []
      | Some node \<Rightarrow>
          bind_b (all_outgoing_b node) (\<lambda>edges.
          bind_b (filter_map_b (\<lambda>e. bind_b (get_node_id_b g (e_target e)) (\<lambda>t.
              return_b (map_option (\<lambda>k. \<lparr>eid_target = k, eid_index = e_index e\<rparr>) t))) edges) (\<lambda>ids.
          bind_b (drop_tasks_b ops (map (\<lambda>e. DropRelRc (e_target e)) edges)) (\<lambda>_. return_b ids))))"

definition hg_children_b ::
  "('k, 's) slotmap_ops \<Rightarrow> 'k HistoryGraph \<Rightarrow> 'k \<Rightarrow> ('k list, 'n, 'e, 'k, 's) action" where
  "hg_children_b ops g nid = bind_b (outgoing_edges_b ops g nid) (filter_map_b (edge_target_b g))"

subsection \<open>Insertion and dropping\<close>

definition insert_node_b ::
  "('k, 's) slotmap_ops \<Rightarrow> RelRc \<Rightarrow> 'k HistoryGraph \<Rightarrow> ('k option \<times> 'k HistoryGraph, 'n, 'e, 'k, 's) action" where
  "insert_node_b ops node g =
     bind_b (get_node_id_b g node) (\<lambda>known.
       (case known of
          Some nid \<Rightarrow> bind_b (relrc_drop_b ops node) (\<lambda>_. return_b (Some nid, g))
        | None \<Rightarrow>
            bind_b (try_register_in_b ops node (hg_registry g)) (\<lambda>registered.
              (case registered of
                 None \<Rightarrow> bind_b (relrc_drop_b ops node) (\<lambda>_. return_b (None, g))
               | Some nid \<Rightarrow>
                   (let (old, m) = sec_insert ops nid node (hg_nodes g)
                    in bind_b (drop_tasks_b ops (map DropRelRc old)) (\<lambda>_. return_b (Some nid, g\<lparr>hg_nodes := m\<rparr>)))))))"

fun insert_nodes_b ::
  "('k, 's) slotmap_ops \<Rightarrow> RelRc list \<Rightarrow> 'k HistoryGraph \<Rightarrow> ('k HistoryGraph, 'n, 'e, 'k, 's) action" where
  "insert_nodes_b ops [] g = return_b g"
| "insert_nodes_b ops (node # ns) g = bind_b (insert_node_b ops node g) (\<lambda>(_, g'). insert_nodes_b ops ns g')"

definition history_new_b ::
  "('k, 's) slotmap_ops \<Rightarrow> RelRc list \<Rightarrow> addr \<Rightarrow> ('k HistoryGraph, 'n, 'e, 'k, 's) action" where
  "history_new_b ops ns r = insert_nodes_b ops ns \<lparr>hg_nodes = sec_new, hg_registry = r\<rparr>"

definition history_from_nodes_b ::
  "allocator \<Rightarrow> ('k, 's) slotmap_ops \<Rightarrow> RelRc list \<Rightarrow> ('k HistoryGraph, 'n, 'e, 'k, 's) action" where
  "history_from_nodes_b al ops ns = bind_b (rc_registry_b al (registry_new ops)) (history_new_b ops ns)"

fun insert_ancestors_fuel_b ::
  "nat \<Rightarrow> ('k, 's) slotmap_ops \<Rightarrow> RelRc \<Rightarrow> 'k HistoryGraph \<Rightarrow> ('n, 'e, 'k, 's) bstate \<Rightarrow>
   (('k \<times> 'k HistoryGraph) \<times> ('n, 'e, 'k, 's) bstate) res option"
and insert_parents_fuel_b ::
  "nat \<Rightarrow> ('k, 's) slotmap_ops \<Rightarrow> RelRc list \<Rightarrow> 'k HistoryGraph \<Rightarrow> ('n, 'e, 'k, 's) bstate \<Rightarrow>
   ('k HistoryGraph \<times> ('n, 'e, 'k, 's) bstate) res option" where
  "insert_ancestors_fuel_b 0 ops node g st = None"
| "insert_ancestors_fuel_b (Suc n) ops node g st =
     (case insert_parents_fuel_b n ops (all_parents node (mem (snd st))) g st of
        None \<Rightarrow> None
      | Some (Inl p) \<Rightarrow> Some (Inl p)
      | Some (Inr (g1, st1)) \<Rightarrow>
          Some (bind_b (plain (\<lambda>w. ((), w\<lparr>mem := relrc_clone node (mem w)\<rparr>))) (\<lambda>_.
            bind_b (insert_node_b ops node g1) (\<lambda>(r, g2).
              (case r of
                 None \<Rightarrow> panic_b (Expect ''node not registered'')
               | Some nid \<Rightarrow> bind_b (relrc_drop_b ops node) (\<lambda>_. return_b (nid, g2))))) st1))"
| "insert_parents_fuel_b n ops [] g st = Some (Inr (g, st))"
| "insert_parents_fuel_b n ops (p # ps) g st =
     (case hg_contains_b g p st of
        Inl q \<Rightarrow> Some (Inl q)
      | Inr (True, st1) \<Rightarrow> insert_parents_fuel_b n ops ps g st1
      | Inr (False, (F, w)) \<Rightarrow>
          (case insert_ancestors_fuel_b n ops p g (F, w\<lparr>mem := relrc_clone p (mem w)\<rparr>) of
             None \<Rightarrow> None
           | Some (Inl q) \<Rightarrow> Some (Inl q)
           | Some (Inr ((_, g'), st')) \<Rightarrow> insert_parents_fuel_b n ops ps g' st'))"

definition insert_ancestors_b ::
  "('k, 's) slotmap_ops \<Rightarrow> RelRc \<Rightarrow> 'k HistoryGraph \<Rightarrow> ('n, 'e, 'k, 's) bstate \<Rightarrow>
   (('k \<times> 'k HistoryGraph) \<times> ('n, 'e, 'k, 's) bstate) res option" where
  "insert_ancestors_b ops node g st = insert_ancestors_fuel_b (Suc (length (mem (snd st)))) ops node g st"

definition history_drop_b :: "('k, 's) slotmap_ops \<Rightarrow> 'k HistoryGraph \<Rightarrow> (unit, 'n, 'e, 'k, 's) action" where
  "history_drop_b ops g =
     bind_b (drop_tasks_b ops (map DropRelRc (sec_values (hg_nodes g)))) (\<lambda>_. rc_registry_drop_b ops (hg_registry g))"

subsection \<open>Serialisation\<close>

text \<open>The registry is borrowed while it is cloned; the rest works on the clone.\<close>

fun collect_ids_b ::
  "('k, 's) slotmap_ops \<Rightarrow> 'k list \<Rightarrow> ('k, 's) Registry \<Rightarrow> ('k list \<times> ('k, 's) Registry, 'n, 'e, 'k, 's) action" where
  "collect_ids_b ops [] R = return_b ([], R)"
| "collect_ids_b ops (n # ns) R =
     bind_b (plain (\<lambda>w. let (x, h) = registry_get ops n R (mem w) in (x, w\<lparr>mem := h\<rparr>))) (\<lambda>found.
       (case found of
          None \<Rightarrow> panic_b (Expect ''invalid node'')
        | Some node \<Rightarrow>
            bind_b (plain (\<lambda>w. let (ids, R1, h1) = get_ids ops (all_ancestors node (mem w)) R (mem w)
              in ((ids, R1), w\<lparr>mem := h1\<rparr>))) (\<lambda>(ids, R1).
            bind_b (relrc_drop_b ops node) (\<lambda>_.
            bind_b (collect_ids_b ops ns R1) (\<lambda>(rest, R2). return_b (ids @ rest, R2))))))"

definition history_to_serialized_b ::
  "('k::linorder, 's) slotmap_ops \<Rightarrow> 'k HistoryGraph \<Rightarrow> (('n, 'e, 'k, 's) SerializedHistoryGraph, 'n, 'e, 'k, 's) action" where
  "history_to_serialized_b ops g =
     (let nodes = set (all_node_ids g) in
      bind_b (with_ref (RegistryCell (hg_registry g)) (plain (\<lambda>w.
        case deref (regs w) (hg_registry g) of
          None \<Rightarrow> (None, w)
        | Some R0 \<Rightarrow> (Some R0, w\<lparr>mem := fold weak_clone (map snd (slotmap_iter ops (reg_nodes R0))) (mem w)\<rparr>)))) (\<lambda>cloned.
      (case cloned of
         None \<Rightarrow> panic_b (Expect ''registry'')
       | Some R0 \<Rightarrow>
           bind_b (collect_ids_b ops (sorted_list_of_set nodes) R0) (\<lambda>(ancestors, R1).
           bind_b (reads (\<lambda>w. registry_to_serialized ops R1 (mem w))) (\<lambda>written.
             (case written of
                Inl p \<Rightarrow> panic_b p
              | Inr sr \<Rightarrow>
                  bind_b (plain (\<lambda>w. ((), drop_tasks ops (slot_drops ops R1) w))) (\<lambda>_.
                    return_b \<lparr>shg_nodes = nodes,
                      shg_registry = sr\<lparr>ser_nodes := slotmap_retain ops (\<lambda>k. k \<in> set ancestors) (ser_nodes sr)\<rparr>\<rparr>)))))))"

definition relrc_to_serialized_b ::
  "('k::linorder, 's) slotmap_ops \<Rightarrow> RelRc \<Rightarrow> addr \<Rightarrow> ('n, 'e, 'k, 's) bstate \<Rightarrow>
   (('n, 'e, 'k, 's) SerializedRelRc \<times> ('n, 'e, 'k, 's) bstate) res option" where
  "relrc_to_serialized_b ops a r st =
     (case history_new_b ops [] r st of
        Inl p \<Rightarrow> Some (Inl p)
      | Inr (g, F, w) \<Rightarrow>
          map_option (\<lambda>res. and_then res (\<lambda>((curr_id, g'), st').
            bind_b (history_to_serialized_b ops g') (\<lambda>sh.
            bind_b (history_drop_b ops g') (\<lambda>_. return_b \<lparr>srr_id = curr_id, ancestors_graph = sh\<rparr>)) st'))
            (insert_ancestors_b ops a g (F, w\<lparr>mem := relrc_clone a (mem w)\<rparr>)))"

definition make_node_b ::
  "allocator \<Rightarrow> ('k, 's) slotmap_ops \<Rightarrow> 'k \<Rightarrow> ('n, 'e, 'k) SerializedInnerData \<Rightarrow> ('k, RelRc) SecondaryMap \<Rightarrow>
   (('k, RelRc) SecondaryMap, 'n, 'e, 'k, 's) action" where
  "make_node_b al ops nid node_ser all =
     bind_b (attempt (clone_parents (ser_incoming node_ser) all)) (\<lambda>ps.
     bind_b (with_parents_b al (ser_value node_ser) ps) (\<lambda>a.
       (let (old, all') = sec_insert ops nid a all
        in bind_b (drop_tasks_b ops (map DropRelRc old)) (\<lambda>_. return_b all'))))"

type_synonym ('n, 'e, 'k, 's) deser_bstate =
  "('k, 's, ('n, 'e, 'k) SerializedInnerData) SlotMap \<times> ('k, RelRc) SecondaryMap \<times> ('n, 'e, 'k, 's) bstate"

fun deserialize_node_b ::
  "nat \<Rightarrow> allocator \<Rightarrow> ('k, 's) slotmap_ops \<Rightarrow> 'k \<Rightarrow> ('n, 'e, 'k, 's) deser_bstate \<Rightarrow>
   ('n, 'e, 'k, 's) deser_bstate res option"
and deserialize_parents_b ::
  "nat \<Rightarrow> allocator \<Rightarrow> ('k, 's) slotmap_ops \<Rightarrow> ('k \<times> 'e) list \<Rightarrow> ('n, 'e, 'k, 's) deser_bstate \<Rightarrow>
   ('n, 'e, 'k, 's) deser_bstate res option" where
  "deserialize_node_b 0 al ops nid st = None"
| "deserialize_node_b (Suc n) al ops nid (m, all, st) =
     (case slotmap_remove ops nid m of
        (None, _) \<Rightarrow> Some (Inl (Expect ''invalid node_id''))
      | (Some node_ser, m') \<Rightarrow>
          (case deserialize_parents_b n al ops (ser_incoming node_ser) (m', all, st) of
             None \<Rightarrow> None
           | Some r \<Rightarrow> Some (and_then r (\<lambda>(m2, all2, st2).
               and_then (make_node_b al ops nid node_ser all2 st2) (\<lambda>(all3, st3). Inr (m2, all3, st3))))))"
| "deserialize_parents_b n al ops [] st = Some (Inr st)"
| "deserialize_parents_b n al ops ((pid, v) # ps) (m, all, st) =
     (if sec_contains_key pid all then deserialize_parents_b n al ops ps (m, all, st)
      else
        (case deserialize_node_b n al ops pid (m, all, st) of
           None \<Rightarrow> None
         | Some (Inl p) \<Rightarrow> Some (Inl p)
         | Some (Inr st') \<Rightarrow> deserialize_parents_b n al ops ps st'))"

fun deserialize_loop_b ::
  "nat \<Rightarrow> allocator \<Rightarrow> ('k, 's) slotmap_ops \<Rightarrow> ('n, 'e, 'k, 's) deser_bstate \<Rightarrow>
   ('n, 'e, 'k, 's) deser_bstate res option" where
  "deserialize_loop_b 0 al ops st = None"
| "deserialize_loop_b (Suc n) al ops (m, all, st) =
     (case slotmap_iter ops m of
        [] \<Rightarrow> Some (Inr (m, all, st))
      | (nid, _) # _ \<Rightarrow>
          (case deserialize_node_b (Suc (slotmap_len ops m)) al ops nid (m, all, st) of
             None \<Rightarrow> None
           | Some (Inl p) \<Rightarrow> Some (Inl p)
           | Some (Inr st') \<Rightarrow> deserialize_loop_b n al ops st'))"

text \<open>The registry that is read is not yet behind a \<open>RefCell\<close>.\<close>

definition registry_from_serialized_b ::
  "allocator \<Rightarrow> ('k, 's) slotmap_ops \<Rightarrow> ('n, 'e, 'k, 's) SerializedRegistry \<Rightarrow> ('n, 'e, 'k, 's) bstate \<Rightarrow>
   ((('k, 's) Registry \<times> ('k, RelRc) SecondaryMap) \<times> ('n, 'e, 'k, 's) bstate) res option" where
  "registry_from_serialized_b al ops sr st =
     (let nodes_set = slotmap_map (\<lambda>_ _. ()) (ser_nodes sr) in
      map_option (\<lambda>r. and_then r (\<lambda>(_, all, F, w1).
        and_then (slotmap_map_res ops (\<lambda>k _. expect ''invalid node_id'' (sec_get k all)) nodes_set) (\<lambda>m.
          Inr ((from_slotmap ops m, all),
               F, w1\<lparr>mem := fold rc_downgrade (map snd (slotmap_iter ops m)) (mem w1)\<rparr>))))
        (deserialize_loop_b (Suc (slotmap_len ops (ser_nodes sr))) al ops (ser_nodes sr, sec_new, st)))"

definition history_from_serialized_b ::
  "allocator \<Rightarrow> ('k, 's) slotmap_ops \<Rightarrow> ('n, 'e, 'k, 's) SerializedHistoryGraph \<Rightarrow> ('n, 'e, 'k, 's) bstate \<Rightarrow>
   ('k HistoryGraph \<times> ('n, 'e, 'k, 's) bstate) res option" where
  "history_from_serialized_b al ops sh st =
     map_option (\<lambda>r. and_then r (\<lambda>((R, all), F, w1).
       (let keep = shg_nodes sh in
        assert (\<forall>k\<in>keep. sec_contains_key k all)
        (assert (\<forall>k\<in>keep. fst (contains_id ops k R (mem w1)))
        (let kept = sec_retain (\<lambda>k. k \<in> keep) all in
         bind_b (drop_tasks_b ops (map DropRelRc (sec_values (sec_retain (\<lambda>k. k \<notin> keep) all)))) (\<lambda>_ st2.
           assert (\<forall>a\<in>set (sec_values kept). registry_contains a R)
             (bind_b (rc_registry_b al R) (history_new_b ops (sec_values kept)) st2)) (F, w1))))))
       (registry_from_serialized_b al ops (shg_registry sh) st)"

definition relrc_from_serialized_b ::
  "allocator \<Rightarrow> ('k, 's) slotmap_ops \<Rightarrow> ('n, 'e, 'k, 's) SerializedRelRc \<Rightarrow> ('n, 'e, 'k, 's) bstate \<Rightarrow>
   (RelRc \<times> ('n, 'e, 'k, 's) bstate) res option" where
  "relrc_from_serialized_b al ops s st =
     map_option (\<lambda>res. and_then res (\<lambda>(g, F, w1).
       and_then (expect ''valid node'' (get_node g (srr_id s))) (\<lambda>a.
         bind_b (history_drop_b ops g) (\<lambda>_. return_b a) (F, w1\<lparr>mem := relrc_clone a (mem w1)\<rparr>))))
       (history_from_serialized_b al ops (ancestors_graph s) st)"

subsection \<open>Queries while the registry is shared\<close>

lemma panic_b_run [run_simps]:
  "panic_b p st = Inl p"
  "attempt f (F, w) = map_sum id (\<lambda>(x, w'). (x, F, w')) (f w)"
  by (simp_all add: panic_b_def attempt_def)

lemma filter_map_b_reads:
  assumes "\<And>y. y \<in> set ys \<Longrightarrow> f y (F, w) = Inr (q y, F, w)"
  shows "filter_map_b f ys (F, w) = Inr (List.map_filter q ys, F, w)"
  using assms by (induction ys) (simp_all add: run_simps map_filter_simps split: option.splits)

lemma hg_get_id_b_run [run_simps]:
  "hg_get_id_b g node (F, w) =
     (if F (RegistryCell (hg_registry g)) < 0 then Inl BorrowError else Inr (hg_get_id g node w, F, w))"
  by (simp add: hg_get_id_b_def run_simps)

lemma lookup_b_run [run_simps]:
  "get_node_id_b g node (F, w) =
     (if F (RegistryCell (hg_registry g)) < 0 then Inl BorrowError else Inr (get_node_id g node w, F, w))"
  "hg_contains_b g node (F, w) =
     (if F (RegistryCell (hg_registry g)) < 0 then Inl BorrowError else Inr (hg_contains g node w, F, w))"
  by (simp_all add: get_node_id_b_def hg_contains_b_def get_node_id_def hg_contains_def run_simps)

lemma edge_b_shared [run_simps]:
  assumes "0 \<le> F (RegistryCell (hg_registry g))"
  shows "get_edge_b g eid (F, w) = Inr (get_edge g eid w, F, w)"
    and "contains_edge_b g eid (F, w) = Inr (contains_edge g eid w, F, w)"
    and "edge_source_b g eid (F, w) = Inr (edge_source g eid w, F, w)"
    and "edge_target_b g eid (F, w) = Inr (edge_target g eid w, F, w)"
proof -
  show edge: "get_edge_b g eid (F, w) = Inr (get_edge g eid w, F, w)"
    using assms by (auto simp: get_edge_b_def get_edge_def run_simps split: option.splits)
  show contains: "contains_edge_b g eid (F, w) = Inr (contains_edge g eid w, F, w)"
    by (simp add: contains_edge_b_def contains_edge_def run_simps edge)
  show "edge_source_b g eid (F, w) = Inr (edge_source g eid w, F, w)"
    using assms by (auto simp: edge_source_b_def edge_source_def run_simps edge split: option.splits)
  show "edge_target_b g eid (F, w) = Inr (edge_target g eid w, F, w)"
    by (simp add: edge_target_b_def edge_target_def run_simps contains)
qed

lemma map_filter_if: "List.map_filter (\<lambda>x. if p x then Some x else None) xs = filter p xs"
  by (induction xs) (simp_all add: map_filter_simps)

lemma incoming_b_shared [run_simps]:
  assumes "0 \<le> F (RegistryCell (hg_registry g))"
  shows "incoming_edges_b g nid (F, w) = Inr (incoming_edges g nid w, F, w)"
    and "hg_parents_b g nid (F, w) = Inr (hg_parents g nid w, F, w)"
proof -
  show inc: "incoming_edges_b g nid (F, w) = Inr (incoming_edges g nid w, F, w)"
    using assms by (simp add: incoming_edges_b_def incoming_edges_def run_simps Let_def
        filter_map_b_reads [where q = "\<lambda>e. if contains_edge g e w then Some e else None"] map_filter_if)
  show "hg_parents_b g nid (F, w) = Inr (hg_parents g nid w, F, w)"
    using assms by (simp add: hg_parents_b_def hg_parents_def run_simps inc filter_map_b_reads [where q = "\<lambda>e. edge_source g e w"])
qed

subsection \<open>Calls from a program that holds no borrow\<close>

lemma outgoing_edges_b_idle [run_simps]:
  "outgoing_edges_b ops g nid (no_borrows, w) =
     (case outgoing_edges ops g nid w of (ids, w') \<Rightarrow> Inr (ids, no_borrows, w'))"
proof (cases "get_node g nid")
  case (Some node)
  obtain es h where out: "all_outgoing node (mem w) = (es, h)" by fastforce
  let ?q = "\<lambda>e. map_option (\<lambda>k. \<lparr>eid_target = k, eid_index = e_index e\<rparr>) (get_node_id g (e_target e) (w\<lparr>mem := h\<rparr>))"
  have "filter_map_b (\<lambda>e. bind_b (get_node_id_b g (e_target e)) (\<lambda>t.
      return_b (map_option (\<lambda>k. \<lparr>eid_target = k, eid_index = e_index e\<rparr>) t))) es (no_borrows, w\<lparr>mem := h\<rparr>) =
      Inr (List.map_filter ?q es, no_borrows, w\<lparr>mem := h\<rparr>)"
    by (rule filter_map_b_reads) (simp add: run_simps)
  with Some out show ?thesis by (simp add: outgoing_edges_b_def outgoing_edges_def run_simps Let_def)
qed (simp add: outgoing_edges_b_def outgoing_edges_def run_simps)

lemma hg_children_b_idle [run_simps]:
  "hg_children_b ops g nid (no_borrows, w) = (case hg_children ops g nid w of (ids, w') \<Rightarrow> Inr (ids, no_borrows, w'))"
  by (simp add: hg_children_b_def hg_children_def run_simps split: prod.splits)
    (auto intro!: filter_map_b_reads simp: edge_b_shared)

lemma insert_node_b_idle [run_simps]:
  "insert_node_b ops node g (no_borrows, w) =
     (case insert_node ops node (g, w) of (r, g', w') \<Rightarrow> Inr ((r, g'), no_borrows, w'))"
  by (simp add: insert_node_b_def insert_node_def run_simps split: option.splits prod.splits)

lemma insert_nodes_b_idle [run_simps]:
  "insert_nodes_b ops ns g (no_borrows, w) =
     (case insert_nodes ops ns (g, w) of (g', w') \<Rightarrow> Inr (g', no_borrows, w'))"
proof (induction ns arbitrary: g w)
  case (Cons n ns)
  obtain r g' w' where "insert_node ops n (g, w) = (r, g', w')" by (metis prod_cases3)
  with Cons show ?case by (simp add: run_simps)
qed (simp add: run_simps)

lemma history_from_nodes_b_idle [run_simps]:
  "history_from_nodes_b al ops ns (no_borrows, w) =
     (case history_from_nodes al ops ns w of (g, w') \<Rightarrow> Inr (g, no_borrows, w'))"
  by (simp add: history_from_nodes_b_def history_from_nodes_def history_new_b_def history_new_def run_simps
      split: prod.splits)

lemma insert_ancestors_fuel_b_idle:
  "insert_ancestors_fuel_b n ops node g (no_borrows, w) =
     map_option (map_sum id (\<lambda>(nid, g', w'). ((nid, g'), no_borrows, w'))) (insert_ancestors_fuel n ops node (g, w))"
  "insert_parents_fuel_b n ops ps g (no_borrows, w) =
     map_option (map_sum id (\<lambda>(g', w'). (g', no_borrows, w'))) (insert_parents_fuel n ops ps (g, w))"
proof (induction n ops node "(g, w)" and n ops ps "(g, w)" arbitrary: g w and g w
    rule: insert_ancestors_fuel_insert_parents_fuel.induct)
  case (2 n ops node)
  then show ?case
    by (auto simp: run_simps split: option.splits sum.splits prod.splits)
next
  case (4 n ops p ps)
  then show ?case
    by (auto simp: run_simps split: option.splits sum.splits prod.splits)
qed simp_all

lemma insert_ancestors_b_idle:
  "insert_ancestors_b ops node g (no_borrows, w) =
     map_option (map_sum id (\<lambda>(nid, g', w'). ((nid, g'), no_borrows, w'))) (insert_ancestors ops node (g, w))"
  by (simp add: insert_ancestors_b_def insert_ancestors_def insert_ancestors_fuel_b_idle del: insert_ancestors_fuel.simps
      insert_ancestors_fuel_b.simps)

lemma history_drop_b_idle [run_simps]:
  "history_drop_b ops g (no_borrows, w) = Inr ((), no_borrows, history_drop ops g w)"
  by (simp add: history_drop_b_def history_drop_def rc_registry_drop_b_def run_simps)

lemma collect_ids_b_idle [run_simps]:
  "collect_ids_b ops ns R (no_borrows, w) =
     map_sum id (\<lambda>(ids, R', w'). ((ids, R'), no_borrows, w')) (collect_ids ops ns R w)"
proof (induction ns arbitrary: R w)
  case (Cons n ns)
  show ?case
    by (simp add: run_simps Cons split: prod.splits option.splits) (auto simp: and_then_def run_simps split: sum.splits)
qed (simp add: run_simps)

lemma history_to_serialized_b_idle:
  "history_to_serialized_b ops g (no_borrows, w) =
     map_sum id (\<lambda>(s, w'). (s, no_borrows, w')) (history_to_serialized ops g w)"
  by (auto simp: history_to_serialized_b_def history_to_serialized_def run_simps Let_def and_then_def
      split: option.splits sum.splits prod.splits)

text \<open>The flags of an idle state are carried along by the readers and writers as well.\<close>

lemma history_new_b_idle [run_simps]:
  "history_new_b ops ns r (no_borrows, w) = (case history_new ops ns r w of (g, w') \<Rightarrow> Inr (g, no_borrows, w'))"
  by (simp add: history_new_b_def history_new_def run_simps)

lemma relrc_to_serialized_b_idle:
  "relrc_to_serialized_b ops a r (no_borrows, w) =
     map_option (map_sum id (\<lambda>(s, w'). (s, no_borrows, w'))) (relrc_to_serialized ops a r w)"
  by (auto simp: relrc_to_serialized_b_def relrc_to_serialized_def history_with_registry_def insert_ancestors_b_idle
      history_to_serialized_b_idle run_simps option.map_comp comp_def and_then_def
      split: prod.splits sum.splits intro!: option.map_cong0)

lemma make_node_b_idle:
  "make_node_b al ops nid d all (no_borrows, w) =
     map_sum id (\<lambda>(m, all', w'). (all', no_borrows, w')) (make_node al ops nid d (m, all, w))"
  by (auto simp: make_node_b_def make_node_def run_simps and_then_def Let_def fun_upd_idem split: sum.splits prod.splits)

abbreviation deser_idle ::
  "('n, 'e, 'k, 's) deser_state res option \<Rightarrow> ('n, 'e, 'k, 's) deser_bstate res option" where
  "deser_idle \<equiv> map_option (map_sum id (\<lambda>(m, all, w). (m, all, no_borrows, w)))"

lemma deserialize_node_b_idle:
  "deserialize_node_b n al ops nid (m, all, no_borrows, w) = deser_idle (deserialize_node n al ops nid (m, all, w))"
  "deserialize_parents_b n al ops ps (m, all, no_borrows, w) = deser_idle (deserialize_parents n al ops ps (m, all, w))"
proof (induction n al ops nid "(m, all, w)" and n al ops ps "(m, all, w)" arbitrary: m all w and m all w
    rule: deserialize_node_deserialize_parents.induct)
  case (2 n al ops nid m all w)
  have make: "and_then (make_node_b al ops nid d a (no_borrows, v)) (\<lambda>(b, st). Inr (m', b, st)) =
      map_sum id (\<lambda>(m, all, w). (m, all, no_borrows, w)) (make_node al ops nid d (m', a, v))" for d a v m'
    unfolding make_node_b_idle [where m = m']
    by (auto simp: make_node_def and_then_def Let_def split: sum.splits prod.splits)
  show ?case using 2
    by (auto simp: and_then_def make [unfolded and_then_def] split: prod.splits option.splits sum.splits)
next
  case (4 n al ops pid v ps m all w)
  then show ?case by (auto split: option.splits sum.splits prod.splits)
qed simp_all

lemma deserialize_loop_b_idle:
  "deserialize_loop_b n al ops (m, all, no_borrows, w) = deser_idle (deserialize_loop n al ops (m, all, w))"
proof (induction n arbitrary: m all w)
  case (Suc n)
  show ?case
    by (auto simp: deserialize_node_b_idle Suc simp del: deserialize_node.simps deserialize_node_b.simps
        split: list.splits option.splits sum.splits prod.splits)
qed simp

lemma registry_from_serialized_b_idle:
  "registry_from_serialized_b al ops sr (no_borrows, w) =
     map_option (map_sum id (\<lambda>(x, w'). (x, no_borrows, w'))) (registry_from_serialized al ops sr w)"
  by (auto simp: registry_from_serialized_b_def registry_from_serialized_def deserialize_nodes_def deserialize_loop_b_idle
      Let_def option.map_comp comp_def and_then_def simp del: deserialize_loop.simps deserialize_loop_b.simps
      split: sum.splits prod.splits intro!: option.map_cong0)

lemma history_from_serialized_b_idle:
  "history_from_serialized_b al ops sh (no_borrows, w) =
     map_option (map_sum id (\<lambda>(g, w'). (g, no_borrows, w'))) (history_from_serialized al ops sh w)"
  by (auto simp: history_from_serialized_b_def history_from_serialized_def registry_from_serialized_b_idle assert_def
      Let_def option.map_comp comp_def and_then_def run_simps split: sum.splits prod.splits intro!: option.map_cong0)

lemma relrc_from_serialized_b_idle:
  "relrc_from_serialized_b al ops s (no_borrows, w) =
     map_option (map_sum id (\<lambda>(a, w'). (a, no_borrows, w'))) (relrc_from_serialized al ops s w)"
  by (auto simp: relrc_from_serialized_b_def relrc_from_serialized_def history_from_serialized_b_idle
      option.map_comp comp_def and_then_def run_simps split: sum.splits prod.splits intro!: option.map_cong0)

end
