(* ===== verification/BTree.thy ===== *)
theory BTree
  imports Prelude
begin

section \<open>Ordered maps\<close>

text \<open>
  \<open>BTreeMap\<close> of Rust's standard library: an association list in increasing order of the keys,
  which is the order in which it is iterated. Inserting returns the value it replaces, because
  replacing a value drops it.
\<close>

type_synonym ('k, 'v) BTreeMap = "('k \<times> 'v) list"

abbreviation btree_keys :: "('k, 'v) BTreeMap \<Rightarrow> 'k list" where
  "btree_keys m \<equiv> map fst m"

definition btree_ok :: "('k::linorder, 'v) BTreeMap \<Rightarrow> bool" where
  "btree_ok m \<longleftrightarrow> sorted_wrt (<) (btree_keys m)"

definition btree_get :: "'k \<Rightarrow> ('k, 'v) BTreeMap \<Rightarrow> 'v option" where
  "btree_get k m = map_of m k"

definition btree_contains_key :: "'k \<Rightarrow> ('k, 'v) BTreeMap \<Rightarrow> bool" where
  "btree_contains_key k m \<longleftrightarrow> btree_get k m \<noteq> None"

definition btree_insert :: "'k::linorder \<Rightarrow> 'v \<Rightarrow> ('k, 'v) BTreeMap \<Rightarrow> 'v option \<times> ('k, 'v) BTreeMap" where
  "btree_insert k v m = (btree_get k m, filter (\<lambda>e. fst e < k) m @ (k, v) # filter (\<lambda>e. k < fst e) m)"

definition btree_remove :: "'k \<Rightarrow> ('k, 'v) BTreeMap \<Rightarrow> 'v option \<times> ('k, 'v) BTreeMap" where
  "btree_remove k m = (btree_get k m, filter (\<lambda>e. fst e \<noteq> k) m)"

definition btree_values :: "('k, 'v) BTreeMap \<Rightarrow> 'v list" where
  "btree_values m = map snd m"

text \<open>Collecting an iterator of entries keeps the last value of each key; the others are dropped.\<close>

fun btree_collect :: "('k::linorder \<times> 'v) list \<Rightarrow> ('k, 'v) BTreeMap \<Rightarrow> 'v list \<times> ('k, 'v) BTreeMap" where
  "btree_collect [] m = ([], m)"
| "btree_collect ((k, v) # es) m =
     (let (old, m1) = btree_insert k v m;
          (dropped, m2) = btree_collect es m1
      in ((case old of None \<Rightarrow> [] | Some u \<Rightarrow> [u]) @ dropped, m2))"

lemma btree_ok_Nil [simp]: "btree_ok []"
  by (simp add: btree_ok_def)

lemma btree_get_Nil [simp]: "btree_get k [] = None"
  by (simp add: btree_get_def)

lemma btree_ok_distinct: "btree_ok m \<Longrightarrow> distinct (btree_keys m)"
  by (simp add: btree_ok_def strict_sorted_iff)

lemma btree_get_iff: "btree_ok m \<Longrightarrow> btree_get k m = Some v \<longleftrightarrow> (k, v) \<in> set m"
  by (simp add: btree_get_def map_of_eq_Some_iff btree_ok_distinct)

lemma btree_contains_iff: "btree_contains_key k m \<longleftrightarrow> k \<in> set (btree_keys m)"
  by (auto simp: btree_contains_key_def btree_get_def map_of_eq_None_iff)

lemma btree_get_None: "btree_get k m = None \<longleftrightarrow> k \<notin> set (btree_keys m)"
  by (simp add: btree_get_def map_of_eq_None_iff)

lemma btree_keys_dom: "set (btree_keys m) = dom (\<lambda>k. btree_get k m)"
  by (simp add: btree_get_def dom_map_of_conv_image_fst)

lemma btree_insert_ok: "btree_ok m \<Longrightarrow> btree_insert k v m = (r, m') \<Longrightarrow> btree_ok m'"
  by (auto simp: btree_ok_def btree_insert_def sorted_wrt_append sorted_wrt_map sorted_wrt_filter)

lemma btree_insert_get:
  assumes "btree_insert k v m = (r, m')"
  shows "r = btree_get k m" "btree_get j m' = (if j = k then Some v else btree_get j m)"
proof -
  have f: "map_of (filter (\<lambda>e. P (fst e)) m) j = (if P j then map_of m j else None)" for P
    by (induction m) auto
  have "map_of (filter (\<lambda>e. fst e < k) m) k = None" by (auto simp: map_of_eq_None_iff)
  then show "r = btree_get k m" "btree_get j m' = (if j = k then Some v else btree_get j m)"
    using assms f [of "\<lambda>x. x < k"] f [of "\<lambda>x. k < x"]
    by (auto simp: btree_insert_def btree_get_def map_add_def split: option.splits)
qed

lemma btree_insert_keys: "set (btree_keys (snd (btree_insert k v m))) = insert k (set (btree_keys m))"
proof -
  have "btree_insert k v m = (fst (btree_insert k v m), snd (btree_insert k v m))" by simp
  from btree_insert_get(2) [OF this] show ?thesis unfolding btree_keys_dom by (auto simp: dom_def)
qed

lemma mset_values_filter:
  "distinct (map fst m) \<Longrightarrow> mset (map snd (filter (\<lambda>e. fst e = k) m)) = opt_mset (map_of m k)"
proof (induction m)
  case (Cons x m)
  show ?case
  proof (cases "fst x = k")
    case True
    with Cons.prems have "filter (\<lambda>e. fst e = k) m = []" by (auto simp: filter_empty_conv image_iff)
    with True show ?thesis by simp
  qed (use Cons in simp)
qed simp

lemma btree_insert_values:
  assumes ok: "btree_ok m" and ins: "btree_insert k v m = (r, m')"
  shows "mset (btree_values m') + opt_mset r = add_mset v (mset (btree_values m))"
proof -
  have split: "mset (map snd xs) = mset (map snd (filter (\<lambda>e. fst e < k) xs)) + mset (map snd (filter (\<lambda>e. k < fst e) xs))
      + mset (map snd (filter (\<lambda>e. fst e = k) xs))" for xs :: "('a \<times> 'b) list"
    by (induction xs) auto
  from split [of m] mset_values_filter [OF btree_ok_distinct [OF ok], of k] ins show ?thesis
    by (auto simp: btree_insert_def btree_get_def btree_values_def)
qed

lemma btree_remove_ok: "btree_ok m \<Longrightarrow> btree_remove k m = (r, m') \<Longrightarrow> btree_ok m'"
  by (auto simp: btree_ok_def btree_remove_def sorted_wrt_map sorted_wrt_filter)

lemma btree_remove_values:
  assumes ok: "btree_ok m" and rm: "btree_remove k m = (r, m')"
  shows "mset (btree_values m) = opt_mset r + mset (btree_values m')"
proof -
  have split: "mset (map snd xs) = mset (map snd (filter (\<lambda>e. fst e = k) xs)) + mset (map snd (filter (\<lambda>e. fst e \<noteq> k) xs))"
    for xs :: "('a \<times> 'b) list"
    by (induction xs) auto
  from split [of m] mset_values_filter [OF btree_ok_distinct [OF ok], of k] rm show ?thesis
    by (auto simp: btree_remove_def btree_get_def btree_values_def)
qed

lemma btree_collect_spec:
  "btree_ok m \<Longrightarrow> btree_collect es m = (dropped, m') \<Longrightarrow>
   btree_ok m' \<and> mset dropped + mset (btree_values m') = mset (map snd es) + mset (btree_values m) \<and>
   (\<forall>k. btree_get k m' = (case map_of (rev es) k of Some v \<Rightarrow> Some v | None \<Rightarrow> btree_get k m))"
proof (induction es arbitrary: m dropped m')
  case (Cons x es)
  obtain k v where x: "x = (k, v)" by fastforce
  obtain old m1 where ins: "btree_insert k v m = (old, m1)" by fastforce
  obtain rest where col: "btree_collect es m1 = (rest, m')" and dropped: "dropped = (case old of None \<Rightarrow> [] | Some u \<Rightarrow> [u]) @ rest"
    using Cons.prems(2) by (auto simp: x ins split: prod.splits)
  from Cons.IH [OF btree_insert_ok [OF Cons.prems(1) ins] col] btree_insert_values [OF Cons.prems(1) ins]
  have 1: "btree_ok m'" "mset rest + mset (btree_values m') = mset (map snd es) + mset (btree_values m1)"
    "btree_get j m' = (case map_of (rev es) j of Some v \<Rightarrow> Some v | None \<Rightarrow> btree_get j m1)"
    and 2: "mset (btree_values m1) + opt_mset old = add_mset v (mset (btree_values m))" for j by auto
  have "mset dropped = opt_mset old + mset rest" by (simp add: dropped split: option.splits)
  then have "mset dropped + mset (btree_values m') = opt_mset old + (mset (map snd es) + mset (btree_values m1))"
    using 1(2) by (simp add: ac_simps)
  also have "\<dots> = mset (map snd (x # es)) + mset (btree_values m)" using 2 by (simp add: x ac_simps)
  finally show ?case using 1 btree_insert_get(2) [OF ins] by (auto simp: x map_add_def split: option.splits)
qed simp

end
