(* ===== verification/Detached.thy ===== *)
theory Detached
  imports BTree Drop
begin

section \<open>Detached nodes (\<open>src/src/detached.rs\<close>)\<close>

text \<open>
  A detached object is a node and those of its ancestors that the receiver is not known to have,
  each with its value and the hashes of its parents. The module is not compiled in at this
  commit (its \<open>mod\<close> line in \<open>lib.rs\<close> is commented out), and the hash of a node comes from a
  module that is not in the repository: it is the parameter \<open>hash_id\<close>, a function of the node
  and the memory. The hashes are ordered, as the keys of the source's tree maps are.
\<close>

type_synonym ('n, 'e, 'h) hash_fun = "RelRc \<Rightarrow> ('n, 'e) node_heap \<Rightarrow> 'h"

record ('n, 'e, 'h) DetachedInnerData =
  det_value :: 'n
  det_incoming :: "('h \<times> 'e) list"

record ('n, 'e, 'h) Detached =
  current :: 'h
  all_data :: "('h, ('n, 'e, 'h) DetachedInnerData) BTreeMap"

definition DetachedInnerData_new ::
  "('n, 'e, 'h) hash_fun \<Rightarrow> 'n \<Rightarrow> 'e InnerEdgeData list \<Rightarrow> ('n, 'e) node_heap \<Rightarrow> ('n, 'e, 'h) DetachedInnerData" where
  "DetachedInnerData_new hash_id v inc h =
     \<lparr>det_value = v, det_incoming = map (\<lambda>e. (hash_id (source e) h, edge_value e)) inc\<rparr>"

text \<open>The conversion of a node's data, which takes references instead of clones.\<close>

definition detached_from_inner ::
  "('n, 'e, 'h) hash_fun \<Rightarrow> ('n, 'e) InnerData \<Rightarrow> ('n, 'e) node_heap \<Rightarrow> ('n, 'e, 'h) DetachedInnerData" where
  "detached_from_inner hash_id d h =
     \<lparr>det_value = node_value d, det_incoming = map (\<lambda>e. (hash_id (source e) h, edge_value e)) (incoming d)\<rparr>"

definition det_parents :: "('n, 'e, 'h) DetachedInnerData \<Rightarrow> 'h list" where
  "det_parents d = map fst (det_incoming d)"

subsection \<open>Detaching\<close>

text \<open>
  \<open>ancestors_upto\<close> pops nodes off a stack (its top is the head of the list) until it is empty.
  The nodes it clones on the way are dropped again before \<open>detach\<close> returns and are never the
  last references to their nodes, so detaching only reads the memory.
\<close>

function ancestors_upto_loop ::
  "('n, 'e, 'h::linorder) hash_fun \<Rightarrow> 'h set \<Rightarrow> ('n, 'e) node_heap \<Rightarrow> ('h, RelRc) BTreeMap \<Rightarrow> RelRc list \<Rightarrow>
   ('h, RelRc) BTreeMap" where
  "ancestors_upto_loop hash_id detach_from h all_nodes [] = all_nodes"
| "ancestors_upto_loop hash_id detach_from h all_nodes (node # stack) =
     (let node_id = hash_id node h in
      if \<not> btree_contains_key node_id all_nodes \<and> node_id \<notin> detach_from
      then ancestors_upto_loop hash_id detach_from h (snd (btree_insert node_id node all_nodes))
             (rev (all_parents node h) @ stack)
      else ancestors_upto_loop hash_id detach_from h all_nodes stack)"
  by pat_completeness auto
termination
proof (relation "measures [\<lambda>(hash_id, D, h, all, stack). card ((\<lambda>a. hash_id a h) ` {..<length h} - set (btree_keys all)),
                           \<lambda>(hash_id, D, h, all, stack). length stack]", goal_cases)
  case (2 hash_id D h all node stack x)
  let ?H = "(\<lambda>a. hash_id a h) ` {..<length h}" and ?all = "snd (btree_insert x node all)"
  note keys = btree_insert_keys [of x node all]
  show ?case
  proof (cases "node < length h")
    case True
    have "?H - set (btree_keys ?all) = (?H - set (btree_keys all)) - {x}" by (simp only: keys) blast
    moreover have "card ((?H - set (btree_keys all)) - {x}) < card (?H - set (btree_keys all))"
      using True 2 by (intro card_Diff1_less) (auto simp: btree_contains_iff)
    ultimately show ?thesis by simp
  next
    case False
    then have "all_parents node h = []" by (simp add: all_parents_def all_incoming_def)
    moreover have "card (?H - set (btree_keys ?all)) \<le> card (?H - set (btree_keys all))"
      unfolding keys by (intro card_mono) auto
    ultimately show ?thesis by auto
  qed
qed simp_all

declare ancestors_upto_loop.simps(2) [simp del]

definition ancestors_upto ::
  "('n, 'e, 'h::linorder) hash_fun \<Rightarrow> RelRc \<Rightarrow> 'h set \<Rightarrow> ('n, 'e) node_heap \<Rightarrow> ('h, RelRc) BTreeMap" where
  "ancestors_upto hash_id obj detach_from h = ancestors_upto_loop hash_id detach_from h [] [obj]"

text \<open>Every node a handle leads to has a value; an entry without one would be left out.\<close>

definition Detached_new ::
  "('n, 'e, 'h::linorder) hash_fun \<Rightarrow> RelRc \<Rightarrow> 'h set \<Rightarrow> ('n, 'e) node_heap \<Rightarrow> ('n, 'e, 'h) Detached" where
  "Detached_new hash_id obj detach_from h =
     \<lparr>current = hash_id obj h,
      all_data = List.map_filter (\<lambda>(i, n). map_option
          (\<lambda>v. (i, DetachedInnerData_new hash_id v (all_incoming n h) h)) (value_at n h))
        (ancestors_upto hash_id obj detach_from h)\<rparr>"

definition detach ::
  "('n, 'e, 'h::linorder) hash_fun \<Rightarrow> RelRc \<Rightarrow> 'h set \<Rightarrow> ('n, 'e) node_heap \<Rightarrow> ('n, 'e, 'h) Detached" where
  "detach hash_id obj detach_from h = Detached_new hash_id obj detach_from h"

definition Detached_empty :: "'h \<Rightarrow> ('n, 'e, 'h) Detached" where
  "Detached_empty c = \<lparr>current = c, all_data = []\<rparr>"

definition n_ancestors :: "('n, 'e, 'h) Detached \<Rightarrow> nat" where
  "n_ancestors d = length (all_data d)"

text \<open>\<open>Itertools::unique\<close> keeps the first occurrence of each item.\<close>

definition unique :: "'a list \<Rightarrow> 'a list" where
  "unique xs = rev (remdups (rev xs))"

definition required_hashes :: "('n, 'e, 'h) Detached \<Rightarrow> 'h list" where
  "required_hashes d =
     unique (filter (\<lambda>i. \<not> btree_contains_key i (all_data d))
       (concat (map det_parents (btree_values (all_data d)))))"

definition attaches_to :: "('n, 'e, 'h) Detached \<Rightarrow> ('h, RelRc) BTreeMap \<Rightarrow> bool" where
  "attaches_to d attach_to \<longleftrightarrow> list_all (\<lambda>i. btree_contains_key i attach_to) (required_hashes d)"

subsection \<open>The traversal of \<open>attach\<close>\<close>

text \<open>
  \<open>post_order_for_each\<close> runs a stack of events (the top is the head of the list). A successor is
  marked as visited when it is pushed. The loop spends a unit of fuel per event; \<open>None\<close> is
  running out of it.
\<close>

datatype 'v DfsEvent = DfsEnter 'v | DfsExit 'v

fun push_successors ::
  "('v \<Rightarrow> bool) \<Rightarrow> 'v list \<Rightarrow> 'v DfsEvent list \<times> 'v set \<Rightarrow> 'v DfsEvent list \<times> 'v set" where
  "push_successors visit [] st = st"
| "push_successors visit (u # us) (stack, visited) =
     push_successors visit us
       (if visit u \<and> u \<notin> visited then (DfsEnter u # stack, insert u visited) else (stack, visited))"

fun post_order_loop ::
  "nat \<Rightarrow> ('v \<Rightarrow> 'st \<Rightarrow> 'st res) \<Rightarrow> ('v \<Rightarrow> 'v list res) \<Rightarrow> ('v \<Rightarrow> bool) \<Rightarrow>
   'v DfsEvent list \<Rightarrow> 'v set \<Rightarrow> 'st \<Rightarrow> 'st res option" where
  "post_order_loop 0 f successors visit stack visited st = None"
| "post_order_loop (Suc n) f successors visit [] visited st = Some (Inr st)"
| "post_order_loop (Suc n) f successors visit (DfsEnter v # stack) visited st =
     (case successors v of
        Inl p \<Rightarrow> Some (Inl p)
      | Inr us \<Rightarrow>
          (let (stack', visited') = push_successors visit us (DfsExit v # stack, visited)
           in post_order_loop n f successors visit stack' visited' st))"
| "post_order_loop (Suc n) f successors visit (DfsExit v # stack) visited st =
     (case f v st of
        Inl p \<Rightarrow> Some (Inl p)
      | Inr st' \<Rightarrow> post_order_loop n f successors visit stack visited st')"

definition post_order_for_each ::
  "nat \<Rightarrow> 'v \<Rightarrow> ('v \<Rightarrow> 'st \<Rightarrow> 'st res) \<Rightarrow> ('v \<Rightarrow> 'v list res) \<Rightarrow> ('v \<Rightarrow> bool) \<Rightarrow> 'st \<Rightarrow> 'st res option" where
  "post_order_for_each n start f successors visit st =
     post_order_loop n f successors visit [DfsEnter start] {} st"

subsection \<open>Attaching\<close>

definition unwrap :: "'a option \<Rightarrow> 'a res" where
  "unwrap x = (case x of None \<Rightarrow> Inl Unwrap | Some y \<Rightarrow> Inr y)"

lemma unwrap_simps [simp]: "unwrap None = Inl Unwrap" "unwrap (Some y) = Inr y"
  by (simp_all add: unwrap_def)

text \<open>
  The closure that makes one node. The parents are cloned while \<open>with_parents\<close> builds the edges;
  cloning them before the allocation gives the same memory.
\<close>

type_synonym ('n, 'e, 'k, 's, 'h) attach_state = "('h, RelRc) BTreeMap \<times> ('n, 'e, 'k, 's) world"

definition find_parent :: "('h, RelRc) BTreeMap \<Rightarrow> ('h, RelRc) BTreeMap \<Rightarrow> 'h \<Rightarrow> RelRc option" where
  "find_parent all_new attach_to p =
     (case btree_get p all_new of Some a \<Rightarrow> Some a | None \<Rightarrow> btree_get p attach_to)"

definition attach_node ::
  "allocator \<Rightarrow> ('k, 's) slotmap_ops \<Rightarrow> ('n, 'e, 'h::linorder) Detached \<Rightarrow> ('h, RelRc) BTreeMap \<Rightarrow> 'h \<Rightarrow>
   ('n, 'e, 'k, 's, 'h) attach_state \<Rightarrow> ('n, 'e, 'k, 's, 'h) attach_state res" where
  "attach_node al ops det attach_to i st =
     (case st of (all_new, w) \<Rightarrow>
       and_then (unwrap (btree_get i (all_data det))) (\<lambda>data.
       and_then (map_res (\<lambda>(p, v). and_then (unwrap (find_parent all_new attach_to p)) (\<lambda>a. Inr (a, v))) (det_incoming data)) (\<lambda>ps.
         (let (a, h) = with_parents al (det_value data) ps (fold relrc_clone (map fst ps) (mem w));
              (old, all_new') = btree_insert i a all_new
          in Inr (all_new', drop_tasks ops (map DropRelRc (case old of None \<Rightarrow> [] | Some b \<Rightarrow> [b])) (w\<lparr>mem := h\<rparr>))))))"

definition attach_successors :: "('n, 'e, 'h) Detached \<Rightarrow> 'h \<Rightarrow> 'h list res" where
  "attach_successors det i = and_then (unwrap (btree_get i (all_data det))) (\<lambda>d. Inr (map fst (det_incoming d)))"

text \<open>
  Fuel: every node is entered and left once, the start possibly twice, and only parents of detached
  nodes are entered besides the start.
\<close>

definition attach_fuel :: "('n, 'e, 'h) Detached \<Rightarrow> nat" where
  "attach_fuel det = 2 * length (concat (map det_parents (btree_values (all_data det)))) + 3"

text \<open>
  \<open>attach\<close> takes the objects to attach to by value. On return it drops the new nodes other than
  the result (which live on as its ancestors) and then the objects it was given.
\<close>

definition drop_all :: "('k, 's) slotmap_ops \<Rightarrow> RelRc list \<Rightarrow> ('n, 'e, 'k, 's) world \<Rightarrow> ('n, 'e, 'k, 's) world" where
  "drop_all ops as w = drop_tasks ops (map DropRelRc as) w"

definition attach ::
  "allocator \<Rightarrow> ('k, 's) slotmap_ops \<Rightarrow> ('n, 'e, 'h::linorder) hash_fun \<Rightarrow> ('n, 'e, 'h) Detached \<Rightarrow> RelRc list \<Rightarrow>
   ('n, 'e, 'k, 's) world \<Rightarrow> (RelRc \<times> ('n, 'e, 'k, 's) world) res option" where
  "attach al ops hash_id det objs w =
     (let (dropped, attach_to) = btree_collect (map (\<lambda>n. (hash_id n (mem w), n)) objs) [];
          w0 = drop_all ops dropped w
      in case btree_get (current det) attach_to of
           Some a \<Rightarrow> Some (Inr (a, drop_all ops (btree_values attach_to) (w0\<lparr>mem := relrc_clone a (mem w0)\<rparr>)))
         | None \<Rightarrow>
             map_option (\<lambda>r. and_then r (\<lambda>(all_new, w1).
               (let (result, rest) = btree_remove (current det) all_new
                in and_then (unwrap result) (\<lambda>a.
                     Inr (a, drop_all ops (btree_values attach_to) (drop_all ops (btree_values rest) w1))))))
             (post_order_for_each (attach_fuel det) (current det) (attach_node al ops det attach_to)
               (attach_successors det) (\<lambda>i. \<not> btree_contains_key i attach_to) ([], w0)))"

end
