(* ===== verification/Resolver.thy ===== *)
theory Resolver
  imports Prelude "HOL-Library.Word"
begin

section \<open>Equivalence of nodes (\<open>src/src/resolver.rs\<close>)\<close>

text \<open>
  The trait \<open>EquivalenceResolver\<close> decides which node values are equivalent and moves edges between
  equivalent nodes. A resolver is the record of the trait's methods; the associated types \<open>MergeMapping\<close>
  and \<open>DedupKey\<close> are type parameters. The repository has one implementation, \<open>TestResolver\<close>, and no
  caller. What the comments promise of a resolver is the locale \<open>equivalence_resolver\<close>.
\<close>

datatype NotEquivalent = NotEquivalent

record ('n, 'e, 'm, 'key) EquivalenceResolver =
  resolver_id :: string
  dedup_key :: "'n \<Rightarrow> 'e list \<Rightarrow> 'key"
  try_merge_mapping :: "'n \<Rightarrow> 'e list \<Rightarrow> 'n \<Rightarrow> 'e list \<Rightarrow> NotEquivalent + 'm"
  move_edge_source :: "'m \<Rightarrow> 'e \<Rightarrow> 'e"

text \<open>\<open>ResolverId\<close> keeps the id only; its other field is a marker without data.\<close>

record ResolverId =
  rid :: string

definition ResolverId_from :: "('n, 'e, 'm, 'key) EquivalenceResolver \<Rightarrow> ResolverId" where
  "ResolverId_from r = \<lparr>rid = resolver_id r\<rparr>"

definition String_from_ResolverId :: "ResolverId \<Rightarrow> string" where
  "String_from_ResolverId r = rid r"

datatype InvalidResolver = InvalidResolver string string

text \<open>The messages of the two errors.\<close>

fun NotEquivalent_message :: "NotEquivalent \<Rightarrow> string" where
  "NotEquivalent_message NotEquivalent = ''Vertices are not equivalent''"

fun InvalidResolver_message :: "InvalidResolver \<Rightarrow> string" where
  "InvalidResolver_message (InvalidResolver a b) =
     ''Invalid resolver '' @ [CHR 0x22] @ a @ [CHR 0x22] @ '', expected '' @ [CHR 0x22] @ b @ [CHR 0x22]"

subsection \<open>What a resolver promises\<close>

text \<open>
  A node is its value and the values of its incoming edges. \<open>out_ok v e\<close> says that the edge value \<open>e\<close> is
  valid for an edge that starts at a node with value \<open>v\<close>. Being equivalent is an equivalence relation,
  equivalent nodes have the same key, and moving an edge along a mapping makes it valid at the new source.
\<close>

definition equivalent :: "('n, 'e, 'm, 'key) EquivalenceResolver \<Rightarrow> 'n \<times> 'e list \<Rightarrow> 'n \<times> 'e list \<Rightarrow> bool" where
  "equivalent r a b \<longleftrightarrow> (\<exists>m. try_merge_mapping r (fst a) (snd a) (fst b) (snd b) = Inr m)"

definition node_key :: "('n, 'e, 'm, 'key) EquivalenceResolver \<Rightarrow> 'n \<times> 'e list \<Rightarrow> 'key" where
  "node_key r a = dedup_key r (fst a) (snd a)"

locale equivalence_resolver =
  fixes r :: "('n, 'e, 'm, 'key) EquivalenceResolver" and out_ok :: "'n \<Rightarrow> 'e \<Rightarrow> bool"
  assumes equiv_refl: "equivalent r a a"
    and equiv_sym: "equivalent r a b \<Longrightarrow> equivalent r b a"
    and equiv_trans: "equivalent r a b \<Longrightarrow> equivalent r b c \<Longrightarrow> equivalent r a c"
    and key_equiv: "equivalent r a b \<Longrightarrow> node_key r a = node_key r b"
    and moved: "try_merge_mapping r v es v' es' = Inr m \<Longrightarrow> out_ok v e \<Longrightarrow> out_ok v' (move_edge_source r m e)"
begin

text \<open>Looking for equivalents among the candidates with the same key misses none.\<close>

lemma candidates_complete:
  "filter (equivalent r a) (filter (\<lambda>b. node_key r b = node_key r a) xs) = filter (equivalent r a) xs"
  by (induction xs) (auto dest: key_equiv)

text \<open>An edge can be moved from node to node; it stays valid at its source.\<close>

lemma moved_twice:
  assumes "try_merge_mapping r (fst a) (snd a) (fst b) (snd b) = Inr m" "try_merge_mapping r (fst b) (snd b) (fst c) (snd c) = Inr m'"
    and "out_ok (fst a) e"
  shows "equivalent r a c" "out_ok (fst c) (move_edge_source r m' (move_edge_source r m e))"
  using moved [OF assms(2) moved [OF assms(1,3)]] equiv_trans [of a b c] assms(1,2) by (auto simp: equivalent_def)

end

subsection \<open>The resolver of the tests\<close>

type_synonym resolver_usize = "64 word"

definition TestResolver :: "(resolver_usize \<times> resolver_usize, resolver_usize, resolver_usize, resolver_usize) EquivalenceResolver" where
  "TestResolver = \<lparr>
     resolver_id = ''test_resolver'',
     dedup_key = (\<lambda>value incoming_edges. fst value),
     try_merge_mapping = (\<lambda>a_value a_incoming_edges b_value b_incoming_edges.
       if fst a_value = fst b_value then Inr (snd b_value) else Inl NotEquivalent),
     move_edge_source = (\<lambda>mapping edge. mapping)\<rparr>"

text \<open>All edges that leave a node must have the second component of the node's value as their weight.\<close>

definition test_out_ok :: "resolver_usize \<times> resolver_usize \<Rightarrow> resolver_usize \<Rightarrow> bool" where
  "test_out_ok v e \<longleftrightarrow> e = snd v"

lemma TestResolver_reads [simp]:
  "equivalent TestResolver a b \<longleftrightarrow> fst (fst a) = fst (fst b)" "node_key TestResolver a = fst (fst a)"
  "try_merge_mapping TestResolver v es v' es' = (if fst v = fst v' then Inr (snd v') else Inl NotEquivalent)"
  "move_edge_source TestResolver m e = m"
  by (simp_all add: equivalent_def node_key_def TestResolver_def)

interpretation test_resolver: equivalence_resolver TestResolver test_out_ok
  by unfold_locales (auto simp: test_out_ok_def split: if_splits)

end
