(* ===== verification/Unit_Tests.thy ===== *)
theory Unit_Tests
  imports RefCell_History Detached Resolver
begin

section \<open>The unit tests of the repository\<close>

text \<open>
  The test functions of the source, as programs over the operations with borrow flags. An \<open>assert!\<close>
  that fails, an \<open>unwrap\<close> of nothing and a snapshot that differs panic. The drops of local variables
  at the end of a test and the output of \<open>dbg!\<close> are left out; drops in the middle (a block that ends, a
  call of \<open>drop\<close>) are not.
\<close>

definition asserts :: "bool \<Rightarrow> (unit, 'n, 'e, 'k, 's) action" where
  "asserts b = (if b then return_b () else panic_b Assert)"

definition unwrap_b :: "'x option \<Rightarrow> ('x, 'n, 'e, 'k, 's) action" where
  "unwrap_b x = (case x of None \<Rightarrow> panic_b Unwrap | Some y \<Rightarrow> return_b y)"

text \<open>A call whose recursion has fuel; running out of it would fail the test.\<close>

definition fueled ::
  "(('n, 'e, 'k, 's) bstate \<Rightarrow> ('x \<times> ('n, 'e, 'k, 's) bstate) res option) \<Rightarrow> ('x, 'n, 'e, 'k, 's) action" where
  "fueled f st = (case f st of None \<Rightarrow> Inl (Explicit ''out of fuel'') | Some r \<Rightarrow> r)"

definition relrc_clone_b :: "RelRc \<Rightarrow> (RelRc, 'n, 'e, 'k, 's) action" where
  "relrc_clone_b a = plain (\<lambda>w. (a, w\<lparr>mem := relrc_clone a (mem w)\<rparr>))"

definition add_node_b ::
  "('k, 's) slotmap_ops \<Rightarrow> RelRc \<Rightarrow> ('k, 's) Registry \<Rightarrow> ('k \<times> ('k, 's) Registry, 'n, 'e, 'k, 's) action" where
  "add_node_b ops a R = plain (\<lambda>w. case add_node ops a R (mem w) of (k, R', h) \<Rightarrow> ((k, R'), w\<lparr>mem := h\<rparr>))"

definition registry_get_b ::
  "('k, 's) slotmap_ops \<Rightarrow> 'k \<Rightarrow> ('k, 's) Registry \<Rightarrow> (RelRc option, 'n, 'e, 'k, 's) action" where
  "registry_get_b ops k R = plain (\<lambda>w. case registry_get ops k R (mem w) of (x, h) \<Rightarrow> (x, w\<lparr>mem := h\<rparr>))"

definition history_default_b :: "allocator \<Rightarrow> ('k, 's) slotmap_ops \<Rightarrow> ('k HistoryGraph, 'n, 'e, 'k, 's) action" where
  "history_default_b al ops =
     bind_b (plain (history_default al ops)) (\<lambda>g. bind_b (cell_new (RegistryCell (hg_registry g))) (\<lambda>_. return_b g))"

lemma history_default_b_idle [run_simps]:
  "history_default_b al ops (no_borrows, w) = (case history_default al ops w of (g, w') \<Rightarrow> Inr (g, no_borrows, w'))"
  by (simp add: history_default_b_def run_simps case_prod_unfold fun_upd_idem)

definition exactly_one :: "'x list \<Rightarrow> 'x option" where
  "exactly_one xs = (case xs of [x] \<Rightarrow> Some x | _ \<Rightarrow> None)"

text \<open>The outcome of a test that starts with an empty memory.\<close>

definition run_test :: "('x, 'n, 'e, 'k, 's) action \<Rightarrow> 'x res" where
  "run_test t = map_sum id fst (t (\<lambda>_. 0, \<lparr>mem = [], regs = []\<rparr>))"

subsection \<open>Registries and nodes\<close>

definition test_register_and_get :: "allocator \<Rightarrow> ('k, 's) slotmap_ops \<Rightarrow> (unit, string, unit, 'k, 's) action" where
  "test_register_and_get al ops =
     bind_b (relrc_new_b al ''test'') (\<lambda>node.
     bind_b (add_node_b ops node (registry_new ops)) (\<lambda>(nid, R).
     bind_b (registry_get_b ops nid R) (\<lambda>found.
     bind_b (unwrap_b found) (\<lambda>retrieved.
       asserts (relrc_ptr_eq node retrieved)))))"

definition test_duplicate_registration :: "allocator \<Rightarrow> ('k, 's) slotmap_ops \<Rightarrow> (unit, string, unit, 'k, 's) action" where
  "test_duplicate_registration al ops =
     bind_b (relrc_new_b al ''test'') (\<lambda>node.
     bind_b (add_node_b ops node (registry_new ops)) (\<lambda>(id1, R1).
     bind_b (add_node_b ops node R1) (\<lambda>(id2, R2).
       asserts (id1 = id2))))"

definition test_get_id :: "allocator \<Rightarrow> ('k, 's) slotmap_ops \<Rightarrow> (unit, string, unit, 'k, 's) action" where
  "test_get_id al ops =
     bind_b (relrc_new_b al ''test'') (\<lambda>node.
     bind_b (asserts (get_id node (registry_new ops) = None)) (\<lambda>_.
     bind_b (add_node_b ops node (registry_new ops)) (\<lambda>(nid, R).
       asserts (get_id node R = Some nid))))"

text \<open>\<open>Rc::try_unwrap\<close> takes the registry out of the last \<open>Rc\<close>.\<close>

definition try_unwrap_registry :: "addr \<Rightarrow> (('k, 's) Registry option, 'n, 'e, 'k, 's) action" where
  "try_unwrap_registry r = plain (\<lambda>w.
     if strong_count r (regs w) = 1
     then (case rc_take r (regs w) of (R, g) \<Rightarrow> (R, w\<lparr>regs := weak_drop r g\<rparr>))
     else (None, w))"

definition test_cleanup_dead_references :: "allocator \<Rightarrow> ('k, 's) slotmap_ops \<Rightarrow> (unit, string, unit, 'k, 's) action" where
  "test_cleanup_dead_references al ops =
     bind_b (rc_registry_b al (registry_new ops)) (\<lambda>r.
     bind_b (relrc_new_b al ''test'') (\<lambda>node.
     bind_b (try_register_in_b ops node r) (\<lambda>registered.
     bind_b (unwrap_b registered) (\<lambda>nid.
     bind_b (with_ref (RegistryCell r) (reads (\<lambda>w. map_option (registry_len ops) (deref (regs w) r)))) (\<lambda>len.
     bind_b (asserts (len = Some 1)) (\<lambda>_.
     bind_b (relrc_drop_b ops node) (\<lambda>_.
     bind_b (try_unwrap_registry r) (\<lambda>inner.
     bind_b (unwrap_b inner) (\<lambda>R.
     bind_b (registry_get_b ops nid R) (\<lambda>found.
     bind_b (asserts (found = None)) (\<lambda>_.
     bind_b (reads (\<lambda>w. fst (contains_id ops nid R (mem w)))) (\<lambda>contained.
     bind_b (asserts (\<not> contained)) (\<lambda>_.
       asserts (registry_len ops R = 0))))))))))))))"

subsection \<open>History graphs\<close>

definition test_history_graph ::
  "allocator \<Rightarrow> ('k::linorder, 's) slotmap_ops \<Rightarrow> (unit, nat \<times> nat, nat, 'k, 's) action" where
  "test_history_graph al ops =
     bind_b (relrc_new_b al (1, 10)) (\<lambda>grandparent.
     bind_b (relrc_clone_b grandparent) (\<lambda>g1. bind_b (with_parents_b al (1, 20) [(g1, 10)]) (\<lambda>parent.
     bind_b (relrc_clone_b parent) (\<lambda>p1. bind_b (with_parents_b al (2, 30) [(p1, 20)]) (\<lambda>child1.
     bind_b (relrc_clone_b parent) (\<lambda>p2. bind_b (with_parents_b al (3, 35) [(p2, 25)]) (\<lambda>child2.
     bind_b (reads (\<lambda>w. incoming_at child2 0 (mem w))) (\<lambda>in0. bind_b (unwrap_b in0) (\<lambda>e.
     bind_b (asserts (inner_edge_value e = 25)) (\<lambda>_.
     bind_b (history_default_b al ops) (\<lambda>graph0.
     bind_b (fueled (insert_ancestors_b ops child1 graph0)) (\<lambda>(child1_id, graph1).
     bind_b (asserts (length (all_node_ids graph1) = 3)) (\<lambda>_.
     bind_b (edge_source_b graph1 \<lparr>eid_target = child1_id, eid_index = 0\<rparr>) (\<lambda>s1. bind_b (unwrap_b s1) (\<lambda>parent_id.
     bind_b (edge_source_b graph1 \<lparr>eid_target = parent_id, eid_index = 0\<rparr>) (\<lambda>s2. bind_b (unwrap_b s2) (\<lambda>grandparent_id.
     bind_b (outgoing_edges_b ops graph1 grandparent_id) (\<lambda>o1. bind_b (unwrap_b (exactly_one o1)) (\<lambda>out_grandparent.
     bind_b (asserts (eid_target out_grandparent = parent_id)) (\<lambda>_.
     bind_b (outgoing_edges_b ops graph1 parent_id) (\<lambda>o2. bind_b (unwrap_b (exactly_one o2)) (\<lambda>out_parent.
     bind_b (asserts (eid_target out_parent = child1_id)) (\<lambda>_.
     bind_b (fueled (insert_ancestors_b ops child2 graph1)) (\<lambda>(child2_id, graph2).
     bind_b (asserts (length (all_node_ids graph2) = 4)) (\<lambda>_.
       asserts (sort (all_node_ids graph2) = [grandparent_id, parent_id, child1_id, child2_id]))))))))))))))))))))))))))"

subsection \<open>Snapshots\<close>

text \<open>
  \<open>assert_yaml_snapshot!\<close> prints a serialised value as a YAML document and compares it with a file under
  \<open>src/src/snapshots\<close>. The documents are trees; a derived \<open>Serialize\<close> prints a struct as a mapping with
  its fields in order. How the crate \<open>slotmap\<close> prints a key, and the slots of a slot map, is a parameter: the
  version of each slot and the key of an occupied one.
\<close>

datatype yaml = Null | Num nat | Str string | Seq "yaml list" | Obj "(string \<times> yaml) list"

record ('k, 's) slotmap_printer =
  print_key :: "'k \<Rightarrow> yaml"
  print_slots :: "'s \<Rightarrow> (nat \<times> 'k option) list"

definition print_inner_data ::
  "('k, 's) slotmap_printer \<Rightarrow> ('n \<Rightarrow> yaml) \<Rightarrow> ('e \<Rightarrow> yaml) \<Rightarrow> ('n, 'e, 'k) SerializedInnerData \<Rightarrow> yaml" where
  "print_inner_data pr fn fe d =
     Obj [(''value'', fn (ser_value d)),
          (''incoming'', Seq (map (\<lambda>(k, v). Seq [print_key pr k, fe v]) (ser_incoming d)))]"

definition print_registry ::
  "('k, 's) slotmap_printer \<Rightarrow> ('n \<Rightarrow> yaml) \<Rightarrow> ('e \<Rightarrow> yaml) \<Rightarrow> ('n, 'e, 'k, 's) SerializedRegistry \<Rightarrow> yaml" where
  "print_registry pr fn fe sr =
     Obj [(''nodes'', Seq (map (\<lambda>(version, k).
       Obj [(''value'', case Option.bind k (vals (ser_nodes sr)) of None \<Rightarrow> Null | Some d \<Rightarrow> print_inner_data pr fn fe d),
            (''version'', Num version)])
       (print_slots pr (slots (ser_nodes sr)))))]"

definition print_graph ::
  "('k::linorder, 's) slotmap_printer \<Rightarrow> ('n \<Rightarrow> yaml) \<Rightarrow> ('e \<Rightarrow> yaml) \<Rightarrow> ('n, 'e, 'k, 's) SerializedHistoryGraph \<Rightarrow> yaml" where
  "print_graph pr fn fe sh =
     Obj [(''nodes'', Seq (map (print_key pr) (sorted_list_of_set (shg_nodes sh)))),
          (''registry'', print_registry pr fn fe (shg_registry sh))]"

definition print_relrc ::
  "('k::linorder, 's) slotmap_printer \<Rightarrow> ('n \<Rightarrow> yaml) \<Rightarrow> ('e \<Rightarrow> yaml) \<Rightarrow> ('n, 'e, 'k, 's) SerializedRelRc \<Rightarrow> yaml" where
  "print_relrc pr fn fe s =
     Obj [(''id'', print_key pr (srr_id s)), (''ancestors_graph'', print_graph pr fn fe (ancestors_graph s))]"

definition assert_snapshot :: "yaml \<Rightarrow> yaml \<Rightarrow> (unit, 'n, 'e, 'k, 's) action" where
  "assert_snapshot printed file = (if printed = file then return_b () else panic_b (Explicit ''snapshot assertion''))"

text \<open>How values of the types that the tests use are printed.\<close>

definition print_pair :: "nat \<times> nat \<Rightarrow> yaml" where
  "print_pair x = Seq [Num (fst x), Num (snd x)]"

definition print_unit :: "unit \<Rightarrow> yaml" where
  "print_unit _ = Null"

text \<open>
  The crate prints the slot 0, which it does not use, numbers the other slots from 1, and gives an
  empty slot the version after its last key; the generational keys of \<open>SlotMap\<close> start at 0.
\<close>

definition yaml_key :: "nat \<Rightarrow> nat \<Rightarrow> yaml" where
  "yaml_key i v = Obj [(''idx'', Num i), (''version'', Num v)]"

definition gen_printer :: "(gen_key, gen_slots) slotmap_printer" where
  "gen_printer = \<lparr>print_key = (\<lambda>k. yaml_key (Suc (fst k)) (snd k)),
     print_slots = (\<lambda>ss. (0, None) # map (\<lambda>(i, v, occ). if occ then (v, Some (i, v)) else (Suc v, None)) (enumerate 0 ss))\<rparr>"

text \<open>The parts of which the snapshot files are made.\<close>

definition yaml_empty :: "nat \<Rightarrow> yaml" where
  "yaml_empty v = Obj [(''value'', Null), (''version'', Num v)]"

definition yaml_node :: "yaml \<Rightarrow> (nat \<times> yaml) list \<Rightarrow> yaml" where
  "yaml_node x es =
     Obj [(''value'', Obj [(''value'', x), (''incoming'', Seq (map (\<lambda>(i, e). Seq [yaml_key i 1, e]) es))]), (''version'', Num 1)]"

text \<open>
  The five files. In three of them the field \<open>registry\<close> is the sequence of slots itself; in the other two it is a mapping with a
  field \<open>nodes\<close>, as the struct \<open>SerializedRegistry\<close> has it.
\<close>

definition snap_history_graph_serialization :: yaml where
  "snap_history_graph_serialization =
     Obj [(''nodes'', Seq [yaml_key 1 1, yaml_key 2 1, yaml_key 3 1, yaml_key 4 1, yaml_key 5 1, yaml_key 6 1]),
          (''registry'', Obj [(''nodes'', Seq
             [yaml_empty 0, yaml_node (Seq [Num 1, Num 10]) [], yaml_node (Seq [Num 1, Num 20]) [(1, Num 10)],
              yaml_node (Seq [Num 2, Num 30]) [(2, Num 20)], yaml_node (Seq [Num 1, Num 15]) [],
              yaml_node (Seq [Num 1, Num 25]) [(4, Num 15)], yaml_node (Seq [Num 3, Num 35]) [(5, Num 25)]])])]"

definition snap_relrc_serialization :: yaml where
  "snap_relrc_serialization =
     Obj [(''id'', yaml_key 1 1), (''ancestors_graph'',
       Obj [(''nodes'', Seq [yaml_key 1 1]), (''registry'', Seq [yaml_empty 0, yaml_node (Num 42) []])])]"

definition snap_relrc_with_parents_serialization :: yaml where
  "snap_relrc_with_parents_serialization =
     Obj [(''id'', yaml_key 1 1), (''ancestors_graph'',
       Obj [(''nodes'', Seq [yaml_key 1 1, yaml_key 2 1, yaml_key 3 1]),
            (''registry'', Seq
               [yaml_empty 0, yaml_node (Str ''grandchild'') [(2, Str ''edge_to_grandchild'')],
                yaml_node (Str ''child'') [(3, Str ''edge_to_child'')], yaml_node (Str ''parent'') []])])]"

definition snap_relrc_with_multiple_parents_serialization :: yaml where
  "snap_relrc_with_multiple_parents_serialization =
     Obj [(''id'', yaml_key 4 1), (''ancestors_graph'',
       Obj [(''nodes'', Seq [yaml_key 1 1, yaml_key 2 1, yaml_key 4 1]),
            (''registry'', Seq
               [yaml_empty 0, yaml_node (Str ''parent1'') [], yaml_node (Str ''parent2'') [], yaml_empty 2,
                yaml_node (Str ''child'') [(1, Str ''edge_from_parent1''), (2, Str ''edge_from_parent2'')]])])]"

definition snap_two_parents_two_children :: yaml where
  "snap_two_parents_two_children =
     Obj [(''nodes'', Seq [yaml_key 1 1, yaml_key 2 1]),
          (''registry'', Obj [(''nodes'', Seq
             [yaml_empty 0, yaml_node (Str ''child1'') [(3, Str ''edge1'')],
              yaml_node (Str ''child2'') [(3, Str ''edge2''), (4, Str ''edge3'')], yaml_node (Str ''root1'') [],
              yaml_node (Str ''root2'') []])])]"

definition relrc_values :: "RelRc list \<Rightarrow> ('n option list, 'n, 'e, 'k, 's) action" where
  "relrc_values as = reads (\<lambda>w. map (\<lambda>a. value_at a (mem w)) as)"

subsection \<open>Serialisation\<close>

definition test_history_graph_serialization ::
  "allocator \<Rightarrow> ('k::linorder, 's) slotmap_ops \<Rightarrow> ('k, 's) slotmap_printer \<Rightarrow> (unit, nat \<times> nat, nat, 'k, 's) action" where
  "test_history_graph_serialization al ops pr =
     bind_b (relrc_new_b al (1, 10)) (\<lambda>grandparent1.
     bind_b (relrc_clone_b grandparent1) (\<lambda>g1. bind_b (with_parents_b al (1, 20) [(g1, 10)]) (\<lambda>parent1.
     bind_b (relrc_clone_b parent1) (\<lambda>p1. bind_b (with_parents_b al (2, 30) [(p1, 20)]) (\<lambda>child1.
     bind_b (relrc_new_b al (1, 15)) (\<lambda>grandparent2.
     bind_b (relrc_clone_b grandparent2) (\<lambda>g2. bind_b (with_parents_b al (1, 25) [(g2, 15)]) (\<lambda>parent2.
     bind_b (relrc_clone_b parent2) (\<lambda>p2. bind_b (with_parents_b al (3, 35) [(p2, 25)]) (\<lambda>child2.
     bind_b (reads (\<lambda>w. incoming_at child2 0 (mem w))) (\<lambda>in0. bind_b (unwrap_b in0) (\<lambda>e.
     bind_b (asserts (inner_edge_value e = 25)) (\<lambda>_.
     bind_b (history_default_b al ops) (\<lambda>graph0.
     bind_b (fueled (insert_ancestors_b ops child1 graph0)) (\<lambda>(_, graph1).
     bind_b (fueled (insert_ancestors_b ops child2 graph1)) (\<lambda>(_, graph).
     bind_b (history_to_serialized_b ops graph) (\<lambda>serialized.
     bind_b (assert_snapshot (print_graph pr print_pair Num serialized) snap_history_graph_serialization) (\<lambda>_.
     bind_b (fueled (history_from_serialized_b al ops serialized)) (\<lambda>deserialized.
       asserts (set (all_node_ids graph) = set (all_node_ids deserialized)))))))))))))))))))))"

definition test_relrc_serialization ::
  "allocator \<Rightarrow> ('k::linorder, 's) slotmap_ops \<Rightarrow> ('k, 's) slotmap_printer \<Rightarrow> (unit, nat, unit, 'k, 's) action" where
  "test_relrc_serialization al ops pr =
     bind_b (relrc_new_b al 42) (\<lambda>node.
     bind_b (rc_registry_b al (registry_new ops)) (\<lambda>r.
     bind_b (fueled (relrc_to_serialized_b ops node r)) (\<lambda>serialized.
     bind_b (assert_snapshot (print_relrc pr Num print_unit serialized) snap_relrc_serialization) (\<lambda>_.
     bind_b (fueled (relrc_from_serialized_b al ops serialized)) (\<lambda>deser.
     bind_b (relrc_values [deser]) (\<lambda>vs. bind_b (asserts (vs = [Some 42])) (\<lambda>_.
     bind_b (reads (\<lambda>w. length (all_parents deser (mem w)))) (\<lambda>n_parents. bind_b (asserts (n_parents = 0)) (\<lambda>_.
     bind_b (reads (\<lambda>w. length (all_ancestors deser (mem w)))) (\<lambda>n_ancestors.
       asserts (n_ancestors = 1)))))))))))"

definition test_relrc_with_parents_serialization ::
  "allocator \<Rightarrow> ('k::linorder, 's) slotmap_ops \<Rightarrow> ('k, 's) slotmap_printer \<Rightarrow> (unit, string, string, 'k, 's) action" where
  "test_relrc_with_parents_serialization al ops pr =
     bind_b (relrc_new_b al ''parent'') (\<lambda>parent.
     bind_b (with_parents_b al ''child'' [(parent, ''edge_to_child'')]) (\<lambda>child.
     bind_b (with_parents_b al ''grandchild'' [(child, ''edge_to_grandchild'')]) (\<lambda>grandchild.
     bind_b (rc_registry_b al (registry_new ops)) (\<lambda>r.
     bind_b (fueled (relrc_to_serialized_b ops grandchild r)) (\<lambda>serialized.
     bind_b (assert_snapshot (print_relrc pr Str Str serialized) snap_relrc_with_parents_serialization) (\<lambda>_.
     bind_b (fueled (relrc_from_serialized_b al ops serialized)) (\<lambda>deser.
     bind_b (relrc_values [deser]) (\<lambda>vs. bind_b (asserts (vs = [Some ''grandchild''])) (\<lambda>_.
     bind_b (reads (\<lambda>w. all_parents deser (mem w))) (\<lambda>ps. bind_b (relrc_values ps) (\<lambda>pvs.
     bind_b (asserts (pvs = [Some ''child''])) (\<lambda>_.
     bind_b (reads (\<lambda>w. length (all_ancestors deser (mem w)))) (\<lambda>n_ancestors.
       asserts (n_ancestors = 3))))))))))))))"

definition test_relrc_with_multiple_parents_serialization ::
  "allocator \<Rightarrow> ('k::linorder, 's) slotmap_ops \<Rightarrow> ('k, 's) slotmap_printer \<Rightarrow> (unit, string, string, 'k, 's) action" where
  "test_relrc_with_multiple_parents_serialization al ops pr =
     bind_b (relrc_new_b al ''parent1'') (\<lambda>parent1.
     bind_b (relrc_new_b al ''parent2'') (\<lambda>parent2.
     bind_b (relrc_clone_b parent1) (\<lambda>p1. bind_b (relrc_clone_b parent2) (\<lambda>p2.
     bind_b (with_parents_b al ''child'' [(p1, ''edge_from_parent1''), (p2, ''edge_from_parent2'')]) (\<lambda>child.
     bind_b (relrc_clone_b parent1) (\<lambda>p3.
     bind_b (with_parents_b al ''sibling'' [(p3, ''edge_from_parent1'')]) (\<lambda>sibling.
     bind_b (plain (\<lambda>w. case registry_from_iter ops [parent1, parent2, sibling, child] (mem w) of
       (R, h) \<Rightarrow> (R, w\<lparr>mem := h\<rparr>))) (\<lambda>R.
     bind_b (rc_registry_b al R) (\<lambda>r.
     bind_b (fueled (relrc_to_serialized_b ops child r)) (\<lambda>serialized.
     bind_b (asserts (card (shg_nodes (ancestors_graph serialized)) = 3)) (\<lambda>_.
     bind_b (assert_snapshot (print_relrc pr Str Str serialized) snap_relrc_with_multiple_parents_serialization) (\<lambda>_.
     bind_b (fueled (relrc_from_serialized_b al ops serialized)) (\<lambda>deser.
     bind_b (relrc_values [deser]) (\<lambda>vs. bind_b (asserts (vs = [Some ''child''])) (\<lambda>_.
     bind_b (reads (\<lambda>w. all_parents deser (mem w))) (\<lambda>ps. bind_b (relrc_values ps) (\<lambda>pvs.
     bind_b (asserts (pvs = [Some ''parent1'', Some ''parent2''])) (\<lambda>_.
     bind_b (all_children_b deser) (\<lambda>cs. bind_b (asserts (length cs = 0)) (\<lambda>_.
     bind_b (reads (\<lambda>w. length (all_ancestors deser (mem w)))) (\<lambda>n_ancestors.
       asserts (n_ancestors = 3))))))))))))))))))))))"

text \<open>
  The ids that the registry of a graph gives to nodes. The source holds the borrows to the end of the
  statement; they are shared, so that each may be released at once.
\<close>

fun unwrap_ids :: "'k HistoryGraph \<Rightarrow> RelRc list \<Rightarrow> ('k list, 'n, 'e, 'k, 's) action" where
  "unwrap_ids g [] = return_b []"
| "unwrap_ids g (a # as) =
     bind_b (hg_get_id_b g a) (\<lambda>found. bind_b (unwrap_b found) (\<lambda>k.
     bind_b (unwrap_ids g as) (\<lambda>ks. return_b (k # ks))))"

definition hg_registry_len_b :: "('k, 's) slotmap_ops \<Rightarrow> 'k HistoryGraph \<Rightarrow> (nat option, 'n, 'e, 'k, 's) action" where
  "hg_registry_len_b ops g =
     with_ref (RegistryCell (hg_registry g)) (reads (\<lambda>w. map_option (registry_len ops) (deref (regs w) (hg_registry g))))"

text \<open>
  \<open>graph.clone()\<close> is converted and dropped, so that the graph itself stays. The file of the second snapshot
  is not in the repository; \<open>file2\<close> stands for what it would say.
\<close>

definition history_clone_into_b ::
  "('k::linorder, 's) slotmap_ops \<Rightarrow> 'k HistoryGraph \<Rightarrow> (('n, 'e, 'k, 's) SerializedHistoryGraph, 'n, 'e, 'k, 's) action" where
  "history_clone_into_b ops g =
     bind_b (plain (history_clone g)) (\<lambda>g'.
     bind_b (history_to_serialized_b ops g') (\<lambda>s. bind_b (history_drop_b ops g') (\<lambda>_. return_b s)))"

definition test_history_graph_serialization2 ::
  "allocator \<Rightarrow> ('k::linorder, 's) slotmap_ops \<Rightarrow> ('k, 's) slotmap_printer \<Rightarrow> yaml \<Rightarrow>
   (unit, string, string, 'k, 's) action" where
  "test_history_graph_serialization2 al ops pr file2 =
     bind_b (relrc_new_b al ''root1'') (\<lambda>root1.
     bind_b (relrc_new_b al ''root2'') (\<lambda>root2.
     bind_b (relrc_clone_b root1) (\<lambda>r1. bind_b (with_parents_b al ''child1'' [(r1, ''edge1'')]) (\<lambda>child1.
     bind_b (relrc_clone_b root1) (\<lambda>r2. bind_b (relrc_clone_b root2) (\<lambda>r3.
     bind_b (with_parents_b al ''child2'' [(r2, ''edge2''), (r3, ''edge3'')]) (\<lambda>child2.
     bind_b (relrc_clone_b child1) (\<lambda>c1. bind_b (relrc_clone_b child2) (\<lambda>c2.
     bind_b (history_from_nodes_b al ops [c1, c2]) (\<lambda>graph.
     bind_b (history_clone_into_b ops graph) (\<lambda>serialized.
     bind_b (assert_snapshot (print_graph pr Str Str serialized) snap_two_parents_two_children) (\<lambda>_.
     bind_b (fueled (history_from_serialized_b al ops serialized)) (\<lambda>deser.
     bind_b (unwrap_ids deser [child1, child2]) (\<lambda>ids.
     bind_b (asserts (set (all_node_ids deser) = set ids)) (\<lambda>_.
     bind_b (hg_registry_len_b ops deser) (\<lambda>len. bind_b (asserts (len = Some 4)) (\<lambda>_.
     bind_b (relrc_clone_b child1) (\<lambda>c3.
     bind_b (history_from_nodes_b al ops [c3]) (\<lambda>graph2.
     bind_b (history_clone_into_b ops graph2) (\<lambda>serialized2.
     bind_b (assert_snapshot (print_graph pr Str Str serialized2) file2) (\<lambda>_.
     bind_b (fueled (history_from_serialized_b al ops serialized2)) (\<lambda>deser2.
     bind_b (unwrap_ids deser2 [child1]) (\<lambda>ids2.
     bind_b (asserts (set (all_node_ids deser2) = set ids2)) (\<lambda>_.
     bind_b (hg_registry_len_b ops deser2) (\<lambda>len2.
       asserts (len2 = Some 2))))))))))))))))))))))))))"

subsection \<open>Detached objects\<close>

definition child_count :: "('k, 's) slotmap_ops \<Rightarrow> RelRc \<Rightarrow> (nat, 'n, 'e, 'k, 's) action" where
  "child_count ops a =
     bind_b (all_children_b a) (\<lambda>cs. bind_b (drop_tasks_b ops (map DropRelRc cs)) (\<lambda>_. return_b (length cs)))"

text \<open>\<open>attach\<close> and \<open>detach\<close> are those of \<open>Detached\<close>, without borrow flags: the module is not compiled in.\<close>

definition attach_act ::
  "allocator \<Rightarrow> ('k, 's) slotmap_ops \<Rightarrow> ('n, 'e, 'h::linorder) hash_fun \<Rightarrow> ('n, 'e, 'h) Detached \<Rightarrow> RelRc list \<Rightarrow>
   (RelRc, 'n, 'e, 'k, 's) action" where
  "attach_act al ops hash_id det objs =
     fueled (\<lambda>(F, w). map_option (map_sum id (\<lambda>(a, w'). (a, F, w'))) (attach al ops hash_id det objs w))"

definition test_detach_and_attach_diamond ::
  "allocator \<Rightarrow> ('k, 's) slotmap_ops \<Rightarrow> (string, string, 'h::linorder) hash_fun \<Rightarrow> (unit, string, string, 'k, 's) action" where
  "test_detach_and_attach_diamond al ops hash_id =
     bind_b (relrc_new_b al ''A'') (\<lambda>root1.
     bind_b (relrc_clone_b root1) (\<lambda>r1. bind_b (with_parents_b al ''B'' [(r1, ''left'')]) (\<lambda>left_child1.
     bind_b (relrc_clone_b root1) (\<lambda>r2. bind_b (with_parents_b al ''C'' [(r2, ''right'')]) (\<lambda>right_child1.
     bind_b (relrc_clone_b left_child1) (\<lambda>l1. bind_b (relrc_clone_b right_child1) (\<lambda>c1.
     bind_b (with_parents_b al ''D'' [(l1, ''left''), (c1, ''right'')]) (\<lambda>grandchild1.
     bind_b (relrc_new_b al ''A'') (\<lambda>root2.
     bind_b (relrc_clone_b root2) (\<lambda>r3. bind_b (with_parents_b al ''B'' [(r3, ''left'')]) (\<lambda>left_child2.
     bind_b (reads (\<lambda>w. detach hash_id grandchild1 {hash_id root1 (mem w), hash_id left_child1 (mem w)} (mem w))) (\<lambda>detached.
     bind_b (asserts (length (all_data detached) = 2)) (\<lambda>_.
     bind_b (relrc_drop_b ops grandchild1) (\<lambda>_.
     bind_b (child_count ops left_child1) (\<lambda>n1. bind_b (asserts (n1 = 0)) (\<lambda>_.
     bind_b (child_count ops right_child1) (\<lambda>n2. bind_b (asserts (n2 = 0)) (\<lambda>_.
     bind_b (relrc_clone_b root2) (\<lambda>r4. bind_b (relrc_clone_b left_child2) (\<lambda>l2.
     bind_b (attach_act al ops hash_id detached [r4, l2]) (\<lambda>grandchild2.
     bind_b (relrc_values [grandchild2]) (\<lambda>vs. bind_b (asserts (vs = [Some ''D''])) (\<lambda>_.
     bind_b (reads (\<lambda>w. all_parents grandchild2 (mem w))) (\<lambda>ps. bind_b (relrc_values ps) (\<lambda>pvs.
     bind_b (asserts (pvs = [Some ''B'', Some ''C''])) (\<lambda>_.
     bind_b (child_count ops root2) (\<lambda>n3. bind_b (asserts (n3 = 2)) (\<lambda>_.
     bind_b (reads (\<lambda>w. detach hash_id grandchild2 {hash_id root2 (mem w), hash_id left_child2 (mem w)} (mem w))) (\<lambda>detached2.
       asserts (detached = detached2))))))))))))))))))))))))))))))"

text \<open>A hash that depends on a node's value only.\<close>

definition value_hash :: "(string, string, nat) hash_fun" where
  "value_hash a h = (case value_at a h of Some [c] \<Rightarrow> of_char c | _ \<Rightarrow> 0)"

subsection \<open>Resolvers\<close>

definition test_resolver_equivalence :: "unit res" where
  "test_resolver_equivalence =
     (let resolver = TestResolver; a_value = (1, 2); b_value = (1, 3); c_value = (2, 2);
          result = try_merge_mapping resolver a_value [] b_value []
      in assert (case result of Inl _ \<Rightarrow> False | Inr _ \<Rightarrow> True)
        (and_then (case result of Inl _ \<Rightarrow> Inl Unwrap | Inr m \<Rightarrow> Inr m) (\<lambda>m.
           assert (m = 3)
           (assert (case try_merge_mapping resolver a_value [] c_value [] of Inl _ \<Rightarrow> True | Inr _ \<Rightarrow> False)
             (Inr ())))))"

definition test_resolver_edge_update :: "unit res" where
  "test_resolver_edge_update =
     (let resolver = TestResolver; mapping = 5; edge = 10
      in assert (move_edge_source resolver mapping edge = 5) (Inr ()))"

end
