(* ===== verification/Mpi_Messages.thy ===== *)
theory Mpi_Messages
  imports Detached "HOL-Library.Word"
begin

section \<open>Messages (\<open>src/src/detached/mpi/msg_types.rs\<close>, \<open>src/src/detached/mpi/send_recv.rs\<close>)\<close>

text \<open>
  The messages of the transfer protocol and how they are put on the wire. A packet has the integer
  tag and a buffer of one of the three element types the code registers with MPI: machine words
  (\<open>MPIRelRc\<close>, \<open>MPIIncomingEdge\<close> and \<open>MPIAck\<close> are transparent wrappers of a \<open>usize\<close>), node
  values and edge values. The conversions between hashes and machine words belong to the module of
  the hashes, which is not in the repository: they are the parameters \<open>to_usize\<close> and \<open>of_usize\<close>.
  The MPI library is a parameter too, the record \<open>mpi_process\<close> of the operations the code calls on
  the other process, with the laws of the locale \<open>mpi_library\<close>.
\<close>

type_synonym usize = "64 word"

datatype ('n, 'e, 'h) MPIMessage =
    MsgRelRc 'h | NodeWeight 'n | IncomingEdge "'h list" | EdgeWeight 'e | RequestRelRc 'h | Done

datatype MPIMessageTag = TagRelRc | TagNodeWeight | TagIncomingEdge | TagEdgeWeight | TagAck

fun tag :: "('n, 'e, 'h) MPIMessage \<Rightarrow> MPIMessageTag" where
  "tag (MsgRelRc _) = TagRelRc"
| "tag (NodeWeight _) = TagNodeWeight"
| "tag (IncomingEdge _) = TagIncomingEdge"
| "tag (EdgeWeight _) = TagEdgeWeight"
| "tag (RequestRelRc _) = TagAck"
| "tag Done = TagAck"

fun tag_as_i32 :: "MPIMessageTag \<Rightarrow> int" where
  "tag_as_i32 TagRelRc = 0"
| "tag_as_i32 TagNodeWeight = 1"
| "tag_as_i32 TagIncomingEdge = 2"
| "tag_as_i32 TagEdgeWeight = 3"
| "tag_as_i32 TagAck = 100"

definition tag_try_from :: "int \<Rightarrow> MPIMessageTag option" where
  "tag_try_from v =
     (if v = 0 then Some TagRelRc
      else if v = 1 then Some TagNodeWeight
      else if v = 2 then Some TagIncomingEdge
      else if v = 3 then Some TagEdgeWeight
      else if v = 100 then Some TagAck
      else None)"

record MPIRelRc =
  relrc_hash :: usize

record MPIIncomingEdge =
  source_hash :: usize

record MPIAck =
  ack_hash :: usize

definition relrc_into_message :: "(usize \<Rightarrow> 'h) \<Rightarrow> MPIRelRc \<Rightarrow> ('n, 'e, 'h) MPIMessage" where
  "relrc_into_message of_usize m = MsgRelRc (of_usize (relrc_hash m))"

definition edges_into_message :: "(usize \<Rightarrow> 'h) \<Rightarrow> MPIIncomingEdge list \<Rightarrow> ('n, 'e, 'h) MPIMessage" where
  "edges_into_message of_usize ms = IncomingEdge (map (\<lambda>e. of_usize (source_hash e)) ms)"

definition ack_into_message :: "(usize \<Rightarrow> 'h) \<Rightarrow> MPIAck \<Rightarrow> ('n, 'e, 'h) MPIMessage" where
  "ack_into_message of_usize m =
     (if ack_hash m = 0 then Done else RequestRelRc (of_usize (ack_hash m)))"

definition relrc_hash_from :: "(usize \<Rightarrow> 'h) \<Rightarrow> MPIRelRc \<Rightarrow> 'h" where
  "relrc_hash_from of_usize m = of_usize (relrc_hash m)"

text \<open>
  The element types of buffers that the code registers with MPI (\<open>Equivalence\<close>): the three wrappers
  are sent as the \<open>usize\<close> that they wrap.
\<close>

datatype mpi_datatype = UsizeDatatype | NodeDatatype | EdgeDatatype

definition MPIRelRc_datatype :: mpi_datatype where
  "MPIRelRc_datatype = UsizeDatatype"

definition MPIIncomingEdge_datatype :: mpi_datatype where
  "MPIIncomingEdge_datatype = UsizeDatatype"

definition MPIAck_datatype :: mpi_datatype where
  "MPIAck_datatype = UsizeDatatype"

subsection \<open>Sending\<close>

datatype ('n, 'e) buffer = WordBuf "usize list" | NodeBuf 'n | EdgeBuf 'e

fun buffer_datatype :: "('n, 'e) buffer \<Rightarrow> mpi_datatype" where
  "buffer_datatype (WordBuf _) = UsizeDatatype"
| "buffer_datatype (NodeBuf _) = NodeDatatype"
| "buffer_datatype (EdgeBuf _) = EdgeDatatype"

fun buffer_count :: "('n, 'e) buffer \<Rightarrow> nat" where
  "buffer_count (WordBuf xs) = length xs"
| "buffer_count (NodeBuf _) = 1"
| "buffer_count (EdgeBuf _) = 1"

type_synonym ('n, 'e) packet = "int \<times> ('n, 'e) buffer"

fun send_match :: "('h \<Rightarrow> usize) \<Rightarrow> ('n, 'e, 'h) MPIMessage \<Rightarrow> ('n, 'e) buffer" where
  "send_match to_usize (MsgRelRc i) = WordBuf [relrc_hash \<lparr>relrc_hash = to_usize i\<rparr>]"
| "send_match to_usize (NodeWeight v) = NodeBuf v"
| "send_match to_usize (IncomingEdge is) = WordBuf (map (\<lambda>i. source_hash \<lparr>source_hash = to_usize i\<rparr>) is)"
| "send_match to_usize (EdgeWeight v) = EdgeBuf v"
| "send_match to_usize (RequestRelRc i) = WordBuf [ack_hash \<lparr>ack_hash = to_usize i\<rparr>]"
| "send_match to_usize Done = WordBuf [ack_hash \<lparr>ack_hash = 0\<rparr>]"

text \<open>
  The operations of the MPI library on a channel, whose state has some type \<open>'q\<close>. A probe for a tag
  takes a message with the tag off the channel; \<open>None\<close> is that there is none yet, so that the
  blocking probe waits and the immediate one returns nothing.
\<close>

record ('n, 'e, 'q) mpi_process =
  send_with_tag :: "('n, 'e) buffer \<Rightarrow> int \<Rightarrow> 'q \<Rightarrow> 'q"
  buffered_send_with_tag :: "('n, 'e) buffer \<Rightarrow> int \<Rightarrow> 'q \<Rightarrow> 'q"
  matched_probe_with_tag :: "int \<Rightarrow> 'q \<Rightarrow> (('n, 'e) packet \<times> 'q) option"
  immediate_matched_probe_with_tag :: "int \<Rightarrow> 'q \<Rightarrow> (('n, 'e) packet \<times> 'q) option"

text \<open>The three implementations of the trait \<open>MPISendRecv\<close> differ in the operations they use.\<close>

record ('n, 'e, 'q) MPISendRecv =
  send_fn :: "('n, 'e) buffer \<Rightarrow> int \<Rightarrow> 'q \<Rightarrow> 'q"
  probe_fn :: "int \<Rightarrow> 'q \<Rightarrow> (('n, 'e) packet \<times> 'q) option"

definition MPIStandardSendRecv :: "('n, 'e, 'q) mpi_process \<Rightarrow> ('n, 'e, 'q) MPISendRecv" where
  "MPIStandardSendRecv P = \<lparr>send_fn = send_with_tag P, probe_fn = matched_probe_with_tag P\<rparr>"

definition MPIBufferedSendRecv :: "('n, 'e, 'q) mpi_process \<Rightarrow> ('n, 'e, 'q) MPISendRecv" where
  "MPIBufferedSendRecv P = \<lparr>send_fn = buffered_send_with_tag P, probe_fn = matched_probe_with_tag P\<rparr>"

definition MPIAsyncSendRecv :: "('n, 'e, 'q) mpi_process \<Rightarrow> ('n, 'e, 'q) MPISendRecv" where
  "MPIAsyncSendRecv P = \<lparr>send_fn = send_with_tag P, probe_fn = immediate_matched_probe_with_tag P\<rparr>"

definition send ::
  "('n, 'e, 'q) MPISendRecv \<Rightarrow> ('h \<Rightarrow> usize) \<Rightarrow> ('n, 'e, 'h) MPIMessage \<Rightarrow> 'q \<Rightarrow> 'q" where
  "send sr to_usize msg q = send_fn sr (send_match to_usize msg) (tag_as_i32 (tag msg)) q"

subsection \<open>Receiving\<close>

text \<open>
  \<open>extract_message\<close> reads the buffer at the type of the tag. Reading a buffer of another type is an
  error of the MPI library; the model makes it a panic of its own, which never happens to packets
  that \<open>send\<close> made.
\<close>

definition datatype_mismatch :: panic where
  "datatype_mismatch = Explicit ''MPI datatype mismatch''"

definition extract_message :: "(usize \<Rightarrow> 'h) \<Rightarrow> ('n, 'e) packet \<Rightarrow> ('n, 'e, 'h) MPIMessage res" where
  "extract_message of_usize p =
     and_then (expect ''invalid message tag'' (tag_try_from (fst p))) (\<lambda>t.
       (case (t, snd p) of
          (TagRelRc, WordBuf [x]) \<Rightarrow> Inr (relrc_into_message of_usize \<lparr>relrc_hash = x\<rparr>)
        | (TagNodeWeight, NodeBuf v) \<Rightarrow> Inr (NodeWeight v)
        | (TagIncomingEdge, WordBuf xs) \<Rightarrow> Inr (edges_into_message of_usize (map (\<lambda>x. \<lparr>source_hash = x\<rparr>) xs))
        | (TagEdgeWeight, EdgeBuf v) \<Rightarrow> Inr (EdgeWeight v)
        | (TagAck, WordBuf [x]) \<Rightarrow> Inr (ack_into_message of_usize \<lparr>ack_hash = x\<rparr>)
        | _ \<Rightarrow> Inl datatype_mismatch))"

text \<open>\<open>None\<close>: the message is not there yet, and the caller waits.\<close>

definition receive ::
  "('n, 'e, 'q) MPISendRecv \<Rightarrow> (usize \<Rightarrow> 'h) \<Rightarrow> MPIMessageTag \<Rightarrow> 'q \<Rightarrow> (('n, 'e, 'h) MPIMessage res \<times> 'q) option" where
  "receive sr of_usize t q =
     (case probe_fn sr (tag_as_i32 t) q of
        None \<Rightarrow> None
      | Some (p, q') \<Rightarrow> Some (extract_message of_usize p, q'))"

text \<open>A poll of the future that the asynchronous implementation of \<open>receive\<close> returns.\<close>

datatype ('n, 'e, 'h) poll = Ready "('n, 'e, 'h) MPIMessage res" | Pending

definition poll_receive ::
  "('n, 'e, 'q) mpi_process \<Rightarrow> (usize \<Rightarrow> 'h) \<Rightarrow> MPIMessageTag \<Rightarrow> 'q \<Rightarrow> ('n, 'e, 'h) poll \<times> 'q" where
  "poll_receive P of_usize t q =
     (case immediate_matched_probe_with_tag P (tag_as_i32 t) q of
        Some (p, q') \<Rightarrow> (Ready (extract_message of_usize p), q')
      | None \<Rightarrow> (Pending, q))"

lemma poll_receive_async:
  "poll_receive P of_usize t q =
     (case receive (MPIAsyncSendRecv P) of_usize t q of None \<Rightarrow> (Pending, q) | Some (r, q') \<Rightarrow> (Ready r, q'))"
  by (simp add: poll_receive_def receive_def MPIAsyncSendRecv_def split: option.split prod.split)

subsection \<open>Laws of the MPI library\<close>

text \<open>
  A channel holds the packets under way, oldest first. Sending appends one, and a probe matches the
  oldest packet with the tag: messages of the same tag do not overtake each other.
\<close>

fun first_match :: "int \<Rightarrow> ('n, 'e) packet list \<Rightarrow> (('n, 'e) packet \<times> ('n, 'e) packet list) option" where
  "first_match t [] = None"
| "first_match t (p # q) =
     (if fst p = t then Some (p, q)
      else (case first_match t q of None \<Rightarrow> None | Some (m, q') \<Rightarrow> Some (m, p # q')))"

lemma first_match_skip:
  "(\<forall>p\<in>set q0. fst p \<noteq> t) \<Longrightarrow> first_match t (q0 @ (t, b) # q) = Some ((t, b), q0 @ q)"
  by (induction q0) auto

locale mpi_receiver =
  fixes sr :: "('n, 'e, 'q) MPISendRecv" and packets :: "'q \<Rightarrow> ('n, 'e) packet list"
  assumes probe_packets: "map_option (map_prod id packets) (probe_fn sr t q) = first_match t (packets q)"

locale mpi_channel = mpi_receiver sr packets
  for sr :: "('n, 'e, 'q) MPISendRecv" and packets :: "'q \<Rightarrow> ('n, 'e) packet list" +
  assumes send_packets: "packets (send_fn sr b t q) = packets q @ [(t, b)]"

locale mpi_library =
  fixes P :: "('n, 'e, 'q) mpi_process" and packets :: "'q \<Rightarrow> ('n, 'e) packet list"
  assumes send: "packets (send_with_tag P b t q) = packets q @ [(t, b)]"
    and buffered: "packets (buffered_send_with_tag P b t q) = packets q @ [(t, b)]"
    and probe: "map_option (map_prod id packets) (matched_probe_with_tag P t q) = first_match t (packets q)"
    and immediate: "map_option (map_prod id packets) (immediate_matched_probe_with_tag P t q) = first_match t (packets q)"

sublocale mpi_library \<subseteq> std: mpi_channel "MPIStandardSendRecv P"
  by unfold_locales (simp_all add: MPIStandardSendRecv_def send probe)

sublocale mpi_library \<subseteq> buf: mpi_channel "MPIBufferedSendRecv P"
  by unfold_locales (simp_all add: MPIBufferedSendRecv_def buffered probe)

sublocale mpi_library \<subseteq> async: mpi_channel "MPIAsyncSendRecv P"
  by unfold_locales (simp_all add: MPIAsyncSendRecv_def send immediate)

text \<open>
  A library with a buffer for \<open>room\<close> packets in each direction. A send is only known to append the packet while there is
  room for it; of a send into a full buffer nothing is known (it may block, lose the packet, or be an error). The
  libraries above are those with as much room as one likes.
\<close>

locale mpi_room = mpi_receiver sr packets
  for sr :: "('n, 'e, 'q) MPISendRecv" and packets :: "'q \<Rightarrow> ('n, 'e) packet list" +
  fixes room :: nat
  assumes send_room: "length (packets q) < room \<Longrightarrow> packets (send_fn sr b t q) = packets q @ [(t, b)]"

sublocale mpi_channel \<subseteq> room: mpi_room sr packets room for room
  by unfold_locales (rule send_packets)

locale mpi_bounded =
  fixes P :: "('n, 'e, 'q) mpi_process" and packets :: "'q \<Rightarrow> ('n, 'e) packet list" and room :: nat
  assumes send_b: "length (packets q) < room \<Longrightarrow> packets (send_with_tag P b t q) = packets q @ [(t, b)]"
    and buffered_b: "length (packets q) < room \<Longrightarrow> packets (buffered_send_with_tag P b t q) = packets q @ [(t, b)]"
    and probe_b: "map_option (map_prod id packets) (matched_probe_with_tag P t q) = first_match t (packets q)"
    and immediate_b: "map_option (map_prod id packets) (immediate_matched_probe_with_tag P t q) = first_match t (packets q)"

sublocale mpi_bounded \<subseteq> std: mpi_room "MPIStandardSendRecv P"
  by unfold_locales (simp_all add: MPIStandardSendRecv_def send_b probe_b)

sublocale mpi_bounded \<subseteq> buf: mpi_room "MPIBufferedSendRecv P"
  by unfold_locales (simp_all add: MPIBufferedSendRecv_def buffered_b probe_b)

sublocale mpi_bounded \<subseteq> async: mpi_room "MPIAsyncSendRecv P"
  by unfold_locales (simp_all add: MPIAsyncSendRecv_def send_b immediate_b)

sublocale mpi_library \<subseteq> bounded: mpi_bounded P packets room for room
  by unfold_locales (simp_all add: send buffered probe immediate)

text \<open>The library whose channels are lists of packets.\<close>

definition list_process :: "('n, 'e, ('n, 'e) packet list) mpi_process" where
  "list_process = \<lparr>send_with_tag = (\<lambda>b t q. q @ [(t, b)]), buffered_send_with_tag = (\<lambda>b t q. q @ [(t, b)]),
     matched_probe_with_tag = first_match, immediate_matched_probe_with_tag = first_match\<rparr>"

interpretation list_lib: mpi_library list_process id
  by unfold_locales (simp_all add: list_process_def prod.map_id0 option.map_id)

text \<open>A library that drops what does not fit into its buffer.\<close>

definition bounded_process :: "nat \<Rightarrow> ('n, 'e, ('n, 'e) packet list) mpi_process" where
  "bounded_process room = \<lparr>send_with_tag = (\<lambda>b t q. if length q < room then q @ [(t, b)] else q),
     buffered_send_with_tag = (\<lambda>b t q. if length q < room then q @ [(t, b)] else q),
     matched_probe_with_tag = first_match, immediate_matched_probe_with_tag = first_match\<rparr>"

interpretation bounded_lib: mpi_bounded "bounded_process room" id room for room
  by unfold_locales (simp_all add: bounded_process_def prod.map_id0 option.map_id)

abbreviation list_sr :: "('n, 'e, ('n, 'e) packet list) MPISendRecv" where
  "list_sr \<equiv> MPIStandardSendRecv list_process"

lemma list_send: "send list_sr to_usize m q = q @ [(tag_as_i32 (tag m), send_match to_usize m)]"
  by (simp add: send_def MPIStandardSendRecv_def list_process_def)

lemma list_receive: "receive list_sr of_usize t q =
    (case first_match (tag_as_i32 t) q of None \<Rightarrow> None | Some (p, q') \<Rightarrow> Some (extract_message of_usize p, q'))"
  by (simp add: receive_def MPIStandardSendRecv_def list_process_def)

text \<open>Every channel behaves as its list of packets.\<close>

context mpi_receiver
begin

lemma receive_abs: "receive list_sr of_usize t (packets q) = map_option (map_prod id packets) (receive sr of_usize t q)"
  by (simp add: receive_def [of sr] list_receive probe_packets [symmetric] option.map_comp comp_def split: option.split)

end

context mpi_channel
begin

lemma send_abs: "packets (send sr to_usize m q) = send list_sr to_usize m (packets q)"
  by (simp add: send_def [of sr] list_send send_packets)

end

subsection \<open>Round trip\<close>

lemma tag_round_trip: "tag_try_from (tag_as_i32 t) = Some t"
  by (cases t) (simp_all add: tag_try_from_def)

lemma tag_try_from_iff: "tag_try_from v = Some t \<longleftrightarrow> v = tag_as_i32 t"
  by (cases t) (auto simp: tag_try_from_def)

lemma tag_as_i32_inj: "tag_as_i32 t = tag_as_i32 t' \<longleftrightarrow> t = t'"
  by (metis tag_round_trip option.inject)

text \<open>What a receiver reads of a message: the message itself, except that a request for the hash 0 reads as \<open>Done\<close>.\<close>

definition sent_as :: "('h \<Rightarrow> usize) \<Rightarrow> ('n, 'e, 'h) MPIMessage \<Rightarrow> ('n, 'e, 'h) MPIMessage" where
  "sent_as to_usize m = (case m of RequestRelRc i \<Rightarrow> if to_usize i = 0 then Done else m | _ \<Rightarrow> m)"

lemma extract_sent:
  assumes "\<And>i. of_usize (to_usize i) = i"
  shows "extract_message of_usize (tag_as_i32 (tag m), send_match to_usize m) = Inr (sent_as to_usize m)"
  using assms by (cases m) (simp_all add: extract_message_def tag_round_trip relrc_into_message_def
      edges_into_message_def ack_into_message_def sent_as_def comp_def del: tag_as_i32.simps)

lemma receive_first:
  assumes "\<And>i. of_usize (to_usize i) = i" "tag m = t"
  shows "receive list_sr of_usize t ((tag_as_i32 t, send_match to_usize m) # q) = Some (Inr (sent_as to_usize m), q)"
  using extract_sent [OF assms(1), of m] assms(2) by (simp add: list_receive)

context mpi_channel
begin

lemma receive_sent:
  assumes "\<And>i. of_usize (to_usize i) = i" "packets q' = packets (send sr to_usize m q0) @ q" "\<forall>p\<in>set (packets q0). fst p \<noteq> tag_as_i32 (tag m)"
  shows "\<exists>q''. receive sr of_usize (tag m) q' = Some (Inr (sent_as to_usize m), q'') \<and> packets q'' = packets q0 @ q"
proof -
  have "receive list_sr of_usize (tag m) (packets q') = Some (Inr (sent_as to_usize m), packets q0 @ q)"
    using extract_sent [OF assms(1), of m]
    by (simp add: assms(2) send_abs list_send list_receive first_match_skip [OF assms(3)])
  then show ?thesis by (auto simp: receive_abs)
qed

end

end
