(* ===== verification/Mpi.thy ===== *)
theory Mpi
  imports Mpi_Messages
begin

section \<open>The transfer protocol (\<open>src/src/detached/mpi.rs\<close>)\<close>

text \<open>
  A sender and a receiver, connected by a channel in each direction. The sender sends one object
  and then serves requests until it is told that the receiver is done; the receiver requests one
  unknown ancestor after the other until it can attach the object. The two processes are state
  machines that take turns in any order; a process that waits for a message has no step. The
  functions take the implementation \<open>sr\<close> of \<open>MPISendRecv\<close> as a parameter, as in the source.
\<close>

datatype MPIMode = Standard | Buffered | Async

subsection \<open>One object\<close>

definition send_all ::
  "('n, 'e, 'q) MPISendRecv \<Rightarrow> ('h \<Rightarrow> usize) \<Rightarrow> ('n, 'e, 'h) MPIMessage list \<Rightarrow> 'q \<Rightarrow> 'q" where
  "send_all sr to_usize ms q = fold (send sr to_usize) ms q"

definition mpi_send ::
  "('n, 'e, 'q) MPISendRecv \<Rightarrow> ('h \<Rightarrow> usize) \<Rightarrow> (usize \<Rightarrow> 'h) \<Rightarrow> 'h \<Rightarrow> ('n, 'e, 'h) DetachedInnerData \<Rightarrow> 'q \<Rightarrow> 'q" where
  "mpi_send sr to_usize of_usize i d q =
     (let q0 = send sr to_usize (relrc_into_message of_usize \<lparr>relrc_hash = to_usize i\<rparr>) q;
          q1 = send sr to_usize (NodeWeight (det_value d)) q0;
          incoming_hashes = map fst (det_incoming d);
          incoming_values = map snd (det_incoming d);
          msgs = map (\<lambda>i. \<lparr>source_hash = to_usize i\<rparr>) incoming_hashes;
          q2 = send sr to_usize (edges_into_message of_usize msgs) q1
      in send_all sr to_usize (map EdgeWeight incoming_values) q2)"

text \<open>
  Receiving an object takes several messages. Waiting in the middle for a message and waiting
  before the first one until all are there give the same result, because packets with the same
  tag do not overtake each other: \<open>None\<close> is that a message is missing.
\<close>

fun recv_edge_weights ::
  "('n, 'e, 'q) MPISendRecv \<Rightarrow> (usize \<Rightarrow> 'h) \<Rightarrow> 'h list \<Rightarrow> 'q \<Rightarrow> (('h \<times> 'e) list res \<times> 'q) option" where
  "recv_edge_weights sr of_usize [] q = Some (Inr [], q)"
| "recv_edge_weights sr of_usize (src # is) q =
     (case receive sr of_usize TagEdgeWeight q of
        None \<Rightarrow> None
      | Some (Inl p, q1) \<Rightarrow> Some (Inl p, q1)
      | Some (Inr (EdgeWeight v), q1) \<Rightarrow>
          (case recv_edge_weights sr of_usize is q1 of
             None \<Rightarrow> None
           | Some (r, q2) \<Rightarrow> Some (and_then r (\<lambda>inc. Inr ((src, v) # inc)), q2))
      | Some (Inr _, q1) \<Rightarrow> Some (Inl (Explicit ''Expected edge weight message''), q1))"

definition mpi_recv ::
  "('n, 'e, 'q) MPISendRecv \<Rightarrow> (usize \<Rightarrow> 'h) \<Rightarrow> 'q \<Rightarrow>
   (('h \<times> ('n, 'e, 'h) DetachedInnerData) res \<times> 'q) option" where
  "mpi_recv sr of_usize q =
     (case receive sr of_usize TagRelRc q of
        None \<Rightarrow> None
      | Some (Inl p, q1) \<Rightarrow> Some (Inl p, q1)
      | Some (Inr (MsgRelRc i), q1) \<Rightarrow>
          (case receive sr of_usize TagNodeWeight q1 of
             None \<Rightarrow> None
           | Some (Inl p, q2) \<Rightarrow> Some (Inl p, q2)
           | Some (Inr (NodeWeight v), q2) \<Rightarrow>
               (case receive sr of_usize TagIncomingEdge q2 of
                  None \<Rightarrow> None
                | Some (Inl p, q3) \<Rightarrow> Some (Inl p, q3)
                | Some (Inr (IncomingEdge is), q3) \<Rightarrow>
                    (case recv_edge_weights sr of_usize is q3 of
                       None \<Rightarrow> None
                     | Some (r, q4) \<Rightarrow> Some (and_then r (\<lambda>inc. Inr (i, \<lparr>det_value = v, det_incoming = inc\<rparr>)), q4))
                | Some (Inr _, q3) \<Rightarrow> Some (Inl (Explicit ''Expected incoming edge message''), q3))
           | Some (Inr _, q2) \<Rightarrow> Some (Inl (Explicit ''Expected node weight message''), q2))
      | Some (Inr _, q1) \<Rightarrow> Some (Inl (Explicit ''Expected RelRc message''), q1))"

subsection \<open>The two processes\<close>

datatype snd_pc = SndStart | SndAwaitAck | SndFinished | SndPanicked panic
datatype rcv_pc = RcvLoop | RcvAwaitObject | RcvFinished | RcvPanicked panic

record ('n, 'e, 'h, 'q) mpi_state =
  snd_pc :: snd_pc
  rcv_pc :: rcv_pc
  rcv_det :: "('n, 'e, 'h) Detached option"
  to_rcv :: 'q
  to_snd :: 'q

definition mpi_init :: "'q \<Rightarrow> 'q \<Rightarrow> ('n, 'e, 'h, 'q) mpi_state" where
  "mpi_init q1 q2 = \<lparr>snd_pc = SndStart, rcv_pc = RcvLoop, rcv_det = None, to_rcv = q1, to_snd = q2\<rparr>"

text \<open>\<open>detached.all_data[&hash]\<close>: the data of a hash, or the panic of the index operator.\<close>

definition data_at :: "('n, 'e, 'h) Detached \<Rightarrow> 'h \<Rightarrow> ('n, 'e, 'h) DetachedInnerData res" where
  "data_at det i = expect ''no entry found for key'' (btree_get i (all_data det))"

definition send_object ::
  "('n, 'e, 'q) MPISendRecv \<Rightarrow> ('h \<Rightarrow> usize) \<Rightarrow> (usize \<Rightarrow> 'h) \<Rightarrow> ('n, 'e, 'h) Detached \<Rightarrow> 'h \<Rightarrow> ('n, 'e, 'h, 'q) mpi_state \<Rightarrow> ('n, 'e, 'h, 'q) mpi_state" where
  "send_object sr to_usize of_usize det i s =
     (case data_at det i of
        Inl p \<Rightarrow> s\<lparr>snd_pc := SndPanicked p\<rparr>
      | Inr d \<Rightarrow> s\<lparr>snd_pc := SndAwaitAck, to_rcv := mpi_send sr to_usize of_usize i d (to_rcv s)\<rparr>)"

text \<open>A step of \<open>send_relrc\<close>, where \<open>det\<close> is the detached object.\<close>

definition send_step ::
  "('n, 'e, 'q) MPISendRecv \<Rightarrow> ('h \<Rightarrow> usize) \<Rightarrow> (usize \<Rightarrow> 'h) \<Rightarrow> ('n, 'e, 'h) Detached \<Rightarrow> ('n, 'e, 'h, 'q) mpi_state \<Rightarrow> ('n, 'e, 'h, 'q) mpi_state option" where
  "send_step sr to_usize of_usize det s =
     (case snd_pc s of
        SndStart \<Rightarrow> Some (send_object sr to_usize of_usize det (current det) s)
      | SndAwaitAck \<Rightarrow>
          (case receive sr of_usize TagAck (to_snd s) of
             None \<Rightarrow> None
           | Some (Inl p, q) \<Rightarrow> Some (s\<lparr>snd_pc := SndPanicked p, to_snd := q\<rparr>)
           | Some (Inr Done, q) \<Rightarrow> Some (s\<lparr>snd_pc := SndFinished, to_snd := q\<rparr>)
           | Some (Inr (RequestRelRc i), q) \<Rightarrow> Some (send_object sr to_usize of_usize det i (s\<lparr>to_snd := q\<rparr>))
           | Some (Inr _, q) \<Rightarrow> Some (s\<lparr>snd_pc := SndPanicked (Explicit ''Received unexpected message''), to_snd := q\<rparr>))
      | _ \<Rightarrow> None)"

text \<open>
  A step of the loop of \<open>recv_relrc\<close>: the head of the loop (leave it with \<open>Done\<close>, or request the
  first unknown hash and wait), and the receipt of an object.
\<close>

definition loop_head ::
  "('n, 'e, 'q) MPISendRecv \<Rightarrow> ('h \<Rightarrow> usize) \<Rightarrow> ('h, RelRc) BTreeMap \<Rightarrow> ('n, 'e, 'h, 'q) mpi_state \<Rightarrow> ('n, 'e, 'h, 'q) mpi_state" where
  "loop_head sr to_usize attach_to s =
     (case rcv_det s of
        None \<Rightarrow> s\<lparr>rcv_pc := RcvAwaitObject\<rparr>
      | Some det \<Rightarrow>
          if attaches_to det attach_to then s\<lparr>rcv_pc := RcvFinished, to_snd := send sr to_usize Done (to_snd s)\<rparr>
          else
            (case find (\<lambda>i. \<not> btree_contains_key i attach_to) (required_hashes det) of
               None \<Rightarrow> s\<lparr>rcv_pc := RcvPanicked (Expect ''cannot attach but all required objects are known'')\<rparr>
             | Some i \<Rightarrow> s\<lparr>rcv_pc := RcvAwaitObject, to_snd := send sr to_usize (RequestRelRc i) (to_snd s)\<rparr>))"

definition recv_object :: "'h::linorder \<Rightarrow> ('n, 'e, 'h) DetachedInnerData \<Rightarrow> ('n, 'e, 'h) Detached option \<Rightarrow> ('n, 'e, 'h) Detached" where
  "recv_object i d x =
     (let det = (case x of None \<Rightarrow> Detached_empty i | Some det \<Rightarrow> det)
      in det\<lparr>all_data := snd (btree_insert i d (all_data det))\<rparr>)"

definition recv_step ::
  "('n, 'e, 'q) MPISendRecv \<Rightarrow> ('h::linorder \<Rightarrow> usize) \<Rightarrow> (usize \<Rightarrow> 'h) \<Rightarrow> ('h, RelRc) BTreeMap \<Rightarrow> ('n, 'e, 'h, 'q) mpi_state \<Rightarrow> ('n, 'e, 'h, 'q) mpi_state option" where
  "recv_step sr to_usize of_usize attach_to s =
     (case rcv_pc s of
        RcvLoop \<Rightarrow> Some (loop_head sr to_usize attach_to s)
      | RcvAwaitObject \<Rightarrow>
          (case mpi_recv sr of_usize (to_rcv s) of
             None \<Rightarrow> None
           | Some (Inl p, q) \<Rightarrow> Some (s\<lparr>rcv_pc := RcvPanicked p, to_rcv := q\<rparr>)
           | Some (Inr (i, d), q) \<Rightarrow> Some (s\<lparr>rcv_pc := RcvLoop, rcv_det := Some (recv_object i d (rcv_det s)), to_rcv := q\<rparr>))
      | _ \<Rightarrow> None)"

inductive mpi_step ::
  "('n, 'e, 'q) MPISendRecv \<Rightarrow> ('n, 'e, 'q) MPISendRecv \<Rightarrow> ('h::linorder \<Rightarrow> usize) \<Rightarrow> (usize \<Rightarrow> 'h) \<Rightarrow>
   ('n, 'e, 'h) Detached \<Rightarrow> ('h, RelRc) BTreeMap \<Rightarrow> ('n, 'e, 'h, 'q) mpi_state \<Rightarrow> ('n, 'e, 'h, 'q) mpi_state \<Rightarrow> bool"
  for dest src :: "('n, 'e, 'q) MPISendRecv" and to_usize :: "'h \<Rightarrow> usize" and of_usize
    and det :: "('n, 'e, 'h) Detached" and attach_to where
  sender: "send_step dest to_usize of_usize det s = Some s' \<Longrightarrow> mpi_step dest src to_usize of_usize det attach_to s s'"
| receiver: "recv_step src to_usize of_usize attach_to s = Some s' \<Longrightarrow> mpi_step dest src to_usize of_usize det attach_to s s'"

inductive_cases mpi_stepE: "mpi_step dest src to_usize of_usize det attach_to s s'"

subsection \<open>Entry points\<close>

text \<open>
  The mode chooses the implementation of \<open>MPISendRecv\<close>. \<open>send_relrc\<close> detaches the object from nothing,
  so that its detached form has all its ancestors. Sending does not support the asynchronous mode,
  and the blocking \<open>recv_relrc\<close> does not either. The blocking variants run the asynchronous ones to the end.
\<close>

definition send_relrc_async ::
  "('n, 'e, 'q) mpi_process \<Rightarrow> ('n, 'e, 'h::linorder) hash_fun \<Rightarrow> MPIMode \<Rightarrow> RelRc \<Rightarrow> ('n, 'e) node_heap \<Rightarrow>
   (('n, 'e, 'q) MPISendRecv \<times> ('n, 'e, 'h) Detached) res" where
  "send_relrc_async P hash_id mode relrc h =
     (case mode of
        Buffered \<Rightarrow> Inr (MPIBufferedSendRecv P, detach hash_id relrc {} h)
      | Standard \<Rightarrow> Inr (MPIStandardSendRecv P, detach hash_id relrc {} h)
      | Async \<Rightarrow> Inl (Explicit ''not implemented: Async mode not supported for sending. Use Standard or Buffered mode instead.''))"

definition send_relrc ::
  "('n, 'e, 'q) mpi_process \<Rightarrow> ('n, 'e, 'h::linorder) hash_fun \<Rightarrow> MPIMode \<Rightarrow> RelRc \<Rightarrow> ('n, 'e) node_heap \<Rightarrow>
   (('n, 'e, 'q) MPISendRecv \<times> ('n, 'e, 'h) Detached) res" where
  "send_relrc P hash_id mode relrc h = send_relrc_async P hash_id mode relrc h"

definition recv_relrc_async :: "('n, 'e, 'q) mpi_process \<Rightarrow> MPIMode \<Rightarrow> ('n, 'e, 'q) MPISendRecv" where
  "recv_relrc_async P mode =
     (case mode of
        Buffered \<Rightarrow> MPIBufferedSendRecv P
      | Standard \<Rightarrow> MPIStandardSendRecv P
      | Async \<Rightarrow> MPIAsyncSendRecv P)"

definition recv_relrc :: "('n, 'e, 'q) mpi_process \<Rightarrow> MPIMode \<Rightarrow> ('n, 'e, 'q) MPISendRecv res" where
  "recv_relrc P mode =
     (if mode = Async then Inl (Explicit ''Use recv_relrc_async instead of recv_relrc for async mode'')
      else Inr (recv_relrc_async P mode))"

text \<open>
  The beginning of \<open>recv_relrc\<close>: the objects to attach to are collected by hash. One that another with
  the same hash replaces is dropped.
\<close>

definition recv_start ::
  "('k, 's) slotmap_ops \<Rightarrow> ('n, 'e, 'h::linorder) hash_fun \<Rightarrow> RelRc list \<Rightarrow> ('n, 'e, 'k, 's) world \<Rightarrow>
   ('h, RelRc) BTreeMap \<times> ('n, 'e, 'k, 's) world" where
  "recv_start ops hash_id objs w =
     (let (dropped, attach_to) = btree_collect (map (\<lambda>r. (hash_id r (mem w), r)) objs) []
      in (attach_to, drop_all ops dropped w))"

text \<open>
  The end of \<open>recv_relrc\<close>: the objects to attach to are cloned into \<open>attach\<close>, and dropped after it.
\<close>

definition recv_finish ::
  "allocator \<Rightarrow> ('k, 's) slotmap_ops \<Rightarrow> ('n, 'e, 'h::linorder) hash_fun \<Rightarrow> ('n, 'e, 'h) Detached \<Rightarrow> ('h, RelRc) BTreeMap \<Rightarrow>
   ('n, 'e, 'k, 's) world \<Rightarrow> (RelRc \<times> ('n, 'e, 'k, 's) world) res option" where
  "recv_finish al ops hash_id det attach_to w =
     map_option (\<lambda>r. and_then r (\<lambda>(a, w'). Inr (a, drop_all ops (btree_values attach_to) w')))
       (attach al ops hash_id det (btree_values attach_to)
          (w\<lparr>mem := fold relrc_clone (btree_values attach_to) (mem w)\<rparr>))"

end
