(* ===== verification/Post_Order.thy ===== *)
theory Post_Order
  imports Detached
begin

section \<open>The traversal of \<open>attach\<close>\<close>

text \<open>
  \<open>post_order_for_each\<close> always ends when the successors come from a finite set. It is a post-order
  traversal when no vertex is the successor of two vertices (or twice of one): then every
  vertex is processed after its successors. Marking vertices when they are pushed rather than when
  they are entered makes it fail for shared successors.
\<close>

subsection \<open>Termination\<close>

fun is_enter :: "'v DfsEvent \<Rightarrow> bool" where
  "is_enter (DfsEnter v) = True"
| "is_enter (DfsExit v) = False"

definition event_cost :: "'v DfsEvent list \<Rightarrow> nat" where
  "event_cost s = length s + length (filter is_enter s)"

lemma event_cost_simps [simp]:
  "event_cost [] = 0" "event_cost (DfsEnter v # s) = 2 + event_cost s" "event_cost (DfsExit v # s) = 1 + event_cost s"
  by (simp_all add: event_cost_def)

lemma push_successors_cost:
  assumes "finite U"
  shows "push_successors visit us (s, vis) = (s', vis') \<Longrightarrow> set us \<subseteq> U \<Longrightarrow>
    event_cost s' + 2 * card (U - vis') = event_cost s + 2 * card (U - vis)"
proof (induction us arbitrary: s vis)
  case (Cons u us)
  show ?case
  proof (cases "visit u \<and> u \<notin> vis")
    case True
    with Cons.prems have "u \<in> U - vis" by simp
    then have "card (U - vis) = Suc (card (U - insert u vis))"
      using assms by (metis Diff_insert card.remove finite_Diff)
    with Cons True show ?thesis by simp
  next
    case False
    then have "push_successors visit us (s, vis) = (s', vis')" using Cons.prems(1) by (simp only: push_successors.simps if_False)
    from Cons.IH [OF this] Cons.prems(2) show ?thesis by simp
  qed
qed simp

lemma post_order_loop_ends:
  assumes fin: "finite U" and succ: "\<And>v us. successors v = Inr us \<Longrightarrow> set us \<subseteq> U"
  shows "event_cost s + 2 * card (U - vis) < n \<Longrightarrow> post_order_loop n f successors visit s vis st \<noteq> None"
proof (induction n arbitrary: s vis st)
  case (Suc n)
  show ?case
  proof (cases s)
    case (Cons e s1)
    show ?thesis
    proof (cases e)
      case (DfsEnter v)
      show ?thesis
      proof (cases "successors v")
        case (Inr us)
        obtain s' vis' where push: "push_successors visit us (DfsExit v # s1, vis) = (s', vis')" by fastforce
        from push_successors_cost [OF fin push succ [OF Inr]] Suc.prems have "event_cost s' + 2 * card (U - vis') < n"
          by (simp add: Cons DfsEnter)
        from Suc.IH [OF this] show ?thesis by (simp add: Cons DfsEnter Inr push)
      qed (simp add: Cons DfsEnter)
    next
      case (DfsExit v)
      show ?thesis
      proof (cases "f v st")
        case (Inr st')
        from Suc.IH [of s1 vis st'] Suc.prems show ?thesis by (simp add: Cons DfsExit Inr)
      qed (simp add: Cons DfsExit)
    qed
  qed simp
qed simp

subsection \<open>Post-order on forests\<close>

lemma push_successors_fresh:
  "distinct (filter visit us) \<Longrightarrow> \<forall>u\<in>set us. visit u \<longrightarrow> u \<notin> vis \<Longrightarrow>
   push_successors visit us (s, vis) = (map DfsEnter (rev (filter visit us)) @ s, set (filter visit us) \<union> vis)"
proof (induction us arbitrary: s vis)
  case (Cons u us)
  show ?case
  proof (cases "visit u")
    case True
    with Cons.prems have "\<forall>u'\<in>set us. visit u' \<longrightarrow> u' \<notin> insert u vis" by auto
    from Cons.IH [OF _ this] Cons.prems True show ?thesis by auto
  qed (use Cons in auto)
qed simp

text \<open>
  The invariant of the loop: \<open>entered\<close> and \<open>fin\<close> are the vertices entered and processed so far.
  \<open>ordered\<close>: every successor of a vertex that waits to be processed is processed or above it on
  the stack.
\<close>

fun ordered :: "('v \<Rightarrow> 'v list) \<Rightarrow> ('v \<Rightarrow> bool) \<Rightarrow> 'v set \<Rightarrow> 'v DfsEvent list \<Rightarrow> bool" where
  "ordered succ visit A [] \<longleftrightarrow> True"
| "ordered succ visit A (DfsEnter v # s) \<longleftrightarrow> ordered succ visit (insert v A) s"
| "ordered succ visit A (DfsExit v # s) \<longleftrightarrow>
     (\<forall>u\<in>set (succ v). visit u \<longrightarrow> u \<in> A) \<and> ordered succ visit (insert v A) s"

lemma ordered_mono: "ordered succ visit A s \<Longrightarrow> A \<subseteq> B \<Longrightarrow> ordered succ visit B s"
proof (induction succ visit A s arbitrary: B rule: ordered.induct)
  case (3 succ visit A v s)
  then show ?case by (simp add: subset_iff)
qed (auto simp: insert_mono)

lemma ordered_enters: "ordered succ visit A (map DfsEnter us @ s) \<longleftrightarrow> ordered succ visit (set us \<union> A) s"
  by (induction us arbitrary: A) simp_all

definition forest :: "('v \<Rightarrow> 'v list) \<Rightarrow> ('v \<Rightarrow> bool) \<Rightarrow> 'v set \<Rightarrow> 'v \<Rightarrow> bool" where
  "forest succ visit D start \<longleftrightarrow> start \<in> D \<and>
     (\<forall>c\<in>D. distinct (filter visit (succ c)) \<and> (\<forall>u\<in>set (succ c). visit u \<longrightarrow> u \<in> D \<and> u \<noteq> start)) \<and>
     (\<forall>c\<in>D. \<forall>c'\<in>D. \<forall>u. visit u \<longrightarrow> u \<in> set (succ c) \<longrightarrow> u \<in> set (succ c') \<longrightarrow> c = c')"

definition forest_inv ::
  "('v \<Rightarrow> 'v list) \<Rightarrow> ('v \<Rightarrow> bool) \<Rightarrow> 'v set \<Rightarrow> 'v \<Rightarrow> 'v DfsEvent list \<Rightarrow> 'v set \<Rightarrow> 'v set \<Rightarrow> 'v set \<Rightarrow> bool" where
  "forest_inv succ visit D start s vis entered fin \<longleftrightarrow>
     distinct s \<and> entered \<subseteq> D \<and> fin \<subseteq> entered \<and> entered \<subseteq> insert start vis \<and>
     vis = {u. visit u \<and> (\<exists>c\<in>entered. u \<in> set (succ c))} \<and>
     (\<forall>v. DfsEnter v \<in> set s \<longrightarrow> v \<in> D - entered \<and> v \<in> insert start vis) \<and>
     (\<forall>v. DfsExit v \<in> set s \<longleftrightarrow> v \<in> entered - fin) \<and>
     (start \<in> entered \<or> DfsEnter start \<in> set s) \<and> ordered succ visit fin s"

lemma forest_restrict: "forest succ visit D start \<Longrightarrow> visit start \<Longrightarrow> forest succ visit {i\<in>D. visit i} start"
  unfolding forest_def by blast

lemma forest_inv_start: "forest succ visit D start \<Longrightarrow> forest_inv succ visit D start [DfsEnter start] {} {} {}"
  by (auto simp: forest_inv_def forest_def)

lemma forest_enter:
  assumes F: "forest succ visit D start" and inv: "forest_inv succ visit D start (DfsEnter v # s) vis entered fin"
    and push: "push_successors visit (succ v) (DfsExit v # s, vis) = (s', vis')"
  shows "forest_inv succ visit D start s' vis' (insert v entered) fin"
proof -
  let ?us = "filter visit (succ v)"
  have I: "distinct s" "DfsEnter v \<notin> set s" "entered \<subseteq> D" "fin \<subseteq> entered" "entered \<subseteq> insert start vis"
    "vis = {u. visit u \<and> (\<exists>c\<in>entered. u \<in> set (succ c))}" "v \<in> D" "v \<notin> entered" "v \<in> insert start vis"
    "ordered succ visit (insert v fin) s"
    and enter: "\<And>u. DfsEnter u \<in> set s \<Longrightarrow> u \<in> D \<and> u \<notin> entered \<and> u \<in> insert start vis"
    and exit: "\<And>u. DfsExit u \<in> set s \<longleftrightarrow> u \<in> entered - fin"
    using inv by (auto simp: forest_inv_def)
  have fresh: "u \<notin> vis \<and> u \<in> D \<and> u \<noteq> start" if u: "u \<in> set (succ v)" "visit u" for u
  proof -
    have "c = v" if "c \<in> entered" "u \<in> set (succ c)" for c
      using F u that I(3,7) unfolding forest_def by blast
    with I(6,8) have "u \<notin> vis" by auto
    with F u I(7) show ?thesis unfolding forest_def by blast
  qed
  have "distinct ?us" using F I(7) by (simp add: forest_def)
  from push_successors_fresh [OF this] fresh push have s': "s' = map DfsEnter (rev ?us) @ DfsExit v # s"
    and vis': "vis' = set ?us \<union> vis" by auto
  have new: "u \<in> D - insert v entered \<and> DfsEnter u \<notin> set s" if "u \<in> set ?us" for u
    using fresh [of u] that I(5,9) enter [of u] by auto
  show ?thesis unfolding forest_inv_def
  proof (intro conjI allI impI)
    show "distinct s'" using I(1,8) \<open>distinct ?us\<close> new exit by (auto simp: s' distinct_map inj_on_def)
    show "insert v entered \<subseteq> D" "fin \<subseteq> insert v entered" "insert v entered \<subseteq> insert start vis'"
      using I by (auto simp: vis')
    show "vis' = {u. visit u \<and> (\<exists>c\<in>insert v entered. u \<in> set (succ c))}" by (auto simp: vis' I(6))
    show "start \<in> insert v entered \<or> DfsEnter start \<in> set s'" using inv by (auto simp: forest_inv_def s')
    show "DfsExit u \<in> set s' \<longleftrightarrow> u \<in> insert v entered - fin" for u using exit [of u] I(4,8) by (auto simp: s')
    have "ordered succ visit (insert v (set ?us \<union> fin)) s" by (rule ordered_mono [OF I(10)]) auto
    then show "ordered succ visit fin s'" by (simp add: s' ordered_enters)
    fix u assume "DfsEnter u \<in> set s'"
    then show "u \<in> D - insert v entered" "u \<in> insert start vis'" using new [of u] enter [of u] I(2) by (auto simp: s' vis')
  qed
qed

lemma forest_exit:
  assumes "forest_inv succ visit D start (DfsExit v # s) vis entered fin"
  shows "forest_inv succ visit D start s vis entered (insert v fin)" "v \<in> D" "v \<notin> fin"
    "\<And>u. u \<in> set (succ v) \<Longrightarrow> visit u \<Longrightarrow> u \<in> fin"
  using assms unfolding forest_inv_def by auto

text \<open>
  A property \<open>P\<close> of the processed vertices and the state that \<open>f\<close> keeps when the successors of the
  vertex are processed holds at the end, and no call of \<open>f\<close> panics.
\<close>

lemma post_order_forest:
  assumes F: "forest succ visit D start" and succ: "\<forall>v\<in>D. successors v = Inr (succ v)"
    and f: "\<forall>v fin st. P fin st \<longrightarrow> v \<in> D \<longrightarrow> v \<notin> fin \<longrightarrow> (\<forall>u\<in>set (succ v). visit u \<longrightarrow> u \<in> fin) \<longrightarrow>
      (\<exists>st'. f v st = Inr st' \<and> P (insert v fin) st')"
  shows "forest_inv succ visit D start s vis entered fin \<Longrightarrow> P fin st \<Longrightarrow>
    post_order_loop n f successors visit s vis st = Some r \<Longrightarrow> \<exists>st' fin'. r = Inr st' \<and> P fin' st' \<and> start \<in> fin'"
proof (induction n arbitrary: s vis entered fin st)
  case (Suc n)
  show ?case
  proof (cases s)
    case Nil
    then have "start \<in> fin" using Suc.prems(1) by (auto simp: forest_inv_def)
    with Suc.prems Nil show ?thesis by auto
  next
    case (Cons e s1)
    show ?thesis
    proof (cases e)
      case (DfsEnter v)
      obtain s' vis' where push: "push_successors visit (succ v) (DfsExit v # s1, vis) = (s', vis')" by fastforce
      have "v \<in> D" using Suc.prems(1) by (auto simp: forest_inv_def Cons DfsEnter)
      with Suc.prems(3) succ push have "post_order_loop n f successors visit s' vis' st = Some r" by (simp add: Cons DfsEnter)
      with Suc.IH [OF forest_enter [OF F _ push] Suc.prems(2)] Suc.prems(1) show ?thesis unfolding Cons DfsEnter by blast
    next
      case (DfsExit v)
      note ex = forest_exit [OF Suc.prems(1) [unfolded Cons DfsExit]]
      from f Suc.prems(2) ex(2-4) obtain st' where st': "f v st = Inr st'" "P (insert v fin) st'" by blast
      with Suc.prems(3) have "post_order_loop n f successors visit s1 vis st' = Some r" by (simp add: Cons DfsExit)
      from Suc.IH [OF ex(1) st'(2) this] show ?thesis .
    qed
  qed
qed simp

end
