(* ===== verification/Attach_Correct.thy ===== *)
theory Attach_Correct
  imports Detached_Correct
begin

section \<open>Correctness of attaching\<close>

text \<open>
  The state of the traversal: the nodes made so far, by hash. \<open>attach_inv\<close> says that each of them
  is the detached data with the parents' hashes resolved to the new nodes and the objects to attach
  to, and that the reference counts are exact.
\<close>

definition det_resolved ::
  "('h \<Rightarrow> addr option) \<Rightarrow> ('n, 'e, 'h) DetachedInnerData \<Rightarrow> 'n \<times> (addr \<times> 'e) list" where
  "det_resolved f d = (det_value d, map (\<lambda>(p, e). (the (f p), e)) (det_incoming d))"

lemma det_resolved_mono:
  assumes "f \<subseteq>\<^sub>m f'" "set (det_parents d) \<subseteq> dom f"
  shows "det_resolved f' d = det_resolved f d"
  using assms by (force simp: det_resolved_def det_parents_def map_le_def)

definition attach_inv ::
  "('k, 's) slotmap_ops \<Rightarrow> ('n, 'e, 'h::linorder) Detached \<Rightarrow> ('h, RelRc) BTreeMap \<Rightarrow> ('n, 'e, 'k, 's) world \<Rightarrow>
   addr multiset \<Rightarrow> addr multiset \<Rightarrow> addr multiset \<Rightarrow> addr multiset \<Rightarrow> ('n, 'e, 'k, 's, 'h) attach_state \<Rightarrow> bool" where
  "attach_inv ops det to w0 S W R V st \<longleftrightarrow> (case st of (new, w) \<Rightarrow>
     btree_ok new \<and> set (btree_keys new) \<inter> set (btree_keys to) = {} \<and>
     world_ok ops w (mset (btree_values new) + (mset (btree_values to) + S)) W R V \<and> regs w = regs w0 \<and>
     abs_graph (mem w0) \<subseteq>\<^sub>m abs_graph (mem w) \<and>
     (\<forall>i a. btree_get i new = Some a \<longrightarrow> abs_graph (mem w0) a = None \<and>
        (\<exists>d. btree_get i (all_data det) = Some d \<and> set (det_parents d) \<subseteq> dom (find_parent new to) \<and>
           abs_graph (mem w) a = Some (det_resolved (find_parent new to) d))))"

lemma attach_invD:
  assumes "attach_inv ops det to w0 S W R V (new, w)"
  shows "btree_ok new" "set (btree_keys new) \<inter> set (btree_keys to) = {}"
    "world_ok ops w (mset (btree_values new) + (mset (btree_values to) + S)) W R V" "regs w = regs w0"
    "abs_graph (mem w0) \<subseteq>\<^sub>m abs_graph (mem w)"
    "btree_get i new = Some a \<Longrightarrow> abs_graph (mem w0) a = None \<and>
        (\<exists>d. btree_get i (all_data det) = Some d \<and> set (det_parents d) \<subseteq> dom (find_parent new to) \<and>
           abs_graph (mem w) a = Some (det_resolved (find_parent new to) d))"
  using assms unfolding attach_inv_def prod.case by iprover+

lemma find_parent_owned:
  assumes "btree_ok new" "btree_ok to" "find_parent new to p = Some a"
  shows "a \<in># mset (btree_values new) + mset (btree_values to)"
  using assms by (force simp: find_parent_def btree_get_iff btree_values_def split: option.splits)

lemma find_parent_insert:
  assumes "btree_insert i a new = (old, new')"
  shows "find_parent new' to p = (if p = i then Some a else find_parent new to p)"
  by (simp add: find_parent_def btree_insert_get(2) [OF assms])

lemma find_parents_result:
  assumes "set (det_parents d) \<subseteq> dom (find_parent new to)"
  shows "map_res (\<lambda>(p, v). and_then (unwrap (find_parent new to p)) (\<lambda>a. Inr (a, v))) (det_incoming d) =
    Inr (map (\<lambda>(p, e). (the (find_parent new to p), e)) (det_incoming d))"
  using assms by (intro map_res_map) (force simp: det_parents_def)

context slot_map
begin

lemma drop_all_ok:
  assumes ok: "world_ok ops w (mset as + S) W R V"
  shows "world_ok ops (drop_all ops as w) S W R V"
    and "abs_graph (mem (drop_all ops as w)) = collect_garbage S (abs_graph (mem w))"
  using drop_relrcs_ok [OF slot_map_axioms ok] by (simp_all add: drop_all_def)

lemma clone_with_parents_ok:
  assumes al: "alloc_ok al" and ok: "world_ok ops w S W R V" and own: "set (map fst ps) \<subseteq> set_mset S"
    and wp: "with_parents al v ps (fold relrc_clone (map fst ps) (mem w)) = (a, h)"
  shows "world_ok ops (w\<lparr>mem := h\<rparr>) (add_mset a S) W R V"
    "abs_graph h = (abs_graph (mem w))(a \<mapsto> (v, ps))" "a \<notin> dom (abs_graph (mem w))"
proof -
  let ?w1 = "w\<lparr>mem := fold rc_clone (map fst ps) (mem w)\<rparr>"
  have "\<forall>a\<in>set (map fst ps). alive (mem w) a" using own owned_strong [OF ok] by blast
  from strong.dup_all_ok [OF ok this] have ok1: "world_ok ops ?w1 (mset (map fst ps) + S) W R V"
    by (simp only: fold_mem_clone)
  have wp1: "with_parents al v ps (mem ?w1) = (a, h)" using wp by (simp add: relrc_clone_rc_clone)
  show "world_ok ops (w\<lparr>mem := h\<rparr>) (add_mset a S) W R V" using with_parents_ok [OF al ok1 wp1] by simp
  show "abs_graph h = (abs_graph (mem w))(a \<mapsto> (v, ps))" "a \<notin> dom (abs_graph (mem w))"
    using abs_with_parents [OF al ok1 wp1] by simp_all
qed

lemma attach_node_ok:
  fixes w0 :: "('n, 'e, 'k, 's) world"
  assumes al: "alloc_ok al" and to: "btree_ok to" and inv: "attach_inv ops det to w0 S W R V (new, w)"
    and i: "btree_get i (all_data det) = Some d" "i \<notin> set (btree_keys new)" "i \<notin> set (btree_keys to)"
    and par: "set (det_parents d) \<subseteq> dom (find_parent new to)"
  shows "\<exists>new' w'. attach_node al ops det to i (new, w) = Inr (new', w') \<and>
    attach_inv ops det to w0 S W R V (new', w') \<and> set (btree_keys new') = insert i (set (btree_keys new))"
proof -
  note I = attach_invD [OF inv]
  let ?ps = "map (\<lambda>(p, e). (the (find_parent new to p), e)) (det_incoming d)"
  obtain a h where wp: "with_parents al (det_value d) ?ps (fold relrc_clone (map fst ?ps) (mem w)) = (a, h)" by fastforce
  obtain old new' where ins: "btree_insert i a new = (old, new')" by fastforce
  have old: "old = None" using btree_insert_get(1) [OF ins] i(2) btree_get_None by metis
  have "set (map fst ?ps) \<subseteq> set_mset (mset (btree_values new) + (mset (btree_values to) + S))"
    using par find_parent_owned [OF I(1) to] by (force simp: det_parents_def)
  note mk = clone_with_parents_ok [OF al I(3) this wp]
  have vals: "mset (btree_values new') = add_mset a (mset (btree_values new))"
    using btree_insert_values [OF I(1) ins] old by simp
  have run: "attach_node al ops det to i (new, w) = Inr (new', w\<lparr>mem := h\<rparr>)"
    using find_parents_result [OF par] by (simp add: attach_node_def i(1) wp ins old del: map_map)
  have keys: "set (btree_keys new') = insert i (set (btree_keys new))" using btree_insert_keys [of i a new] ins by simp
  have upd: "find_parent new' to p = (if p = i then Some a else find_parent new to p)" for p by (rule find_parent_insert [OF ins])
  have "find_parent new to i = None" using i(2,3) unfolding btree_get_None [symmetric] by (simp add: find_parent_def)
  then have mono: "find_parent new to \<subseteq>\<^sub>m find_parent new' to" by (auto simp: map_le_def upd dom_def)
  have "abs_graph (mem w0) b = None \<and> (\<exists>d. btree_get j (all_data det) = Some d \<and> set (det_parents d) \<subseteq> dom (find_parent new' to) \<and>
      abs_graph h b = Some (det_resolved (find_parent new' to) d))" if j: "btree_get j new' = Some b" for j b
  proof (cases "j = i")
    case True
    then have [simp]: "b = a" using j btree_insert_get(2) [OF ins] by simp
    have "abs_graph (mem w0) a = None" using I(5) mk(3) by (force simp: map_le_def)
    moreover have "set (det_parents d) \<subseteq> dom (find_parent new' to)" using par map_le_implies_dom_le [OF mono] by blast
    moreover have "abs_graph h a = Some (det_resolved (find_parent new' to) d)"
      using det_resolved_mono [OF mono par] by (simp add: mk(2) det_resolved_def)
    ultimately show ?thesis using True i(1) by simp
  next
    case False
    then have "btree_get j new = Some b" using j btree_insert_get(2) [OF ins] by simp
    from I(6) [OF this] obtain d' where d': "abs_graph (mem w0) b = None" "btree_get j (all_data det) = Some d'"
      "set (det_parents d') \<subseteq> dom (find_parent new to)" "abs_graph (mem w) b = Some (det_resolved (find_parent new to) d')" by blast
    have "b \<noteq> a" using d'(4) mk(3) by auto
    with d' det_resolved_mono [OF mono d'(3)] map_le_implies_dom_le [OF mono] show ?thesis by (auto simp: mk(2))
  qed
  moreover have "abs_graph (mem w0) \<subseteq>\<^sub>m abs_graph h" unfolding mk(2) by (rule map_le_upd_fresh [OF I(5) mk(3)])
  ultimately have "attach_inv ops det to w0 S W R V (new', w\<lparr>mem := h\<rparr>)"
    using btree_insert_ok [OF I(1) ins] I(2,4) i(3) mk(1) unfolding attach_inv_def prod.case keys vals by simp
  with run keys show ?thesis by blast
qed

end

subsection \<open>Attaching a forest\<close>

text \<open>
  The detached data are a forest above the objects to attach to: no hash that is not
  available there is the parent of two nodes, or twice of one, or of a node and the result.
\<close>

definition det_forest :: "('n, 'e, 'h) Detached \<Rightarrow> ('h, RelRc) BTreeMap \<Rightarrow> bool" where
  "det_forest det to \<longleftrightarrow> btree_contains_key (current det) (all_data det) \<and>
     distinct (filter (\<lambda>i. \<not> btree_contains_key i to)
       (current det # concat (map det_parents (btree_values (all_data det)))))"

definition part_of :: "('n, 'e, 'h::linorder) Detached \<Rightarrow> ('n, 'e, 'h) Detached \<Rightarrow> bool" where
  "part_of d det \<longleftrightarrow> current d = current det \<and> btree_contains_key (current d) (all_data d) \<and> btree_ok (all_data d) \<and>
     (\<lambda>i. btree_get i (all_data d)) \<subseteq>\<^sub>m (\<lambda>i. btree_get i (all_data det))"

text \<open>
  \<open>hash_copy hash_id h to N g\<close>: the nodes that \<open>N\<close> gives to hashes, other than those of \<open>to\<close>, are in \<open>g\<close> copies
  of the nodes with these hashes in the memory \<open>h\<close>: same value, same edge values, parents with the
  same hashes.
\<close>

definition hash_copy ::
  "('n, 'e, 'h) hash_fun \<Rightarrow> ('n, 'e) node_heap \<Rightarrow> ('h, RelRc) BTreeMap \<Rightarrow> ('h \<Rightarrow> addr option) \<Rightarrow> ('n, 'e) graph \<Rightarrow> bool" where
  "hash_copy hash_id h to N g \<longleftrightarrow> (\<forall>i b. N i = Some b \<longrightarrow> btree_get i to = None \<longrightarrow> (\<exists>x v ps. i = hash_id x h \<and>
     abs_graph h x = Some (v, ps) \<and> (\<forall>p\<in>set (map fst ps). N (hash_id p h) \<noteq> None) \<and>
     g b = Some (v, map (\<lambda>(p, e). (the (N (hash_id p h)), e)) ps)))"

definition det_succ :: "('n, 'e, 'h) Detached \<Rightarrow> 'h \<Rightarrow> 'h list" where
  "det_succ det i = (case btree_get i (all_data det) of None \<Rightarrow> [] | Some d \<Rightarrow> det_parents d)"

lemma distinct_concat_shared:
  "distinct (concat (map f xs)) \<Longrightarrow> x \<in> set xs \<Longrightarrow> distinct (f x) \<and> (\<forall>y\<in>set xs. \<forall>u. u \<in> set (f x) \<longrightarrow> u \<in> set (f y) \<longrightarrow> x = y)"
  by (induction xs) auto

lemma det_succ_data: "u \<in> set (det_succ det c) \<Longrightarrow> u \<in> set (concat (map det_parents (btree_values (all_data det))))"
  by (auto simp: det_succ_def btree_get_def btree_values_def split: option.splits)
    (metis map_of_SomeD snd_conv)

lemma attaches_to_iff:
  "attaches_to det to \<longleftrightarrow> (\<forall>u\<in>set (concat (map det_parents (btree_values (all_data det)))).
     btree_contains_key u (all_data det) \<or> btree_contains_key u to)"
  by (auto simp: attaches_to_def required_hashes_def unique_def list_all_iff)

lemma det_forest_forest:
  assumes ok: "btree_ok (all_data det)" and F: "det_forest det to" and to: "attaches_to det to"
    and cur: "\<not> btree_contains_key (current det) to"
  shows "forest (det_succ det) (\<lambda>i. \<not> btree_contains_key i to) (set (btree_keys (all_data det))) (current det)"
proof -
  let ?vis = "\<lambda>i. \<not> btree_contains_key i to" and ?f = "\<lambda>e. filter (\<lambda>i. \<not> btree_contains_key i to) (det_parents (snd e))"
  let ?all = "concat (map det_parents (btree_values (all_data det)))"
  have "filter ?vis ?all = concat (map ?f (all_data det))"
    by (simp add: filter_concat btree_values_def comp_def)
  moreover have "distinct (filter ?vis ?all)" and notcur: "current det \<notin> set (filter ?vis ?all)"
    using F cur by (simp_all add: det_forest_def)
  ultimately have dist: "distinct (concat (map ?f (all_data det)))" by simp
  have entry: "\<exists>d. (c, d) \<in> set (all_data det) \<and> det_succ det c = det_parents d" if "c \<in> set (btree_keys (all_data det))" for c
  proof -
    from that btree_get_None [of c "all_data det"] obtain d where "btree_get c (all_data det) = Some d" by auto
    moreover from this have "(c, d) \<in> set (all_data det)" by (simp add: btree_get_iff [OF ok])
    ultimately show ?thesis by (auto simp: det_succ_def)
  qed
  have "c = c'" if c: "c \<in> set (btree_keys (all_data det))" "c' \<in> set (btree_keys (all_data det))"
    and u: "?vis u" "u \<in> set (det_succ det c)" "u \<in> set (det_succ det c')" for c c' u
  proof -
    from entry [OF c(1)] entry [OF c(2)] obtain d d' where "(c, d) \<in> set (all_data det)" "det_succ det c = det_parents d"
      "(c', d') \<in> set (all_data det)" "det_succ det c' = det_parents d'" by blast
    with distinct_concat_shared [OF dist, of "(c, d)"] u have "(c, d) = (c', d')" by fastforce
    then show ?thesis by simp
  qed
  moreover have "distinct (filter ?vis (det_succ det c))" if "c \<in> set (btree_keys (all_data det))" for c
    using entry [OF that] distinct_concat_shared [OF dist] by fastforce
  moreover have "u \<in> set (btree_keys (all_data det)) \<and> u \<noteq> current det" if "u \<in> set (det_succ det c)" "?vis u" for c u
  proof -
    have "u \<in> set ?all" by (rule det_succ_data [OF that(1)])
    with to that(2) have "u \<in> set (btree_keys (all_data det))" unfolding attaches_to_iff btree_contains_iff by blast
    moreover from \<open>u \<in> set ?all\<close> that(2) have "u \<in> set (filter ?vis ?all)" by (simp only: set_filter mem_Collect_eq simp_thms)
    ultimately show ?thesis using notcur by blast
  qed
  moreover have "current det \<in> set (btree_keys (all_data det))" using F unfolding det_forest_def btree_contains_iff by blast
  ultimately show ?thesis unfolding forest_def by blast
qed

lemma drop_tasks_append: "drop_tasks ops (ts @ ts') w = drop_tasks ops ts' (drop_tasks ops ts w)"
  by (induction ops ts w rule: drop_tasks.induct) (simp_all add: Let_def split: prod.splits)

lemma drop_all_append: "drop_all ops bs (drop_all ops as w) = drop_all ops (as @ bs) w"
  by (simp add: drop_all_def drop_tasks_append)

lemma attach_successors_det: "btree_contains_key v (all_data det) \<Longrightarrow> attach_successors det v = Inr (det_succ det v)"
  by (auto simp: attach_successors_def det_succ_def btree_contains_key_def det_parents_def)

text \<open>The traversal always ends: the fuel is enough for any detached object.\<close>

lemma attach_traversal_ends: "post_order_for_each (attach_fuel det) (current det) f (attach_successors det) visit st \<noteq> None"
proof -
  let ?L = "concat (map det_parents (btree_values (all_data det)))"
  have succ: "set us \<subseteq> set ?L" if "attach_successors det v = Inr us" for v us
  proof -
    from that obtain d where "btree_get v (all_data det) = Some d" "us = map fst (det_incoming d)"
      by (cases "btree_get v (all_data det)") (auto simp: attach_successors_def)
    then have us: "us = det_succ det v" by (simp add: det_succ_def det_parents_def)
    show ?thesis unfolding us by (rule subsetI) (rule det_succ_data)
  qed
  have "card (set ?L - {}) \<le> length ?L" unfolding Diff_empty by (rule card_length)
  then have "event_cost [DfsEnter (current det)] + 2 * card (set ?L - {}) < attach_fuel det"
    unfolding attach_fuel_def event_cost_simps by linarith
  from post_order_loop_ends [OF finite_set succ this] show ?thesis unfolding post_order_for_each_def .
qed

context slot_map
begin

lemma attach_known:
  assumes ok: "world_ok ops w (mset objs + S) W R V"
    and to: "btree_collect (map (\<lambda>n. (hash_id n (mem w), n)) objs) [] = (dropped, to)"
    and cur: "btree_get (current det) to = Some a"
  shows "\<exists>w'. attach al ops hash_id det objs w = Some (Inr (a, w')) \<and> world_ok ops w' (add_mset a S) W R V \<and>
    abs_graph (mem w') = collect_garbage (add_mset a S) (collect_garbage (mset (btree_values to) + S) (abs_graph (mem w)))"
proof -
  note col = btree_collect_spec [OF btree_ok_Nil to]
  have "world_ok ops w (mset dropped + (mset (btree_values to) + S)) W R V"
    using ok col by (simp add: btree_values_def comp_def flip: add.assoc)
  note w0 = drop_all_ok [OF this]
  let ?w0 = "drop_all ops dropped w"
  have "a \<in> set (btree_values to)" using cur col btree_get_iff [of to] by (force simp: btree_values_def)
  then have "alive (mem ?w0) a" using owned_strong [OF w0(1)] by simp
  from clone_ok [OF w0(1) this]
  have "world_ok ops (?w0\<lparr>mem := relrc_clone a (mem ?w0)\<rparr>) (mset (btree_values to) + add_mset a S) W R V"
    by (simp add: relrc_clone_rc_clone)
  from drop_all_ok [OF this] w0(2) to cur show ?thesis by (simp add: attach_def relrc_clone_rc_clone Let_def)
qed

text \<open>One vertex of the traversal: its parents are made already or among the given objects.\<close>

abbreviation attach_state_ok ::
  "('n, 'e, 'h::linorder) Detached \<Rightarrow> ('h, RelRc) BTreeMap \<Rightarrow> ('n, 'e, 'k, 's) world \<Rightarrow>
   addr multiset \<Rightarrow> addr multiset \<Rightarrow> addr multiset \<Rightarrow> addr multiset \<Rightarrow> 'h set \<Rightarrow> ('n, 'e, 'k, 's, 'h) attach_state \<Rightarrow> bool" where
  "attach_state_ok det to w0 S W R V fin st \<equiv>
     attach_inv ops det to w0 S W R V st \<and> set (btree_keys (fst st)) = fin \<and> fin \<inter> set (btree_keys to) = {}"

lemma attach_visit:
  fixes w0 :: "('n, 'e, 'k, 's) world"
  assumes al: "alloc_ok al" and to: "btree_ok to" and P: "attach_state_ok det to w0 S W R V fin st"
    and v: "v \<in> {i\<in>set (btree_keys (all_data det)). \<not> btree_contains_key i to}" "v \<notin> fin"
    and succ: "\<forall>u\<in>set (det_succ det v). \<not> btree_contains_key u to \<longrightarrow> u \<in> fin"
  shows "\<exists>st'. attach_node al ops det to v st = Inr st' \<and> attach_state_ok det to w0 S W R V (insert v fin) st'"
proof -
  obtain new w1 where st: "st = (new, w1)" by fastforce
  have vto: "\<not> btree_contains_key v to" and "btree_get v (all_data det) \<noteq> None" using v(1) by (simp_all add: btree_get_None)
  then obtain d where d: "btree_get v (all_data det) = Some d" by blast
  have inv: "attach_inv ops det to w0 S W R V (new, w1)" and fin: "set (btree_keys new) = fin" using P by (simp_all add: st)
  have "set (det_parents d) \<subseteq> dom (find_parent new to)"
  proof
    fix p assume "p \<in> set (det_parents d)"
    with d succ have "p \<in> set (btree_keys to) \<or> p \<in> fin" by (auto simp: det_succ_def btree_contains_iff)
    then show "p \<in> dom (find_parent new to)"
      using btree_get_None [of p new] btree_get_None [of p to] fin by (auto simp: find_parent_def split: option.splits)
  qed
  moreover have "v \<notin> set (btree_keys new)" "v \<notin> set (btree_keys to)" using v(2) vto fin by (simp_all add: btree_contains_iff)
  ultimately show ?thesis using attach_node_ok [OF al to inv d] P vto fin by (auto simp: st btree_contains_iff)
qed

text \<open>The whole traversal.\<close>

lemma attach_traversal:
  fixes w0 :: "('n, 'e, 'k, 's) world"
  assumes al: "alloc_ok al" and to: "btree_ok to" and ok: "world_ok ops w0 (mset (btree_values to) + S) W R V"
    and det: "btree_ok (all_data det)" "det_forest det to" "attaches_to det to" "\<not> btree_contains_key (current det) to"
  shows "\<exists>new w1. post_order_for_each (attach_fuel det) (current det) (attach_node al ops det to) (attach_successors det)
      (\<lambda>i. \<not> btree_contains_key i to) ([], w0) = Some (Inr (new, w1)) \<and>
    attach_inv ops det to w0 S W R V (new, w1) \<and> btree_get (current det) new \<noteq> None"
proof -
  let ?vis = "\<lambda>i. \<not> btree_contains_key i to"
  let ?D = "{i\<in>set (btree_keys (all_data det)). ?vis i}" and ?P = "attach_state_ok det to w0 S W R V"
  have F: "forest (det_succ det) ?vis ?D (current det)"
    by (rule forest_restrict [OF det_forest_forest [OF det] det(4)])
  have P0: "?P {} ([], w0)" using ok by (simp add: attach_inv_def btree_values_def)
  obtain r where r: "post_order_for_each (attach_fuel det) (current det) (attach_node al ops det to) (attach_successors det) ?vis ([], w0) = Some r"
    using attach_traversal_ends by fastforce
  have succ: "\<forall>v\<in>?D. attach_successors det v = Inr (det_succ det v)"
    unfolding btree_contains_iff [symmetric] by (simp add: attach_successors_det)
  have "\<forall>v fin st. ?P fin st \<longrightarrow> v \<in> ?D \<longrightarrow> v \<notin> fin \<longrightarrow> (\<forall>u\<in>set (det_succ det v). ?vis u \<longrightarrow> u \<in> fin) \<longrightarrow>
      (\<exists>st'. attach_node al ops det to v st = Inr st' \<and> ?P (insert v fin) st')"
    by (intro allI impI) (rule attach_visit [OF al to])
  from post_order_forest [where P = ?P, OF F succ this forest_inv_start [OF F] P0 r [unfolded post_order_for_each_def]]
  obtain st fin where r': "r = Inr st" and P1: "?P fin st" "current det \<in> fin" by blast
  then have "btree_get (current det) (fst st) \<noteq> None" using btree_get_None [of "current det" "fst st"] by blast
  with r r' P1 show ?thesis by (metis prod.collapse)
qed

lemma attach_forest:
  fixes w :: "('n, 'e, 'k, 's) world"
  assumes al: "alloc_ok al" and ok: "world_ok ops w (mset objs + S) W R V"
    and to: "btree_collect (map (\<lambda>n. (hash_id n (mem w), n)) objs) [] = (dropped, to)"
    and det: "btree_ok (all_data det)" "det_forest det to" "attaches_to det to" "btree_get (current det) to = None"
  shows "\<exists>a w' N g. attach al ops hash_id det objs w = Some (Inr (a, w')) \<and> world_ok ops w' (add_mset a S) W R V \<and>
    N (current det) = Some a \<and> (\<forall>i b. btree_get i to = Some b \<longrightarrow> N i = Some b) \<and>
    collect_garbage (mset (btree_values to) + S) (abs_graph (mem w)) \<subseteq>\<^sub>m g \<and>
    abs_graph (mem w') = collect_garbage (add_mset a S) g \<and>
    (\<forall>i b. N i = Some b \<longrightarrow> btree_get i to = None \<longrightarrow> (\<exists>d. btree_get i (all_data det) = Some d \<and>
       set (det_parents d) \<subseteq> dom N \<and> g b = Some (det_resolved N d)))"
proof -
  note col = btree_collect_spec [OF btree_ok_Nil to]
  have "world_ok ops w (mset dropped + (mset (btree_values to) + S)) W R V"
    using ok col by (simp add: btree_values_def comp_def flip: add.assoc)
  note w0 = drop_all_ok [OF this]
  let ?w0 = "drop_all ops dropped w"
  have "\<not> btree_contains_key (current det) to" using det(4) by (simp add: btree_contains_key_def)
  from attach_traversal [OF al _ w0(1) det(1-3) this] col obtain new w1 a where
    r: "post_order_for_each (attach_fuel det) (current det) (attach_node al ops det to) (attach_successors det)
      (\<lambda>i. \<not> btree_contains_key i to) ([], ?w0) = Some (Inr (new, w1))"
    and inv: "attach_inv ops det to ?w0 S W R V (new, w1)" and a: "btree_get (current det) new = Some a" by blast
  note I = attach_invD [OF inv]
  obtain rest where rm: "btree_remove (current det) new = (Some a, rest)" using a by (simp add: btree_remove_def)
  let ?N = "find_parent new to" and ?w' = "drop_all ops (btree_values rest @ btree_values to) w1"
  have "attach al ops hash_id det objs w = Some (Inr (a, ?w'))"
    using to det(4) r by (simp add: attach_def rm drop_all_append Let_def)
  moreover have "world_ok ops w1 (mset (btree_values rest @ btree_values to) + add_mset a S) W R V"
    using I(3) btree_remove_values [OF I(1) rm] by (simp add: ac_simps)
  note w' = drop_all_ok [OF this]
  moreover have "?N (current det) = Some a" by (simp add: find_parent_def a)
  moreover have "\<forall>i b. btree_get i to = Some b \<longrightarrow> ?N i = Some b"
  proof (intro allI impI)
    fix i b assume i: "btree_get i to = Some b"
    then have "i \<in> set (btree_keys to)" using btree_get_None [of i to] by force
    with I(2) have "btree_get i new = None" unfolding btree_get_None by blast
    with i show "?N i = Some b" by (simp add: find_parent_def)
  qed
  moreover have "collect_garbage (mset (btree_values to) + S) (abs_graph (mem w)) \<subseteq>\<^sub>m abs_graph (mem w1)"
    using I(5) w0(2) by simp
  moreover have "\<exists>d. btree_get i (all_data det) = Some d \<and> set (det_parents d) \<subseteq> dom ?N \<and> abs_graph (mem w1) b = Some (det_resolved ?N d)"
    if "?N i = Some b" "btree_get i to = None" for i b
    using I(6) [of i b] that by (simp add: find_parent_def split: option.splits)
  ultimately show ?thesis by blast
qed

text \<open>
  Detaching in one process and attaching in another: some part of the detached data is enough,
  if it has the object itself and all that the part still requires is known.
\<close>

lemma attach_part_copy:
  fixes w2 :: "('n, 'e, 'k, 's) world"
  assumes src: "world_ok ops w1 S1 W1 R1 V1" "deref (mem w1) obj \<noteq> None" "hash_inj hash_id obj (mem w1)"
    and al: "alloc_ok al" and ok: "world_ok ops w2 (mset objs + S) W R V"
    and to: "btree_collect (map (\<lambda>n. (hash_id n (mem w2), n)) objs) [] = (dropped, to)"
    and det: "part_of r (detach hash_id obj D (mem w1))" "det_forest r to" "attaches_to r to" "btree_get (hash_id obj (mem w1)) to = None"
  shows "\<exists>a w' N g. attach al ops hash_id r objs w2 = Some (Inr (a, w')) \<and> world_ok ops w' (add_mset a S) W R V \<and>
    N (hash_id obj (mem w1)) = Some a \<and> (\<forall>i b. btree_get i to = Some b \<longrightarrow> N i = Some b) \<and>
    collect_garbage (mset (btree_values to) + S) (abs_graph (mem w2)) \<subseteq>\<^sub>m g \<and>
    abs_graph (mem w') = collect_garbage (add_mset a S) g \<and> hash_copy hash_id (mem w1) to N g"
proof -
  let ?det = "detach hash_id obj D (mem w1)"
  have cur: "current r = hash_id obj (mem w1)" and r_ok: "btree_ok (all_data r)"
    and sub: "\<And>i d. btree_get i (all_data r) = Some d \<Longrightarrow> btree_get i (all_data ?det) = Some d"
    using det(1) by (auto simp: part_of_def detach_def Detached_new_def map_le_def dom_def)
  note data = Detached_new_data [OF src, where D = D, folded detach_def]
  from attach_forest [where hash_id = hash_id, OF al ok to r_ok det(2,3)] det(4) cur obtain a w' N g where
    1: "attach al ops hash_id r objs w2 = Some (Inr (a, w'))" "world_ok ops w' (add_mset a S) W R V"
    "N (hash_id obj (mem w1)) = Some a" "\<forall>i b. btree_get i to = Some b \<longrightarrow> N i = Some b"
    "collect_garbage (mset (btree_values to) + S) (abs_graph (mem w2)) \<subseteq>\<^sub>m g"
    "abs_graph (mem w') = collect_garbage (add_mset a S) g"
    and nodes: "\<And>i b. N i = Some b \<Longrightarrow> btree_get i to = None \<Longrightarrow> \<exists>d. btree_get i (all_data r) = Some d \<and>
       set (det_parents d) \<subseteq> dom N \<and> g b = Some (det_resolved N d)" by auto
  have "\<exists>x v ps. i = hash_id x (mem w1) \<and> abs_graph (mem w1) x = Some (v, ps) \<and>
      (\<forall>p\<in>set (map fst ps). N (hash_id p (mem w1)) \<noteq> None) \<and> g b = Some (v, map (\<lambda>(p, e). (the (N (hash_id p (mem w1))), e)) ps)"
    if i: "N i = Some b" "btree_get i to = None" for i b
  proof -
    from nodes [OF i] obtain d where d: "btree_get i (all_data ?det) = Some d" "set (det_parents d) \<subseteq> dom N"
      "g b = Some (det_resolved N d)" using sub by blast
    from d(1) obtain x v ps where x: "i = hash_id x (mem w1)" "abs_graph (mem w1) x = Some (v, ps)" "d = hashed hash_id (mem w1) (v, ps)"
      unfolding data(2) by (metis prod.collapse)
    moreover have "\<forall>p\<in>set (map fst ps). N (hash_id p (mem w1)) \<noteq> None"
      using d(2) by (force simp: x(3) hashed_def det_parents_def)
    moreover have "det_resolved N d = (v, map (\<lambda>(p, e). (the (N (hash_id p (mem w1))), e)) ps)"
      by (simp add: x(3) hashed_def det_resolved_def comp_def case_prod_unfold)
    ultimately show ?thesis using d(3) by auto
  qed
  then have "hash_copy hash_id (mem w1) to N g" unfolding hash_copy_def by blast
  with 1 show ?thesis by blast
qed

end

end
