(* ===== verification/Mpi_Correct.thy ===== *)
theory Mpi_Correct
  imports Mpi Attach_Correct
begin

section \<open>Correctness of the transfer protocol\<close>

text \<open>
  An object that is sent arrives as it was sent. The protocol never panics, every run of it ends
  after a bounded number of steps, and it can only end with both processes finished and the
  receiver in possession of enough of the sender's data to attach the object, or with the receiver waiting for an
  object whose hash is the word 0, which the sender took for the end of the protocol.
\<close>

subsection \<open>One object\<close>

abbreviation packet_of :: "('h \<Rightarrow> usize) \<Rightarrow> ('n, 'e, 'h) MPIMessage \<Rightarrow> ('n, 'e) packet" where
  "packet_of to_usize m \<equiv> (tag_as_i32 (tag m), send_match to_usize m)"

lemma send_all_packets: "send_all list_sr to_usize ms q = q @ map (packet_of to_usize) ms"
  unfolding send_all_def by (induction ms arbitrary: q) (simp_all add: list_send)

definition object_packets :: "('h \<Rightarrow> usize) \<Rightarrow> 'h \<Rightarrow> ('n, 'e, 'h) DetachedInnerData \<Rightarrow> ('n, 'e) packet list" where
  "object_packets to_usize i d =
     packet_of to_usize (MsgRelRc i) # packet_of to_usize (NodeWeight (det_value d)) #
     packet_of to_usize (IncomingEdge (map fst (det_incoming d))) #
     map (\<lambda>e. packet_of to_usize (EdgeWeight (snd e))) (det_incoming d)"

lemma mpi_send_packets:
  assumes "\<And>i. of_usize (to_usize i) = i"
  shows "mpi_send list_sr to_usize of_usize i d q = q @ object_packets to_usize i d"
  by (simp add: mpi_send_def Let_def send_all_packets object_packets_def list_send relrc_into_message_def
      edges_into_message_def assms comp_def)

lemma recv_edge_weights_sent:
  fixes to_usize :: "'h \<Rightarrow> usize" and inc :: "('h \<times> 'e) list"
  assumes "\<And>i. of_usize (to_usize i) = i"
  shows "recv_edge_weights list_sr of_usize (map fst inc)
    (map (\<lambda>e. packet_of to_usize (EdgeWeight (snd e))) inc :: ('n, 'e) packet list) = Some (Inr inc, [])"
proof (induction inc)
  case (Cons e inc)
  have "receive list_sr of_usize TagEdgeWeight (packet_of to_usize (EdgeWeight (snd e)) # q) = Some (Inr (EdgeWeight (snd e)), q)"
    for q :: "('n, 'e) packet list"
    using receive_first [of of_usize to_usize "EdgeWeight (snd e)" TagEdgeWeight q, OF assms] by (simp add: sent_as_def)
  with Cons show ?case by simp
qed simp

lemma mpi_recv_sent:
  fixes to_usize :: "'h \<Rightarrow> usize" and d :: "('n, 'e, 'h) DetachedInnerData"
  assumes of_to: "\<And>i. of_usize (to_usize i) = i"
  shows "mpi_recv list_sr of_usize (object_packets to_usize i d) = Some (Inr (i, d), [])"
proof -
  have r: "receive list_sr of_usize (tag m) (packet_of to_usize m # q) = Some (Inr (sent_as to_usize m), q)"
    for m :: "('n, 'e, 'h) MPIMessage" and q
    by (rule receive_first [OF of_to]) simp
  have "recv_edge_weights list_sr of_usize (map fst (det_incoming d))
      (map (\<lambda>e. packet_of to_usize (EdgeWeight (snd e))) (det_incoming d) :: ('n, 'e) packet list) = Some (Inr (det_incoming d), [])"
    by (rule recv_edge_weights_sent [OF of_to])
  then show ?thesis
    using r [of "MsgRelRc i"] r [of "NodeWeight (det_value d)"] r [of "IncomingEdge (map fst (det_incoming d))"]
    by (simp add: mpi_recv_def object_packets_def sent_as_def)
qed

lemma mpi_recv_empty: "mpi_recv list_sr of_usize [] = None"
  by (simp add: mpi_recv_def list_receive)

subsection \<open>The invariant\<close>

text \<open>What the receiver has is part of what the sender has (\<open>part_of\<close>).\<close>

definition missing :: "('n, 'e, 'h) Detached \<Rightarrow> ('n, 'e, 'h) Detached option \<Rightarrow> 'h set" where
  "missing det x = set (btree_keys (all_data det)) - (case x of None \<Rightarrow> {} | Some d \<Rightarrow> set (btree_keys (all_data d)))"

text \<open>
  The sender only ever serves requests for hashes that are not the word 0, so that the receiver gets no other object with this hash
  than the first.
\<close>

definition served :: "('h::linorder \<Rightarrow> usize) \<Rightarrow> ('n, 'e, 'h) Detached \<Rightarrow> ('n, 'e, 'h) Detached \<Rightarrow> bool" where
  "served to_usize det r \<longleftrightarrow> part_of r det \<and> (\<forall>i\<in>set (btree_keys (all_data r)). i = current det \<or> to_usize i \<noteq> 0)"

definition wanted :: "('h::linorder \<Rightarrow> usize) \<Rightarrow> ('n, 'e, 'h) Detached \<Rightarrow> ('n, 'e, 'h) Detached option \<Rightarrow> 'h \<Rightarrow> bool" where
  "wanted to_usize det x i \<longleftrightarrow> i \<in> missing det x \<and> (case x of None \<Rightarrow> i = current det | Some r \<Rightarrow> served to_usize det r)"

text \<open>
  One rule per phase of the protocol, with a bound on the number of steps that are left.
\<close>

inductive mpi_phase ::
  "('h::linorder \<Rightarrow> usize) \<Rightarrow> ('n, 'e, 'h) Detached \<Rightarrow> ('h, RelRc) BTreeMap \<Rightarrow> nat \<Rightarrow> ('n, 'e, 'h, ('n, 'e) packet list) mpi_state \<Rightarrow> bool"
  for to_usize det attach_to where
  start_loop: "mpi_phase to_usize det attach_to (6 * card (missing det None) + 5)
    \<lparr>snd_pc = SndStart, rcv_pc = RcvLoop, rcv_det = None, to_rcv = [], to_snd = []\<rparr>"
| start_await: "mpi_phase to_usize det attach_to (6 * card (missing det None) + 4)
    \<lparr>snd_pc = SndStart, rcv_pc = RcvAwaitObject, rcv_det = None, to_rcv = [], to_snd = []\<rparr>"
| object_loop: "wanted to_usize det None i \<Longrightarrow> btree_get i (all_data det) = Some d \<Longrightarrow>
    mpi_phase to_usize det attach_to (6 * card (missing det None) + 2)
    \<lparr>snd_pc = SndAwaitAck, rcv_pc = RcvLoop, rcv_det = None, to_rcv = object_packets to_usize i d, to_snd = []\<rparr>"
| object_await: "wanted to_usize det x i \<Longrightarrow> btree_get i (all_data det) = Some d \<Longrightarrow> i = current det \<or> to_usize i \<noteq> 0 \<Longrightarrow>
    mpi_phase to_usize det attach_to (6 * card (missing det x) + 1)
    \<lparr>snd_pc = SndAwaitAck, rcv_pc = RcvAwaitObject, rcv_det = x, to_rcv = object_packets to_usize i d, to_snd = []\<rparr>"
| received: "served to_usize det r \<Longrightarrow> mpi_phase to_usize det attach_to (6 * card (missing det (Some r)) + 4)
    \<lparr>snd_pc = SndAwaitAck, rcv_pc = RcvLoop, rcv_det = Some r, to_rcv = [], to_snd = []\<rparr>"
| request: "wanted to_usize det (Some r) i \<Longrightarrow> mpi_phase to_usize det attach_to (6 * card (missing det (Some r)) + 3)
    \<lparr>snd_pc = SndAwaitAck, rcv_pc = RcvAwaitObject, rcv_det = Some r, to_rcv = [], to_snd = [packet_of to_usize (RequestRelRc i)]\<rparr>"
| done_sent: "served to_usize det r \<Longrightarrow> attaches_to r attach_to \<Longrightarrow> mpi_phase to_usize det attach_to 1
    \<lparr>snd_pc = SndAwaitAck, rcv_pc = RcvFinished, rcv_det = Some r, to_rcv = [], to_snd = [packet_of to_usize Done]\<rparr>"
| finished: "served to_usize det r \<Longrightarrow> attaches_to r attach_to \<Longrightarrow> mpi_phase to_usize det attach_to 0
    \<lparr>snd_pc = SndFinished, rcv_pc = RcvFinished, rcv_det = Some r, to_rcv = [], to_snd = []\<rparr>"
| cut_off: "wanted to_usize det (Some r) i \<Longrightarrow> to_usize i = 0 \<Longrightarrow> mpi_phase to_usize det attach_to 0
    \<lparr>snd_pc = SndFinished, rcv_pc = RcvAwaitObject, rcv_det = Some r, to_rcv = [], to_snd = []\<rparr>"

text \<open>A sender's object is complete; for the transfer to succeed, also no hash may be the word 0.\<close>

definition det_complete :: "('n, 'e, 'h::linorder) Detached \<Rightarrow> bool" where
  "det_complete det \<longleftrightarrow> btree_ok (all_data det) \<and> btree_contains_key (current det) (all_data det) \<and> attaches_to det []"

definition sendable :: "('h::linorder \<Rightarrow> usize) \<Rightarrow> ('n, 'e, 'h) Detached \<Rightarrow> bool" where
  "sendable to_usize det \<longleftrightarrow> det_complete det \<and> list_all (\<lambda>i. to_usize i \<noteq> 0) (btree_keys (all_data det))"

lemma recv_object_part:
  assumes "wanted to_usize det x i" "btree_get i (all_data det) = Some d"
  shows "i = current det \<or> to_usize i \<noteq> 0 \<Longrightarrow> served to_usize det (recv_object i d x)" "missing det (Some (recv_object i d x)) = missing det x - {i}"
    "card (missing det (Some (recv_object i d x))) < card (missing det x)"
proof -
  let ?r = "case x of None \<Rightarrow> Detached_empty i | Some det \<Rightarrow> det"
  have r: "current ?r = current det" "btree_ok (all_data ?r)" "(\<lambda>i. btree_get i (all_data ?r)) \<subseteq>\<^sub>m (\<lambda>i. btree_get i (all_data det))"
    "missing det x = missing det (Some ?r)" "i \<in> missing det x" "i = current det \<or> btree_contains_key (current det) (all_data ?r)"
    using assms(1) by (auto simp: wanted_def served_def part_of_def missing_def Detached_empty_def split: option.splits)
  obtain old m where ins: "btree_insert i d (all_data ?r) = (old, m)" by fastforce
  have new: "recv_object i d x = ?r\<lparr>all_data := m\<rparr>" by (simp add: recv_object_def ins)
  have get: "btree_get j m = (if j = i then Some d else btree_get j (all_data ?r))" for j by (rule btree_insert_get(2) [OF ins])
  have "(\<lambda>j. btree_get j m) = (\<lambda>j. btree_get j (all_data ?r))(i \<mapsto> d)" by (simp add: get fun_eq_iff)
  then have "(\<lambda>j. btree_get j m) \<subseteq>\<^sub>m (\<lambda>j. btree_get j (all_data det))" using r(3) assms(2) by (simp add: map_le_def)
  moreover have "btree_contains_key (current det) m" using r(6) by (auto simp: btree_contains_key_def get)
  ultimately have part: "part_of (recv_object i d x) det" using r(1) btree_insert_ok [OF r(2) ins] by (simp add: part_of_def new)
  have old: "\<forall>j\<in>set (btree_keys (all_data ?r)). j = current det \<or> to_usize j \<noteq> 0"
    using assms(1) by (auto simp: wanted_def served_def Detached_empty_def split: option.splits)
  have keys: "set (btree_keys m) = insert i (set (btree_keys (all_data ?r)))" using btree_insert_keys [of i d "all_data ?r"] ins by simp
  show "served to_usize det (recv_object i d x)" if "i = current det \<or> to_usize i \<noteq> 0"
    using part old that keys by (auto simp: served_def new)
  have "missing det (Some (recv_object i d x)) = set (btree_keys (all_data det)) - set (btree_keys m)"
    unfolding missing_def new by simp
  also have "\<dots> = missing det (Some ?r) - {i}" unfolding keys missing_def option.case by blast
  finally show eq: "missing det (Some (recv_object i d x)) = missing det x - {i}" using r(4) by simp
  show "card (missing det (Some (recv_object i d x))) < card (missing det x)"
    unfolding eq using r(5) by (intro card_Diff1_less) (simp_all add: missing_def)
qed

text \<open>An unknown required hash is missing at the receiver and present at the sender.\<close>

lemma required_wanted:
  assumes srv: "served to_usize det r" and all: "attaches_to det []" and i: "i \<in> set (required_hashes r)"
  shows "wanted to_usize det (Some r) i"
proof -
  have part: "part_of r det" using srv by (simp add: served_def)
  from i obtain d where d: "d \<in> set (btree_values (all_data r))" "i \<in> set (det_parents d)" "\<not> btree_contains_key i (all_data r)"
    by (auto simp: required_hashes_def unique_def)
  then obtain j where "btree_get j (all_data r) = Some d" using part by (auto simp: part_of_def btree_get_iff btree_values_def)
  then have "btree_get j (all_data det) = Some d" using part unfolding part_of_def map_le_def by (metis domI)
  then have "i \<in> set (det_succ det j)" using d(2) by (simp add: det_succ_def)
  from det_succ_data [OF this] all have "btree_contains_key i (all_data det)"
    by (auto simp: attaches_to_iff btree_contains_key_def)
  with d(3) srv show ?thesis by (simp add: wanted_def missing_def btree_contains_iff)
qed

subsection \<open>Every step moves the protocol forward\<close>

lemma receive_empty: "receive list_sr of_usize t [] = None"
  by (simp add: list_receive)

lemma receive_ack:
  "receive list_sr of_usize TagAck [(100, WordBuf [0])] = Some (Inr Done, [])"
  "of_usize (to_usize i) = i \<Longrightarrow> to_usize i \<noteq> 0 \<Longrightarrow>
   receive list_sr of_usize TagAck [(100, WordBuf [to_usize i])] = Some (Inr (RequestRelRc i), [])"
  by (simp_all add: list_receive extract_message_def tag_try_from_def ack_into_message_def)

lemma phaseI:
  "s' = t \<Longrightarrow> mpi_phase to_usize det attach_to k t \<Longrightarrow> k < n \<Longrightarrow> \<exists>n'<n. mpi_phase to_usize det attach_to n' s'"
  by blast

lemma sender_phase:
  assumes of_to: "\<And>i. of_usize (to_usize i) = i" and det: "det_complete det"
    and phase: "mpi_phase to_usize det attach_to n s" and step: "send_step list_sr to_usize of_usize det s = Some s'"
  shows "\<exists>n'<n. mpi_phase to_usize det attach_to n' s'"
  using phase
proof cases
  have "btree_contains_key (current det) (all_data det)" using det by (simp add: det_complete_def)
  then have cur: "wanted to_usize det None (current det)" and "\<exists>d. btree_get (current det) (all_data det) = Some d"
    by (simp add: wanted_def missing_def btree_contains_iff, simp add: btree_contains_key_def)
  then obtain d where d: "btree_get (current det) (all_data det) = Some d" by blast
  {
    case start_loop
    then have "s' = \<lparr>snd_pc = SndAwaitAck, rcv_pc = RcvLoop, rcv_det = None, to_rcv = object_packets to_usize (current det) d, to_snd = []\<rparr>"
      using step d by (simp add: send_step_def send_object_def data_at_def mpi_send_packets [OF of_to])
    from phaseI [OF this mpi_phase.object_loop [OF cur d]] start_loop(1) show ?thesis by simp
  next
    case start_await
    then have "s' = \<lparr>snd_pc = SndAwaitAck, rcv_pc = RcvAwaitObject, rcv_det = None, to_rcv = object_packets to_usize (current det) d, to_snd = []\<rparr>"
      using step d by (simp add: send_step_def send_object_def data_at_def mpi_send_packets [OF of_to])
    from phaseI [OF this mpi_phase.object_await [OF cur d disjI1 [OF refl]]] start_await(1) show ?thesis by simp
  }
next
  case (request r i)
  have "i \<in> set (btree_keys (all_data det))" using request(3) by (auto simp: wanted_def missing_def)
  then obtain d where d: "btree_get i (all_data det) = Some d" using btree_get_None [of i "all_data det"] by auto
  show ?thesis
  proof (cases "to_usize i = 0")
    case True
    then have "s' = \<lparr>snd_pc = SndFinished, rcv_pc = RcvAwaitObject, rcv_det = Some r, to_rcv = [], to_snd = []\<rparr>"
      using step request(2) by (simp add: send_step_def receive_ack(1))
    then show ?thesis by (rule phaseI [OF _ mpi_phase.cut_off [OF request(3) True]]) (use request(1) in simp)
  next
    case nz: False
    then have "s' = \<lparr>snd_pc = SndAwaitAck, rcv_pc = RcvAwaitObject, rcv_det = Some r, to_rcv = object_packets to_usize i d, to_snd = []\<rparr>"
      using step request(2) d
      by (simp add: receive_ack(2) [of of_usize to_usize i, OF of_to nz] send_step_def send_object_def data_at_def mpi_send_packets [OF of_to])
    from phaseI [OF this mpi_phase.object_await [OF request(3) d disjI2 [OF nz]]] request(1) show ?thesis by simp
  qed
next
  case (done_sent r)
  then have "s' = \<lparr>snd_pc = SndFinished, rcv_pc = RcvFinished, rcv_det = Some r, to_rcv = [], to_snd = []\<rparr>"
    using step by (simp add: send_step_def receive_ack(1))
  then show ?thesis by (rule phaseI [OF _ mpi_phase.finished [OF done_sent(3,4)]]) (use done_sent(1) in simp)
qed (use step in \<open>simp_all add: send_step_def receive_empty\<close>)

lemma receiver_phase:
  assumes of_to: "\<And>i. of_usize (to_usize i) = i" and det: "det_complete det"
    and phase: "mpi_phase to_usize det attach_to n s" and step: "recv_step list_sr to_usize of_usize attach_to s = Some s'"
  shows "\<exists>n'<n. mpi_phase to_usize det attach_to n' s'"
  using phase
proof cases
  case start_loop
  then have "s' = \<lparr>snd_pc = SndStart, rcv_pc = RcvAwaitObject, rcv_det = None, to_rcv = [], to_snd = []\<rparr>"
    using step by (simp add: recv_step_def loop_head_def)
  from phaseI [OF this mpi_phase.start_await] start_loop(1) show ?thesis by simp
next
  case (object_loop i d)
  then have "s' = \<lparr>snd_pc = SndAwaitAck, rcv_pc = RcvAwaitObject, rcv_det = None, to_rcv = object_packets to_usize i d, to_snd = []\<rparr>"
    using step by (simp add: recv_step_def loop_head_def)
  from phaseI [OF this mpi_phase.object_await [OF object_loop(3,4) disjI1]] object_loop(1,3) show ?thesis by (simp add: wanted_def)
next
  case (object_await x i d)
  then have "s' = \<lparr>snd_pc = SndAwaitAck, rcv_pc = RcvLoop, rcv_det = Some (recv_object i d x), to_rcv = [], to_snd = []\<rparr>"
    using step by (simp add: recv_step_def mpi_recv_sent [OF of_to])
  from phaseI [OF this mpi_phase.received [OF recv_object_part(1) [OF object_await(3-5)]]]
    recv_object_part(3) [OF object_await(3,4)] object_await(1) show ?thesis by simp
next
  case (received r)
  show ?thesis
  proof (cases "attaches_to r attach_to")
    case True
    then have "s' = \<lparr>snd_pc = SndAwaitAck, rcv_pc = RcvFinished, rcv_det = Some r, to_rcv = [], to_snd = [packet_of to_usize Done]\<rparr>"
      using step received(2) by (simp add: recv_step_def loop_head_def list_send)
    from phaseI [OF this mpi_phase.done_sent [OF received(3) True]] received(1) show ?thesis by simp
  next
    case False
    then have "find (\<lambda>i. \<not> btree_contains_key i attach_to) (required_hashes r) \<noteq> None"
      by (auto simp: attaches_to_def list_all_iff find_None_iff)
    then obtain i where i: "find (\<lambda>i. \<not> btree_contains_key i attach_to) (required_hashes r) = Some i" by blast
    then have "s' = \<lparr>snd_pc = SndAwaitAck, rcv_pc = RcvAwaitObject, rcv_det = Some r, to_rcv = [], to_snd = [packet_of to_usize (RequestRelRc i)]\<rparr>"
      using step received(2) False by (simp add: recv_step_def loop_head_def list_send)
    moreover have "wanted to_usize det (Some r) i"
      using required_wanted [OF received(3)] det i by (auto simp: det_complete_def find_Some_iff)
    moreover have "6 * card (missing det (Some r)) + 3 < n" using received(1) by linarith
    ultimately show ?thesis using phaseI [OF _ mpi_phase.request] by blast
  qed
qed (use step in \<open>simp_all add: recv_step_def mpi_recv_empty\<close>)

lemma mpi_step_phase:
  assumes "\<And>i. of_usize (to_usize i) = i" "det_complete det" "mpi_phase to_usize det attach_to n s"
    and "mpi_step list_sr list_sr to_usize of_usize det attach_to s s'"
  shows "\<exists>n'<n. mpi_phase to_usize det attach_to n' s'"
  using assms(4) sender_phase [OF assms(1-3)] receiver_phase [OF assms(1-3)] by (elim mpi_stepE)

text \<open>Some process can move until both have finished.\<close>

lemma mpi_phase_progress:
  assumes "\<And>i. of_usize (to_usize i) = i" "det_complete det" "mpi_phase to_usize det attach_to n s" "0 < n"
  shows "\<exists>s'. mpi_step list_sr list_sr to_usize of_usize det attach_to s s'"
  using assms(3)
proof cases
  case (object_await x i d)
  then have "\<exists>s'. recv_step list_sr to_usize of_usize attach_to s = Some s'" by (simp add: recv_step_def mpi_recv_sent [OF assms(1)])
  then show ?thesis by (blast intro: mpi_step.receiver)
next
  case (request r i)
  then have "\<exists>s'. send_step list_sr to_usize of_usize det s = Some s'"
    by (cases "to_usize i = 0") (simp_all add: send_step_def receive_ack(1) receive_ack(2) [of of_usize to_usize i, OF assms(1)])
  then show ?thesis by (blast intro: mpi_step.sender)
next
  case (done_sent r)
  then have "\<exists>s'. send_step list_sr to_usize of_usize det s = Some s'" by (simp add: send_step_def receive_ack(1))
  then show ?thesis by (blast intro: mpi_step.sender)
next
  case start_await
  then have "\<exists>s'. send_step list_sr to_usize of_usize det s = Some s'" by (simp add: send_step_def)
  then show ?thesis by (blast intro: mpi_step.sender)
qed (use assms(4) in \<open>auto intro!: exI mpi_step.receiver simp: recv_step_def\<close>)

subsection \<open>Runs\<close>

lemma mpi_init_phase: "mpi_phase to_usize det attach_to (6 * card (missing det None) + 5) (mpi_init [] [])"
  unfolding mpi_init_def by (rule start_loop)

lemma mpi_run_phase:
  assumes of_to: "\<And>i. of_usize (to_usize i) = i" and det: "det_complete det"
  shows "(mpi_step list_sr list_sr to_usize of_usize det attach_to ^^ k) s0 s \<Longrightarrow> mpi_phase to_usize det attach_to n s0 \<Longrightarrow>
    \<exists>n'. n' + k \<le> n \<and> mpi_phase to_usize det attach_to n' s"
proof (induction k arbitrary: s)
  case (Suc k)
  from Suc.prems(1) obtain t where t: "(mpi_step list_sr list_sr to_usize of_usize det attach_to ^^ k) s0 t" "mpi_step list_sr list_sr to_usize of_usize det attach_to t s" by auto
  from Suc.IH [OF t(1) Suc.prems(2)] obtain n' where n': "n' + k \<le> n" "mpi_phase to_usize det attach_to n' t" by blast
  from mpi_step_phase [OF of_to det n'(2) t(2)] obtain n'' where "n'' < n'" "mpi_phase to_usize det attach_to n'' s" by blast
  with n'(1) show ?case by (intro exI [of _ n'']) simp
qed auto

lemma mpi_phase_no_panic:
  assumes "mpi_phase to_usize det attach_to n s"
  shows "snd_pc s \<noteq> SndPanicked p \<and> rcv_pc s \<noteq> RcvPanicked p"
  using assms by cases simp_all

lemma mpi_phase_part:
  assumes "mpi_phase to_usize det attach_to n s" "rcv_det s = Some r"
  shows "part_of r det"
  using assms by cases (auto simp: wanted_def served_def)

lemma mpi_phase_finished:
  assumes "mpi_phase to_usize det attach_to n s" "rcv_pc s = RcvFinished"
  shows "\<exists>r. rcv_det s = Some r \<and> served to_usize det r \<and> attaches_to r attach_to"
  using assms by cases auto

lemma mpi_phase_end:
  assumes "mpi_phase to_usize det attach_to 0 s"
  shows "snd_pc s = SndFinished \<and>
    (rcv_pc s = RcvFinished \<or> rcv_pc s = RcvAwaitObject \<and> (\<exists>i\<in>set (btree_keys (all_data det)). to_usize i = 0))"
  using assms by cases (auto simp: wanted_def missing_def)

text \<open>What is under way: the packets of one object, or one request.\<close>

lemma btree_get_value: "btree_get i m = Some d \<Longrightarrow> d \<in> set (btree_values m)"
  by (force simp: btree_get_def btree_values_def dest: map_of_SomeD)

lemma mpi_phase_packets:
  assumes "mpi_phase to_usize det attach_to n s"
  shows "to_rcv s \<noteq> [] \<longrightarrow> (\<exists>d\<in>set (btree_values (all_data det)). length (to_rcv s) = length (det_incoming d) + 3)"
    "length (to_snd s) \<le> 1" "to_rcv s = [] \<or> snd_pc s = SndAwaitAck \<and> to_snd s = []" "rcv_pc s = RcvLoop \<longrightarrow> to_snd s = []"
proof -
  show "to_rcv s \<noteq> [] \<longrightarrow> (\<exists>d\<in>set (btree_values (all_data det)). length (to_rcv s) = length (det_incoming d) + 3)"
    using assms by cases (auto dest!: btree_get_value simp: object_packets_def)
qed (use assms in \<open>cases; simp\<close>)+

text \<open>The object that \<open>send_relrc\<close> detaches is complete.\<close>

lemma detach_all_complete:
  assumes ok: "world_ok ops w S W R V" "deref (mem w) obj \<noteq> None" "hash_inj hash_id obj (mem w)"
  shows "det_complete (detach hash_id obj {} (mem w))"
    and "i \<in> set (btree_keys (all_data (detach hash_id obj {} (mem w)))) \<longleftrightarrow>
      (\<exists>a. i = hash_id a (mem w) \<and> (a, obj) \<in> (parents (mem w))\<^sup>*)"
proof -
  let ?det = "detach hash_id obj {} (mem w)" and ?h = "mem w"
  note data = Detached_new_data [OF ok, where D = "{}", folded detach_def]
  have key: "i \<in> set (btree_keys (all_data ?det)) \<longleftrightarrow> (\<exists>d. btree_get i (all_data ?det) = Some d)" for i
    using btree_get_None [of i "all_data ?det"] by auto
  have live: "\<exists>x. abs_graph ?h a = Some x" if "(a, obj) \<in> (upto_parents hash_id {} ?h)\<^sup>*" for a
    using upto_live [OF ok(1,2) that] by (auto simp: abs_graph_def)
  have "current ?det \<in> set (btree_keys (all_data ?det))"
  proof -
    have "current ?det = hash_id obj ?h" by (simp add: detach_def Detached_new_def)
    then show ?thesis unfolding key data(2) using live [of obj] by blast
  qed
  moreover have "attaches_to ?det []"
  proof -
    have "u \<in> set (btree_keys (all_data ?det))" if "u \<in> set (det_parents d)" "(i, d) \<in> set (all_data ?det)" for u d i
    proof -
      have "btree_get i (all_data ?det) = Some d" using that(2) by (simp add: btree_get_iff [OF data(1)])
      then obtain a x where a: "(a, obj) \<in> (upto_parents hash_id {} ?h)\<^sup>*" "abs_graph ?h a = Some x" "d = hashed hash_id ?h x"
        unfolding data(2) by blast
      with that(1) obtain p where p: "u = hash_id p ?h" "p \<in> fst ` set (snd x)" by (force simp: hashed_def det_parents_def)
      then have "(p, a) \<in> parents ?h"
        using a(2) graph_parents_abs [of ?h] unfolding graph_parents_def by (metis (mono_tags, lifting) CollectI case_prodI prod.collapse)
      then have "(p, obj) \<in> (upto_parents hash_id {} ?h)\<^sup>*"
        using a(1) by (intro converse_rtrancl_into_rtrancl [OF _ a(1)]) (simp add: upto_parents_def)
      with live p(1) show ?thesis unfolding key data(2) by blast
    qed
    then show ?thesis unfolding attaches_to_iff btree_contains_iff by (auto simp: btree_values_def)
  qed
  ultimately show "det_complete ?det" using data(1) by (simp add: det_complete_def btree_contains_iff)
  have "upto_parents hash_id {} ?h = parents ?h" by (auto simp: upto_parents_def)
  then show "i \<in> set (btree_keys (all_data ?det)) \<longleftrightarrow> (\<exists>a. i = hash_id a ?h \<and> (a, obj) \<in> (parents ?h)\<^sup>*)"
    using live unfolding key data(2) by auto blast
qed

text \<open>What \<open>send_relrc\<close> sends on behalf of a program that holds the object.\<close>

lemma send_relrc_det:
  assumes ok: "world_ok ops w S W R V" and held: "relrc \<in># S"
    and send: "send_relrc_async P hash_id mode relrc (mem w) = Inr (dest, det)"
  shows "deref (mem w) relrc \<noteq> None" "det = detach hash_id relrc {} (mem w)"
proof -
  have "alive (mem w) relrc" using owned_strong [OF ok] held by blast
  then show "deref (mem w) relrc \<noteq> None" using alive_iff_deref [OF world_okD(5) [OF ok]] by simp
  show "det = detach hash_id relrc {} (mem w)" using send by (auto simp: send_relrc_async_def split: MPIMode.splits)
qed

lemma send_relrc_complete:
  assumes ok: "world_ok ops w S W R V" and held: "relrc \<in># S" and inj: "hash_inj hash_id relrc (mem w)"
    and send: "send_relrc_async P hash_id mode relrc (mem w) = Inr (dest, det)"
  shows "det_complete det"
  using detach_all_complete(1) [OF ok send_relrc_det(1) [OF ok held send] inj] send_relrc_det(2) [OF ok held send] by simp

lemma send_relrc_sendable:
  assumes ok: "world_ok ops w S W R V" and held: "relrc \<in># S" and inj: "hash_inj hash_id relrc (mem w)"
    and nz: "\<forall>a. (a, relrc) \<in> (parents (mem w))\<^sup>* \<longrightarrow> to_usize (hash_id a (mem w)) \<noteq> 0"
    and send: "send_relrc_async P hash_id mode relrc (mem w) = Inr (dest, det)"
  shows "sendable to_usize det"
proof -
  have "to_usize i \<noteq> 0" if "i \<in> set (btree_keys (all_data det))" for i
    using nz that detach_all_complete(2) [OF ok send_relrc_det(1) [OF ok held send] inj, of i] send_relrc_det(2) [OF ok held send] by metis
  with send_relrc_complete [OF ok held inj send] show ?thesis by (simp add: sendable_def list_all_iff)
qed

text \<open>
  What is enough to attach the object has every ancestor that can be reached through objects that are not among those to attach to.
\<close>

lemma attached_ancestors:
  assumes ok: "world_ok ops w S W R V" "deref (mem w) obj \<noteq> None" "hash_inj hash_id obj (mem w)"
    and r: "part_of r (detach hash_id obj {} (mem w))" "attaches_to r to"
    and a: "(a, obj) \<in> {(p, c) \<in> parents (mem w). hash_id p (mem w) \<notin> set (btree_keys to)}\<^sup>*"
  shows "(a, obj) \<in> (parents (mem w))\<^sup>* \<and> hash_id a (mem w) \<in> set (btree_keys (all_data r))"
  using a
proof (induction rule: converse_rtrancl_induct)
  case base
  have "current r = hash_id obj (mem w)" using r(1) by (simp add: part_of_def detach_def Detached_new_def)
  moreover have "current r \<in> set (btree_keys (all_data r))" using r(1) unfolding part_of_def btree_contains_iff by blast
  ultimately show ?case by (metis rtrancl.rtrancl_refl)
next
  case (step p c)
  let ?h = "mem w" and ?det = "detach hash_id obj {} (mem w)"
  note data = Detached_new_data [OF ok, where D = "{}", folded detach_def]
  from step have pc: "(p, c) \<in> parents ?h" "hash_id p ?h \<notin> set (btree_keys to)" and c: "(c, obj) \<in> (parents ?h)\<^sup>*" by auto
  from step.IH obtain d where d: "btree_get (hash_id c ?h) (all_data r) = Some d"
    using btree_get_None [of "hash_id c ?h" "all_data r"] by auto
  then have "btree_get (hash_id c ?h) (all_data ?det) = Some d" using r(1) unfolding part_of_def map_le_def by (metis domI)
  then obtain b x where b: "hash_id c ?h = hash_id b ?h" "(b, obj) \<in> (upto_parents hash_id {} ?h)\<^sup>*" "abs_graph ?h b = Some x"
    "d = hashed hash_id ?h x" unfolding data(2) by blast
  have "c = b" using ok(3) b(1) c upto_ancestor [OF b(2)] unfolding hash_inj_def by (blast dest: inj_onD)
  then have "p \<in> fst ` set (snd x)" using pc(1) b(3) graph_parents_abs [of ?h] by (force simp: graph_parents_def)
  then have "hash_id p ?h \<in> set (det_parents d)" using b(4) by (force simp: hashed_def det_parents_def)
  then have "hash_id p ?h \<in> set (btree_keys (all_data r))"
    using r(2) btree_get_value [OF d] pc(2) unfolding attaches_to_iff btree_contains_iff by auto
  with pc(1) c show ?case by (blast intro: converse_rtrancl_into_rtrancl)
qed

lemma missing_all: "det_complete det \<Longrightarrow> card (missing det None) = n_ancestors det"
  using distinct_card [of "btree_keys (all_data det)"] btree_ok_distinct [of "all_data det"]
  by (simp add: det_complete_def missing_def n_ancestors_def)

end
