(* ===== verification/Mpi_Transport.thy ===== *)
theory Mpi_Transport
  imports Mpi_Correct
begin

section \<open>The protocol over any MPI library\<close>

text \<open>
  The two processes on channels that obey the laws of the MPI library simulate the processes on
  lists of packets, step for step: the results on runs over lists carry over to every library and
  every mode.
\<close>

definition abs_state :: "('q \<Rightarrow> ('n, 'e) packet list) \<Rightarrow> ('n, 'e, 'h, 'q) mpi_state \<Rightarrow> ('n, 'e, 'h, ('n, 'e) packet list) mpi_state" where
  "abs_state packets s = \<lparr>snd_pc = snd_pc s, rcv_pc = rcv_pc s, rcv_det = rcv_det s,
     to_rcv = packets (to_rcv s), to_snd = packets (to_snd s)\<rparr>"

lemma abs_state_simps [simp]:
  "snd_pc (abs_state packets s) = snd_pc s" "rcv_pc (abs_state packets s) = rcv_pc s"
  "rcv_det (abs_state packets s) = rcv_det s" "to_rcv (abs_state packets s) = packets (to_rcv s)"
  "to_snd (abs_state packets s) = packets (to_snd s)"
  "abs_state packets (s\<lparr>snd_pc := p\<rparr>) = abs_state packets s\<lparr>snd_pc := p\<rparr>"
  "abs_state packets (s\<lparr>rcv_pc := p'\<rparr>) = abs_state packets s\<lparr>rcv_pc := p'\<rparr>"
  "abs_state packets (s\<lparr>rcv_det := x\<rparr>) = abs_state packets s\<lparr>rcv_det := x\<rparr>"
  "abs_state packets (s\<lparr>to_rcv := q\<rparr>) = abs_state packets s\<lparr>to_rcv := packets q\<rparr>"
  "abs_state packets (s\<lparr>to_snd := q\<rparr>) = abs_state packets s\<lparr>to_snd := packets q\<rparr>"
  by (simp_all add: abs_state_def)

lemma abs_state_init: "abs_state packets (mpi_init q1 q2) = mpi_init (packets q1) (packets q2)"
  by (simp add: abs_state_def mpi_init_def)

context mpi_receiver
begin

lemma recv_edge_weights_abs:
  "recv_edge_weights list_sr of_usize is (packets q) = map_option (map_prod id packets) (recv_edge_weights sr of_usize is q)"
  by (induction "is" arbitrary: q) (auto simp: receive_abs split: option.splits sum.splits MPIMessage.splits)

lemma mpi_recv_abs: "mpi_recv list_sr of_usize (packets q) = map_option (map_prod id packets) (mpi_recv sr of_usize q)"
  by (simp add: mpi_recv_def receive_abs recv_edge_weights_abs split: option.split sum.split MPIMessage.split prod.split)

end

text \<open>Into a buffer with enough room, a whole object is sent as into a list.\<close>

context mpi_room
begin

lemma send_abs_room: "length (packets q) < room \<Longrightarrow> packets (send sr to_usize m q) = send list_sr to_usize m (packets q)"
  by (simp add: send_def [of sr] list_send send_room)

lemma send_all_abs:
  "length (packets q) + length ms \<le> room \<Longrightarrow> packets (send_all sr to_usize ms q) = send_all list_sr to_usize ms (packets q)"
  unfolding send_all_def by (induction ms arbitrary: q) (simp_all add: send_abs_room list_send)

lemma mpi_send_abs:
  assumes "length (packets q) + length (det_incoming d) + 3 \<le> room"
  shows "packets (mpi_send sr to_usize of_usize i d q) = mpi_send list_sr to_usize of_usize i d (packets q)"
  using assms by (simp add: mpi_send_def Let_def send_all_abs send_abs_room list_send)

lemma send_object_abs:
  assumes "packets (to_rcv s) = []" "\<forall>d\<in>set (btree_values (all_data det)). length (det_incoming d) + 3 \<le> room"
  shows "send_object list_sr to_usize of_usize det i (abs_state packets s) = abs_state packets (send_object sr to_usize of_usize det i s)"
  using assms
  by (auto simp: send_object_def data_at_def mpi_send_abs dest!: btree_get_value split: sum.split option.splits)

lemma send_step_abs:
  assumes "packets (to_rcv s) = [] \<or> snd_pc s = SndAwaitAck \<and> packets (to_snd s) = []"
    and "\<forall>d\<in>set (btree_values (all_data det)). length (det_incoming d) + 3 \<le> room"
  shows "send_step list_sr to_usize of_usize det (abs_state packets s) = map_option (abs_state packets) (send_step sr to_usize of_usize det s)"
proof (cases "packets (to_rcv s) = []")
  case True
  then show ?thesis
    using send_object_abs [OF _ assms(2), of "s\<lparr>to_snd := q\<rparr>" to_usize of_usize for q]
    by (simp add: send_step_def receive_abs send_object_abs [OF _ assms(2)]
        split: snd_pc.split option.split sum.split MPIMessage.split prod.split)
next
  case False
  with assms(1) have "snd_pc s = SndAwaitAck" and empty: "packets (to_snd s) = []" by auto
  moreover have "receive sr of_usize TagAck (to_snd s) = None"
    using receive_abs [of of_usize TagAck "to_snd s"] by (simp add: empty receive_empty)
  ultimately show ?thesis by (simp add: send_step_def receive_empty)
qed

lemma recv_step_abs:
  assumes "rcv_pc s = RcvLoop \<longrightarrow> packets (to_snd s) = []" "0 < room"
  shows "recv_step list_sr to_usize of_usize attach_to (abs_state packets s) =
     map_option (abs_state packets) (recv_step sr to_usize of_usize attach_to s)"
proof -
  have "loop_head list_sr to_usize attach_to (abs_state packets s) = abs_state packets (loop_head sr to_usize attach_to s)"
    if "rcv_pc s = RcvLoop" using that assms by (simp add: loop_head_def send_abs_room split: option.split)
  then show ?thesis
    by (simp add: recv_step_def mpi_recv_abs split: rcv_pc.split option.split sum.split prod.split)
qed

end

subsection \<open>Simulation\<close>

text \<open>
  The sender sends an object when nothing is under way to the receiver, and the receiver a request when nothing is under way
  to the sender. So a buffer that has room for any one object of the sender is enough.
\<close>

definition room_for :: "('n, 'e, 'h) Detached \<Rightarrow> nat \<Rightarrow> bool" where
  "room_for det room \<longleftrightarrow> (\<forall>d\<in>set (btree_values (all_data det)). length (det_incoming d) + 3 \<le> room)"

lemma room_for_pos: "det_complete det \<Longrightarrow> room_for det room \<Longrightarrow> 0 < room"
  by (auto simp: det_complete_def room_for_def btree_contains_key_def dest!: btree_get_value split: option.splits)

lemma room_for_exists: "\<exists>room. room_for det room"
  using finite_nat_set_iff_bounded_le [of "(\<lambda>d. length (det_incoming d) + 3) ` set (btree_values (all_data det))"]
  by (simp add: room_for_def)

lemma mpi_step_abs:
  assumes ch: "mpi_room dest packets room" "mpi_room src packets room" "det_complete det" "room_for det room"
    and ph: "mpi_phase to_usize det attach_to n (abs_state packets s)"
  shows "send_step list_sr to_usize of_usize det (abs_state packets s) = map_option (abs_state packets) (send_step dest to_usize of_usize det s)"
    and "recv_step list_sr to_usize of_usize attach_to (abs_state packets s) =
      map_option (abs_state packets) (recv_step src to_usize of_usize attach_to s)"
  using mpi_room.send_step_abs [OF ch(1), of s det] mpi_room.recv_step_abs [OF ch(2), of s] room_for_pos [OF ch(3,4)] ch(4)
    mpi_phase_packets(3,4) [OF ph] by (simp_all add: room_for_def)

text \<open>A sender and a receiver whose libraries have room for the objects of \<open>det\<close>, which is complete.\<close>

locale mpi_transfer =
  snd: mpi_room dest packets room + rcv: mpi_room src packets room
  for dest src :: "('n, 'e, 'q) MPISendRecv" and packets room +
  fixes to_usize :: "'h::linorder \<Rightarrow> usize" and of_usize and det :: "('n, 'e, 'h) Detached" and attach_to :: "('h, RelRc) BTreeMap"
  assumes of_to: "\<And>i. of_usize (to_usize i) = i" and complete: "det_complete det" and enough: "room_for det room"
begin

abbreviation step where
  "step \<equiv> mpi_step dest src to_usize of_usize det attach_to"

abbreviation phase where
  "phase n s \<equiv> mpi_phase to_usize det attach_to n (abs_state packets s)"

lemmas steps_abs = mpi_step_abs [OF snd.mpi_room_axioms rcv.mpi_room_axioms complete enough]

lemma step_phase:
  assumes "phase n s" "step s s'"
  shows "\<exists>n'<n. phase n' s'"
proof -
  have "mpi_step list_sr list_sr to_usize of_usize det attach_to (abs_state packets s) (abs_state packets s')"
    using assms(2) by (auto elim!: mpi_stepE intro: mpi_step.intros simp: steps_abs [OF assms(1)])
  from mpi_step_phase [OF of_to complete assms(1) this] show ?thesis .
qed

lemma phase_progress:
  assumes "phase n s" "0 < n"
  shows "\<exists>s'. step s s'"
proof -
  obtain t where "mpi_step list_sr list_sr to_usize of_usize det attach_to (abs_state packets s) t"
    using mpi_phase_progress [OF of_to complete assms] by blast
  then show ?thesis by (elim mpi_stepE) (auto simp: steps_abs [OF assms(1)] dest: mpi_step.sender mpi_step.receiver)
qed

text \<open>The phase of a state that a run from empty channels reaches.\<close>

lemma run_phase:
  assumes "packets q1 = []" "packets q2 = []"
  shows "(step ^^ k) (mpi_init q1 q2) s \<Longrightarrow> \<exists>n. n + k \<le> 6 * n_ancestors det + 5 \<and> phase n s"
proof (induction k arbitrary: s)
  case 0
  then have "abs_state packets s = mpi_init [] []" using assms abs_state_init [of packets q1 q2] by auto
  with mpi_init_phase [of to_usize det attach_to] show ?case by (auto simp: missing_all [OF complete])
next
  case (Suc k)
  from Suc.prems obtain t where t: "(step ^^ k) (mpi_init q1 q2) t" "step t s" by auto
  from Suc.IH [OF t(1)] obtain n where n: "n + k \<le> 6 * n_ancestors det + 5" "phase n t" by blast
  from step_phase [OF n(2) t(2)] obtain n' where "n' < n" "phase n' s" by blast
  with n(1) show ?case by (intro exI [of _ n']) simp
qed

lemma reaches_phase:
  assumes "packets q1 = []" "packets q2 = []" "step\<^sup>*\<^sup>* (mpi_init q1 q2) s"
  shows "\<exists>n. phase n s"
  using run_phase [OF assms(1,2)] rtranclp_imp_relpowp [OF assms(3)] by blast

text \<open>A run can only stop when both processes have finished, or when the receiver waits for an object with the hash 0.\<close>

lemma phase_stop:
  assumes "phase n s" "\<nexists>s'. step s s'"
  shows "snd_pc s = SndFinished \<and>
    (rcv_pc s = RcvFinished \<or> rcv_pc s = RcvAwaitObject \<and> (\<exists>i\<in>set (btree_keys (all_data det)). to_usize i = 0))"
proof -
  have "n = 0" using phase_progress [OF assms(1)] assms(2) by blast
  with mpi_phase_end [of to_usize det attach_to "abs_state packets s"] assms(1) show ?thesis by simp
qed

lemma run_outcome:
  assumes q: "packets q1 = []" "packets q2 = []" and nz: "sendable to_usize det" and run: "step\<^sup>*\<^sup>* (mpi_init q1 q2) s"
  shows "(\<forall>p. snd_pc s \<noteq> SndPanicked p \<and> rcv_pc s \<noteq> RcvPanicked p) \<and>
    (\<forall>r. rcv_det s = Some r \<longrightarrow> part_of r det) \<and>
    ((\<exists>s'. step s s') \<or> (snd_pc s = SndFinished \<and> rcv_pc s = RcvFinished \<and> (\<exists>r. rcv_det s = Some r \<and> part_of r det \<and> attaches_to r attach_to)))"
proof -
  from reaches_phase [OF q run] obtain n where n: "phase n s" by blast
  have "\<forall>i\<in>set (btree_keys (all_data det)). to_usize i \<noteq> 0" using nz by (simp add: sendable_def list_all_iff)
  with phase_stop [OF n] mpi_phase_finished [OF n] show ?thesis
    using mpi_phase_no_panic [OF n] mpi_phase_part [OF n] by (auto simp: served_def)
qed

text \<open>Some run ends.\<close>

lemma run_ends:
  assumes "packets q1 = []" "packets q2 = []"
  shows "\<exists>s. step\<^sup>*\<^sup>* (mpi_init q1 q2) s \<and> (\<nexists>s'. step s s')"
proof -
  define run where "run k \<longleftrightarrow> (\<exists>s. (step ^^ k) (mpi_init q1 q2) s)" for k
  have "run 0" by (simp add: run_def)
  moreover have "\<forall>k. run k \<longrightarrow> id k < 6 * n_ancestors det + 6" using run_phase [OF assms] by (fastforce simp: run_def)
  ultimately obtain k where k: "run k" "\<forall>k'. run k' \<longrightarrow> id k' \<le> id k"
    using ex_has_greatest_nat [of run 0 id "6 * n_ancestors det + 6"] by blast
  from k(1) obtain s where s: "(step ^^ k) (mpi_init q1 q2) s" by (auto simp: run_def)
  have "\<nexists>s'. step s s'"
  proof
    assume "\<exists>s'. step s s'"
    then have "run (Suc k)" using s by (auto simp: run_def)
    with k(2) show False by fastforce
  qed
  with s show ?thesis using relpowp_imp_rtranclp by metis
qed

end

text \<open>The implementations that the modes choose are channels.\<close>

context mpi_library
begin

lemma recv_mode_channel: "mpi_channel (recv_relrc_async P mode) packets"
  using std.mpi_channel_axioms buf.mpi_channel_axioms async.mpi_channel_axioms
  by (simp add: recv_relrc_async_def split: MPIMode.split)

end

lemma mpi_library_bounded: "mpi_library P packets \<Longrightarrow> mpi_bounded P packets room"
  unfolding mpi_library_def mpi_bounded_def by simp

context mpi_bounded
begin

lemma recv_mode_room: "mpi_room (recv_relrc_async P mode) packets room"
  using std.mpi_room_axioms buf.mpi_room_axioms async.mpi_room_axioms
  by (simp add: recv_relrc_async_def split: MPIMode.split)

lemma send_mode_room:
  assumes "send_relrc_async P hash_id mode relrc h = Inr (dest, det)"
  shows "mpi_room dest packets room"
  using assms std.mpi_room_axioms buf.mpi_room_axioms by (auto simp: send_relrc_async_def split: MPIMode.splits)

end

text \<open>A transfer of an object that a program holds, between libraries with enough room.\<close>

lemma relrc_transfer:
  assumes "world_ok ops w S W R V" "relrc \<in># S" "hash_inj hash_id relrc (mem w)" "\<forall>i. of_usize (to_usize i) = i"
    and "mpi_bounded P packets room" "mpi_bounded P' packets room"
    and "send_relrc_async P hash_id mode relrc (mem w) = Inr (dest, det)" "recv_relrc_async P' mode' = src" "room_for det room"
  shows "mpi_transfer dest src packets room to_usize of_usize det"
  using mpi_bounded.send_mode_room [OF assms(5,7)] mpi_bounded.recv_mode_room [OF assms(6), of mode'] assms(4,8,9)
    send_relrc_complete [OF assms(1-3,7)]
  by (intro mpi_transfer.intro) (auto simp: mpi_transfer_axioms_def)

text \<open>
  When the receiver needs an ancestor whose hash is the word 0, it does not finish: its request for this ancestor ends the sender.
\<close>

lemma zero_unfinished:
  assumes ok: "world_ok ops w S W R V" "deref (mem w) relrc \<noteq> None" "hash_inj hash_id relrc (mem w)"
    and a: "(a, relrc) \<in> {(p, c) \<in> parents (mem w). hash_id p (mem w) \<notin> set (btree_keys attach_to)}\<^sup>+"
    and zero: "to_usize (hash_id a (mem w)) = 0"
    and phase: "mpi_phase to_usize (detach hash_id relrc {} (mem w)) attach_to n s"
  shows "rcv_pc s \<noteq> RcvFinished"
proof
  assume "rcv_pc s = RcvFinished"
  from mpi_phase_finished [OF phase this] obtain r where
    r: "served to_usize (detach hash_id relrc {} (mem w)) r" "attaches_to r attach_to" by blast
  then have part: "part_of r (detach hash_id relrc {} (mem w))" by (simp add: served_def)
  from attached_ancestors [OF ok part r(2) trancl_into_rtrancl [OF a]]
  have anc: "(a, relrc) \<in> (parents (mem w))\<^sup>*" "hash_id a (mem w) \<in> set (btree_keys (all_data r))" by blast+
  with r(1) zero have "hash_id a (mem w) = hash_id relrc (mem w)" by (auto simp: served_def detach_def Detached_new_def)
  with ok(3) anc(1) have "a = relrc" unfolding hash_inj_def by (blast dest: inj_onD)
  moreover have "(a, relrc) \<in> (parents (mem w))\<^sup>+" using a by (rule trancl_mono) auto
  moreover have "acyclic (parents (mem w))" by (intro shape_inv_acyclic world_ok_shape [OF ok(1)])
  ultimately show False by (simp add: acyclic_def)
qed

end
