(* ===== verification/Mpi_Transfer.thy ===== *)
theory Mpi_Transfer
  imports Mpi_Transport
begin

section \<open>The whole transfer\<close>

text \<open>
  The receiver collects the objects to attach to, takes part in the protocol, and attaches what it
  has received. Together with the results on the protocol this gives the result of a transfer at
  the receiver. The hash of a node must not depend on anything but the node and its ancestors, as
  the receiver computes the hashes of the objects to attach to once before and once after.
\<close>

definition hash_local :: "('n, 'e, 'h) hash_fun \<Rightarrow> bool" where
  "hash_local hash_id \<longleftrightarrow> (\<forall>h h' a. (\<forall>x. (x, a) \<in> (parents h)\<^sup>* \<longrightarrow> abs_graph h' x = abs_graph h x) \<longrightarrow> hash_id a h' = hash_id a h)"

subsection \<open>Parts of detached data\<close>

lemma part_of_filter:
  assumes "part_of r det" "btree_ok (all_data det)"
  shows "all_data r = filter (\<lambda>e. btree_contains_key (fst e) (all_data r)) (all_data det)"
proof (rule map_sorted_distinct_set_unique [of fst])
  have r: "btree_ok (all_data r)" using assms(1) by (simp add: part_of_def)
  have sub: "btree_get i (all_data det) = Some d" if "btree_get i (all_data r) = Some d" for i d
    using assms(1) that unfolding part_of_def map_le_def by (metis domI)
  have "(i, d) \<in> set (all_data r) \<longleftrightarrow> (i, d) \<in> set (filter (\<lambda>e. btree_contains_key (fst e) (all_data r)) (all_data det))" for i d
    using sub [of i] by (auto simp: btree_contains_key_def simp flip: btree_get_iff [OF r] btree_get_iff [OF assms(2)])
  then show eq: "set (all_data r) = set (filter (\<lambda>e. btree_contains_key (fst e) (all_data r)) (all_data det))"
    unfolding set_eq_iff split_paired_All by blast
  show "sorted (btree_keys (all_data r))" "distinct (btree_keys (all_data r))"
    using r by (simp_all add: btree_ok_def strict_sorted_iff)
  show "sorted (btree_keys (filter (\<lambda>e. btree_contains_key (fst e) (all_data r)) (all_data det)))"
    "distinct (btree_keys (filter (\<lambda>e. btree_contains_key (fst e) (all_data r)) (all_data det)))"
    using assms(2) by (simp_all add: btree_ok_def strict_sorted_iff sorted_filter distinct_map_filter)
  show "inj_on fst (set (all_data r) \<union> set (filter (\<lambda>e. btree_contains_key (fst e) (all_data r)) (all_data det)))"
    unfolding eq [symmetric] using btree_ok_distinct [OF r] by (simp add: distinct_map)
qed

lemma distinct_filter_concat:
  "distinct (filter P (ys @ concat (map f xs))) \<Longrightarrow> distinct (filter P (ys @ concat (map f (filter Q xs))))"
proof (induction xs arbitrary: ys)
  case (Cons x xs)
  then show ?case using Cons.IH [of "ys @ f x"] Cons.IH [of ys] by auto
qed simp

lemma part_forest:
  assumes part: "part_of r det" and ok: "btree_ok (all_data det)" and det: "det_forest det to"
  shows "det_forest r to"
proof -
  have "current r = current det" "btree_contains_key (current r) (all_data r)" using part unfolding part_of_def by blast+
  moreover have "btree_values (all_data r) = map snd (filter (\<lambda>e. btree_contains_key (fst e) (all_data r)) (all_data det))"
    using part_of_filter [OF part ok] by (metis btree_values_def)
  moreover have "distinct (filter (\<lambda>i. \<not> btree_contains_key i to) ([current det] @ concat (map (det_parents \<circ> snd) (all_data det))))"
    using det by (simp add: det_forest_def btree_values_def comp_def)
  note distinct_filter_concat [OF this, of "\<lambda>e. btree_contains_key (fst e) (all_data r)"]
  ultimately show ?thesis by (simp add: det_forest_def comp_def)
qed

subsection \<open>The receiver\<close>

lemma btree_collect_sorted: "sorted_wrt (<) (btree_keys (m @ es)) \<Longrightarrow> btree_collect es m = ([], m @ es)"
proof (induction es arbitrary: m)
  case (Cons e es)
  obtain k v where e: "e = (k, v)" by fastforce
  from Cons.prems have lt: "\<forall>x\<in>set m. fst x < k" by (auto simp: e sorted_wrt_append)
  then have "btree_get k m = None" by (auto simp: btree_get_None)
  moreover have "filter (\<lambda>e. fst e < k) m = m" "filter (\<lambda>e. k < fst e) m = []"
    using lt by (auto simp: filter_id_conv filter_empty_conv dest: less_asym)
  ultimately have "btree_insert k v m = (None, m @ [e])" by (simp add: btree_insert_def e)
  with Cons.IH [of "m @ [e]"] Cons.prems show ?case by (simp add: e)
qed simp

text \<open>What \<open>recv_start\<close> leaves: the objects to attach to, by hash.\<close>

context slot_map
begin

lemma recv_start_ok:
  assumes ok: "world_ok ops v (mset objs + S) W R V" and start: "recv_start ops hash_id objs v = (to, v1)"
  shows "world_ok ops v1 (mset (btree_values to) + S) W R V" "btree_ok to"
    and "abs_graph (mem v1) = collect_garbage (mset (btree_values to) + S) (abs_graph (mem v))"
    and "(i, n) \<in> set to \<Longrightarrow> i = hash_id n (mem v)"
proof -
  from start obtain dropped where col: "btree_collect (map (\<lambda>r. (hash_id r (mem v), r)) objs) [] = (dropped, to)"
    and v1: "v1 = drop_all ops dropped v" by (auto simp: recv_start_def split: prod.splits)
  note spec = btree_collect_spec [OF btree_ok_Nil col]
  have "world_ok ops v (mset dropped + (mset (btree_values to) + S)) W R V"
    using ok spec by (simp add: btree_values_def comp_def flip: add.assoc)
  from drop_all_ok [OF this] show "world_ok ops v1 (mset (btree_values to) + S) W R V"
    "abs_graph (mem v1) = collect_garbage (mset (btree_values to) + S) (abs_graph (mem v))" by (simp_all add: v1)
  show to: "btree_ok to" using spec by simp
  show "i = hash_id n (mem v)" if "(i, n) \<in> set to"
  proof -
    have "btree_get i to = Some n" using that by (simp add: btree_get_iff [OF to])
    then have "map_of (rev (map (\<lambda>r. (hash_id r (mem v), r)) objs)) i = Some n" using spec by (simp split: option.splits)
    from map_of_SomeD [OF this] show ?thesis by auto
  qed
qed

text \<open>Computing the hashes again after the dropped objects are gone gives the same map.\<close>

lemma recv_start_again:
  assumes ok: "world_ok ops v (mset objs + S) W R V" and start: "recv_start ops hash_id objs v = (to, v1)"
    and loc: "hash_local hash_id" and abs: "abs_graph h = abs_graph (mem v1)"
  shows "btree_collect (map (\<lambda>n. (hash_id n h, n)) (btree_values to)) [] = ([], to)"
proof -
  note st = recv_start_ok [OF ok start]
  have "hash_id n h = i" if "(i, n) \<in> set to" for i n
  proof -
    have n: "n \<in># mset (btree_values to) + S" using that by (force simp: btree_values_def)
    have "abs_graph h x = abs_graph (mem v) x" if "(x, n) \<in> (parents (mem v))\<^sup>*" for x
      unfolding abs st(3) using that n by (intro collect_garbage_keeps [of x n]) simp_all
    then have "hash_id n h = hash_id n (mem v)" using loc unfolding hash_local_def by blast
    with st(4) [OF that] show ?thesis by simp
  qed
  then have "map (\<lambda>n. (hash_id n h, n)) (btree_values to) = to"
    by (auto simp: btree_values_def intro!: map_idI)
  with btree_collect_sorted [of "[]" to] st(2) show ?thesis by (simp add: btree_ok_def)
qed

lemma recv_finish_copy:
  fixes v :: "('n, 'e, 'k, 's) world"
  assumes src: "world_ok ops w1 S1 W1 R1 V1" "deref (mem w1) obj \<noteq> None" "hash_inj hash_id obj (mem w1)"
    and al: "alloc_ok al" and loc: "hash_local hash_id" and ok: "world_ok ops v (mset objs + S) W R V"
    and start: "recv_start ops hash_id objs v = (to, v1)"
    and det: "det = detach hash_id obj D (mem w1)" "det_forest det to" "btree_get (hash_id obj (mem w1)) to = None"
    and r: "part_of r det" "attaches_to r to"
  shows "\<exists>a v' N g. recv_finish al ops hash_id r to v1 = Some (Inr (a, v')) \<and> world_ok ops v' (add_mset a S) W R V \<and>
    N (hash_id obj (mem w1)) = Some a \<and> (\<forall>i b. btree_get i to = Some b \<longrightarrow> N i = Some b) \<and>
    abs_graph (mem v1) \<subseteq>\<^sub>m g \<and> abs_graph (mem v') = collect_garbage (add_mset a S) g \<and> hash_copy hash_id (mem w1) to N g"
proof -
  note st = recv_start_ok [OF ok start]
  let ?xs = "btree_values to"
  let ?v2 = "v1\<lparr>mem := fold relrc_clone ?xs (mem v1)\<rparr>"
  have "\<forall>a\<in>set ?xs. alive (mem v1) a" using owned_strong [OF st(1)] by simp
  from strong.dup_all_ok [OF st(1) this] have ok2: "world_ok ops ?v2 (mset ?xs + (mset ?xs + S)) W R V"
    by (simp add: relrc_clone_rc_clone fold_mem_clone)
  have abs2: "abs_graph (mem ?v2) = abs_graph (mem v1)" by (simp add: relrc_clone_rc_clone)
  have "btree_ok (all_data det)" using Detached_new_data(1) [OF src, where D = D, folded detach_def] det(1) by simp
  from part_forest [OF r(1) this det(2)] attach_part_copy [OF src al ok2 recv_start_again [OF ok start loc abs2] _ _ r(2) det(3)] r(1) det(1)
  obtain a w' N g where
    1: "attach al ops hash_id r ?xs ?v2 = Some (Inr (a, w'))" "world_ok ops w' (add_mset a (mset ?xs + S)) W R V"
      "N (hash_id obj (mem w1)) = Some a" "\<forall>i b. btree_get i to = Some b \<longrightarrow> N i = Some b"
      "collect_garbage (mset ?xs + (mset ?xs + S)) (abs_graph (mem ?v2)) \<subseteq>\<^sub>m g"
      "abs_graph (mem w') = collect_garbage (add_mset a (mset ?xs + S)) g" "hash_copy hash_id (mem w1) to N g" by blast
  have "world_ok ops w' (mset ?xs + add_mset a S) W R V" using 1(2) by simp
  note v' = drop_all_ok [OF this]
  have "recv_finish al ops hash_id r to v1 = Some (Inr (a, drop_all ops ?xs w'))" using 1(1) by (simp add: recv_finish_def)
  moreover have "abs_graph (mem v1) \<subseteq>\<^sub>m g" using 1(5) collect_garbage_alive [OF ok2] abs2 by simp
  moreover have "abs_graph (mem (drop_all ops ?xs w')) = collect_garbage (add_mset a S) g"
    unfolding v'(2) 1(6) by (intro collect_garbage_collect) auto
  ultimately show ?thesis using v'(1) 1(3,4,7) by blast
qed

end

end
