(* ===== verification/Mpi_Program.thy ===== *)
theory Mpi_Program
  imports Mpi_Transfer Serialization
begin

section \<open>The example program (\<open>src/examples/mpi.rs_disabled\<close>)\<close>

text \<open>
  Two processes: the first makes a diamond of four objects, the second has copies of two of them; the first
  sends the bottom of the diamond to the second. Each process has a memory of its own. The messages it
  prints are the returned counts; \<open>n_procs\<close> is the number of processes. The transfer runs until no process has a
  step, here with the receiver first; a unit of fuel is a step. What the processes drop when \<open>main\<close> returns is left out.
\<close>

definition count_ancestors :: "('n, 'e, 'h::linorder) hash_fun \<Rightarrow> RelRc \<Rightarrow> ('n, 'e) node_heap \<Rightarrow> nat" where
  "count_ancestors hash_id relrc h = n_ancestors (detach hash_id relrc {} h)"

definition example_rank0 :: "allocator \<Rightarrow> RelRc list \<times> (nat, nat) node_heap" where
  "example_rank0 al =
     (let (root1, h1) = relrc_new al 0 [];
          (left_child1, h2) = with_parents al 1 [(root1, 1)] (relrc_clone root1 h1);
          (right_child1, h3) = with_parents al 2 [(root1, 2)] (relrc_clone root1 h2);
          (grandchild1, h4) = with_parents al 3 [(left_child1, 11), (right_child1, 12)]
            (relrc_clone right_child1 (relrc_clone left_child1 h3))
      in ([root1, left_child1, right_child1, grandchild1], h4))"

definition example_rank1 :: "allocator \<Rightarrow> RelRc list \<times> (nat, nat) node_heap" where
  "example_rank1 al =
     (let (root2, h1) = relrc_new al 0 [];
          (left_child2, h2) = with_parents al 1 [(root2, 1)] (relrc_clone root2 h1)
      in ([root2, left_child2], h2))"

fun run_transfer ::
  "nat \<Rightarrow> ('n, 'e, 'q) MPISendRecv \<Rightarrow> ('n, 'e, 'q) MPISendRecv \<Rightarrow> ('h::linorder \<Rightarrow> usize) \<Rightarrow> (usize \<Rightarrow> 'h) \<Rightarrow>
   ('n, 'e, 'h) Detached \<Rightarrow> ('h, RelRc) BTreeMap \<Rightarrow> ('n, 'e, 'h, 'q) mpi_state \<Rightarrow> ('n, 'e, 'h, 'q) mpi_state" where
  "run_transfer 0 dest src to_usize of_usize det attach_to s = s"
| "run_transfer (Suc n) dest src to_usize of_usize det attach_to s =
     (case recv_step src to_usize of_usize attach_to s of
        Some s' \<Rightarrow> run_transfer n dest src to_usize of_usize det attach_to s'
      | None \<Rightarrow>
          (case send_step dest to_usize of_usize det s of
             Some s' \<Rightarrow> run_transfer n dest src to_usize of_usize det attach_to s'
           | None \<Rightarrow> s))"

lemma run_transfer_steps:
  "(mpi_step dest src to_usize of_usize det attach_to)\<^sup>*\<^sup>* s (run_transfer n dest src to_usize of_usize det attach_to s)"
proof (induction n arbitrary: s)
  case (Suc n)
  show ?case
    by (auto split: option.splits intro: converse_rtranclp_into_rtranclp [OF mpi_step.receiver Suc]
        converse_rtranclp_into_rtranclp [OF mpi_step.sender Suc])
qed simp

text \<open>The result of a transfer at the receiver: nothing is returned while a process still waits.\<close>

definition received ::
  "allocator \<Rightarrow> ('k, 's) slotmap_ops \<Rightarrow> ('n, 'e, 'h::linorder) hash_fun \<Rightarrow> ('h, RelRc) BTreeMap \<Rightarrow>
   ('n, 'e, 'h, 'q) mpi_state \<Rightarrow> ('n, 'e, 'k, 's) world \<Rightarrow> (RelRc \<times> ('n, 'e, 'k, 's) world) res" where
  "received al ops hash_id attach_to s w =
     (if snd_pc s \<noteq> SndFinished \<or> rcv_pc s \<noteq> RcvFinished then Inl (Explicit ''the transfer has not ended'')
      else and_then (unwrap (rcv_det s)) (\<lambda>det.
        (case recv_finish al ops hash_id det attach_to w of None \<Rightarrow> Inl (Explicit ''out of fuel'') | Some r \<Rightarrow> r)))"

definition example_main ::
  "allocator \<Rightarrow> ('k, 's) slotmap_ops \<Rightarrow> (nat, nat, usize) hash_fun \<Rightarrow> (nat, nat, 'q) mpi_process \<Rightarrow> 'q \<Rightarrow> nat \<Rightarrow> int \<Rightarrow>
   nat list res" where
  "example_main al ops hash_id P q0 fuel n_procs =
     (if n_procs \<noteq> 2 then Inl (Explicit ''Size of MPI_COMM_WORLD must be 2'')
      else
        (let (relrcs0, h0) = example_rank0 al;
             (relrcs1, h1) = example_rank1 al;
             begin0 = count_ancestors hash_id (last relrcs0) h0;
             begin1 = count_ancestors hash_id (last relrcs1) h1
         in and_then (send_relrc P hash_id Standard (relrcs0 ! 3) h0) (\<lambda>(dest, det).
            and_then (recv_relrc P Standard) (\<lambda>src.
              (let left_child2 = relrcs1 ! 1;
                   w1 = \<lparr>mem = fold relrc_clone relrcs1 (relrc_clone left_child2 h1), regs = []\<rparr>;
                   (attach_to, w2) = recv_start ops hash_id relrcs1 w1;
                   s = run_transfer fuel dest src id id det attach_to (mpi_init q0 q0)
               in and_then (received al ops hash_id attach_to s w2) (\<lambda>(obj, w3).
                    assert (count_ancestors hash_id obj (mem w3) = 4)
                   (assert (length (all_parents obj (mem w3)) = 2)
                   (assert (\<exists>c\<in>set (all_parents obj (mem w3)). relrc_ptr_eq c left_child2)
                     (Inr [begin0, begin1, count_ancestors hash_id (last relrcs0) h0,
                           count_ancestors hash_id obj (mem w3)])))))))))"

text \<open>A hash of the example's objects: one more than the value, so that no hash is 0.\<close>

definition example_hash :: "(nat, nat, usize) hash_fun" where
  "example_hash a h = (case value_at a h of None \<Rightarrow> 0 | Some v \<Rightarrow> word_of_nat (Suc v))"

end
