(* ===== verification/Detached_Examples.thy ===== *)
theory Detached_Examples
  imports Attach_Correct Examples
begin

section \<open>Concrete detached objects\<close>

text \<open>
  The hash of a node in the examples is its address, so different nodes have different hashes.
  The triangle: node 1 has parent 0, node 2 has parents 0 and 1. Detaching 2 from everything takes
  all three nodes.
\<close>

declare build_incoming.simps(2) [simp del] register_outgoing_edges.simps(2) [simp del]

definition addr_hash :: "(nat, nat, nat) hash_fun" where
  "addr_hash a h = a"

lemma addr_hash_inj: "hash_inj addr_hash obj h"
  by (simp add: hash_inj_def addr_hash_def)

definition triangle :: "(nat, nat) node_heap" where
  "triangle = snd (with_parents first_free 12 [(0, 5), (1, 6)]
     (snd (with_parents first_free 11 [(0, 4)] (relrc_clone 0 (snd (relrc_new first_free 10 []))))))"

lemma triangle_eval: "triangle =
  [\<lparr>strong = 2, weak = 1, payload = Some \<lparr>node_value = 10, incoming = [],
       outgoing = [\<lparr>we_index = 0, we_target = 1\<rparr>, \<lparr>we_index = 0, we_target = 2\<rparr>], registry = None\<rparr>\<rparr>,
   \<lparr>strong = 1, weak = 3, payload = Some \<lparr>node_value = 11, incoming = [\<lparr>edge_value = 4, source = 0, target = 1\<rparr>],
       outgoing = [\<lparr>we_index = 1, we_target = 2\<rparr>], registry = None\<rparr>\<rparr>,
   \<lparr>strong = 1, weak = 5, payload = Some \<lparr>node_value = 12,
       incoming = [\<lparr>edge_value = 5, source = 0, target = 2\<rparr>, \<lparr>edge_value = 6, source = 1, target = 2\<rparr>],
       outgoing = [], registry = None\<rparr>\<rparr>]"
  by (simp add: triangle_def eval_simps)

lemma triangle_reachable: "reachable first_free gen_ops (\<lparr>mem = triangle, regs = []\<rparr>, {#2#}, {#}, {#})"
proof -
  let ?h1 = "snd (relrc_new first_free 10 []) :: (nat, nat) node_heap"
  let ?h2 = "snd (with_parents first_free 11 [(0, 4)] (relrc_clone 0 ?h1))"
  have 1: "reachable first_free gen_ops (\<lparr>mem = ?h1, regs = []\<rparr>, {#0#}, {#}, {#})"
    using reachable_new [OF reachable_start, where v = 10 and al = first_free and a = 0 and h = ?h1]
    by (simp add: eval_simps)
  have 2: "reachable first_free gen_ops (\<lparr>mem = relrc_clone 0 ?h1, regs = []\<rparr>, mset (map fst [(0, 4 :: nat)]) + {#0#}, {#}, {#})"
    using reachable_clone [OF 1, where a = 0] by (simp add: eval_simps)
  have "with_parents first_free 11 [(0, 4)] (relrc_clone 0 ?h1) = (1, ?h2)" by (simp add: eval_simps)
  with reachable_with_parents [OF 2, where v = 11 and a = 1 and h = ?h2]
  have 3: "reachable first_free gen_ops (\<lparr>mem = ?h2, regs = []\<rparr>, mset (map fst [(0, 5 :: nat), (1, 6)]) + {#}, {#}, {#})"
    by (simp add: add_mset_commute)
  have "with_parents first_free 12 [(0, 5), (1, 6)] ?h2 = (2, triangle)" by (simp add: triangle_def) (simp add: eval_simps)
  with reachable_with_parents [OF 3, where v = 12 and a = 2 and h = triangle] show ?thesis by simp
qed

lemmas detach_eval = detach_def Detached_new_def ancestors_upto_def ancestors_upto_loop.simps(2) btree_contains_key_def
  btree_get_def btree_insert_def addr_hash_def all_parents_def all_incoming_def value_at_def map_filter_simps
  DetachedInnerData_new_def

lemma triangle_detached: "detach addr_hash 2 {} triangle =
  \<lparr>current = 2, all_data = [(0, \<lparr>det_value = 10, det_incoming = []\<rparr>), (1, \<lparr>det_value = 11, det_incoming = [(0, 4)]\<rparr>),
     (2, \<lparr>det_value = 12, det_incoming = [(0, 5), (1, 6)]\<rparr>)]\<rparr>"
  by (simp add: detach_eval triangle_eval cell_eval)

lemma triangle_panics:
  "attach first_free gen_ops addr_hash (detach addr_hash 2 {} triangle) [] \<lparr>mem = triangle, regs = []\<rparr> = Some (Inl Unwrap)"
  unfolding triangle_detached
  by (simp add: attach_def drop_all_def attach_fuel_def post_order_for_each_def btree_get_def
      btree_values_def det_parents_def eval_nat_numeral attach_successors_def attach_node_def find_parent_def btree_contains_key_def)

lemma triangle_ok: "world_ok gen_ops \<lparr>mem = triangle, regs = []\<rparr> {#2#} {#} {#} {#}"
  using reachable_ok [OF gen.slot_map_axioms first_free_ok triangle_reachable] by simp

lemma triangle_clone_ok: "world_ok gen_ops \<lparr>mem = relrc_clone 0 triangle, regs = []\<rparr> {#0, 2#} {#} {#} {#}"
  using reachable_ok [OF gen.slot_map_axioms first_free_ok reachable_clone [OF triangle_reachable, where a = 0]]
  by (simp add: triangle_eval cell_eval)

text \<open>Detached from node 0, the triangle is a chain, which attaches to node 0.\<close>

lemma triangle_above:
  "detach addr_hash 2 {0} triangle = \<lparr>current = 2, all_data = [(1, \<lparr>det_value = 11, det_incoming = [(0, 4)]\<rparr>),
     (2, \<lparr>det_value = 12, det_incoming = [(0, 5), (1, 6)]\<rparr>)]\<rparr>"
  "det_forest (detach addr_hash 2 {0} triangle) [(0, 0)]"
  "attaches_to (detach addr_hash 2 {0} triangle) [(0, 0)]"
  "btree_get (addr_hash 2 h) [(0, a)] = None"
proof -
  show 1: "detach addr_hash 2 {0} triangle = \<lparr>current = 2, all_data = [(1, \<lparr>det_value = 11, det_incoming = [(0, 4)]\<rparr>),
     (2, \<lparr>det_value = 12, det_incoming = [(0, 5), (1, 6)]\<rparr>)]\<rparr>"
    by (simp add: detach_eval triangle_eval cell_eval)
  show "det_forest (detach addr_hash 2 {0} triangle) [(0, 0)]"
    by (simp add: 1 det_forest_def btree_contains_key_def btree_get_def btree_values_def det_parents_def)
  show "attaches_to (detach addr_hash 2 {0} triangle) [(0, 0)]"
    by (simp add: 1 attaches_to_iff btree_contains_key_def btree_get_def btree_values_def det_parents_def)
qed (simp add: btree_get_def addr_hash_def)

end
