(* ===== verification/Mpi_Examples.thy ===== *)
theory Mpi_Examples
  imports Mpi_Transfer Detached_Examples
begin

section \<open>Concrete transfers\<close>

text \<open>
  Hashes that are machine words: the address plus \<open>k\<close>. With \<open>k = 1\<close> no hash is the word 0; with \<open>k = 0\<close> that of the first
  node is.
\<close>

definition word_hash :: "nat \<Rightarrow> (nat, nat, usize) hash_fun" where
  "word_hash k a h = word_of_nat (a + k)"

lemma triangle_live:
  assumes "deref triangle a \<noteq> None"
  shows "a = 0 \<or> a = 1 \<or> a = 2"
proof -
  have "a < 3" using assms by (simp add: box_def free_box_def triangle_eval split: if_splits)
  then show ?thesis by linarith
qed

lemma triangle_ancestor:
  assumes "(a, obj) \<in> (parents triangle)\<^sup>*" "deref triangle obj \<noteq> None"
  shows "a = 0 \<or> a = 1 \<or> a = 2"
proof -
  have "\<forall>a. alive triangle a \<longleftrightarrow> deref triangle a \<noteq> None" using alive_iff_deref [OF world_okD(5) [OF triangle_ok]] by simp
  with parent_alive [OF triangle_ok, of a obj] assms have "deref triangle a \<noteq> None" by simp
  then show ?thesis by (rule triangle_live)
qed

lemma word_hash_inj:
  assumes "deref triangle obj \<noteq> None"
  shows "hash_inj (word_hash k) obj triangle"
  unfolding hash_inj_def
proof (rule inj_onI, unfold mem_Collect_eq)
  fix x y assume eq: "word_hash k x triangle = word_hash k y triangle" and "(x, obj) \<in> (parents triangle)\<^sup>*" "(y, obj) \<in> (parents triangle)\<^sup>*"
  from this(2,3) [THEN triangle_ancestor, OF assms] eq show "x = y" unfolding word_hash_def by (elim disjE) simp_all
qed

lemma word_hash_nonzero:
  assumes "deref triangle obj \<noteq> None" "(a, obj) \<in> (parents triangle)\<^sup>*"
  shows "word_hash 1 a triangle \<noteq> 0"
  using triangle_ancestor [OF assms(2,1)] unfolding word_hash_def by (elim disjE) simp_all

text \<open>
  The bottom of the triangle between libraries with buffers for five packets, which is what its objects need, one in each mode
  for sending.
\<close>

lemma triangle_object: "deref triangle 2 \<noteq> None" "deref triangle 1 \<noteq> None"
  by (simp_all add: triangle_eval cell_eval)

lemma triangle_room: "room_for (detach (word_hash 0) 2 {} triangle) 5" "room_for (detach (word_hash 1) 2 {} triangle) 5"
  by (simp_all add: room_for_def detach_eval triangle_eval word_hash_def cell_eval btree_values_def)

lemma triangle_transfer:
  assumes "room_for (detach (word_hash k) 2 {} triangle) 5"
  shows "mpi_transfer (MPIBufferedSendRecv (bounded_process 5)) (MPIStandardSendRecv (bounded_process 5)) id 5 id id
    (detach (word_hash k) 2 {} triangle)"
  by (rule relrc_transfer [OF triangle_ok, where relrc = 2 and hash_id = "word_hash k" and mode = Buffered and mode' = Standard])
    (use assms word_hash_inj [OF triangle_object(1), of k] bounded_lib.mpi_bounded_axioms in
      \<open>simp_all add: send_relrc_async_def recv_relrc_async_def\<close>)

interpretation zero: mpi_transfer "MPIBufferedSendRecv (bounded_process 5)" "MPIStandardSendRecv (bounded_process 5)" id 5 id id
  "detach (word_hash 0) 2 {} triangle" "[]"
  by (rule triangle_transfer [OF triangle_room(1)])

text \<open>The middle node of the triangle, which has one parent, held by the program.\<close>

abbreviation chain_world :: ex_world where
  "chain_world \<equiv> \<lparr>mem = rc_clone 1 triangle, regs = []\<rparr>"

lemma chain_world_ok: "world_ok gen_ops chain_world {#1, 2#} {#} {#} {#}"
proof -
  have "alive triangle 1" by (simp add: triangle_eval cell_eval)
  with clone_ok [OF triangle_ok] show ?thesis by simp
qed

lemma chain_hash: "hash_inj (word_hash 1) 1 (rc_clone 1 triangle)" "hash_local (word_hash k)"
  "(a, 1) \<in> (parents (rc_clone 1 triangle))\<^sup>* \<longrightarrow> word_hash 1 a (rc_clone 1 triangle) \<noteq> 0"
proof -
  have "word_hash k a h = word_hash k a h'" for k a h h' by (simp add: word_hash_def)
  then show "hash_inj (word_hash 1) 1 (rc_clone 1 triangle)" "hash_local (word_hash k)"
    "(a, 1) \<in> (parents (rc_clone 1 triangle))\<^sup>* \<longrightarrow> word_hash 1 a (rc_clone 1 triangle) \<noteq> 0"
    using word_hash_inj [OF triangle_object(2), of 1] word_hash_nonzero [OF triangle_object(2), of a]
    by (auto simp: hash_inj_def hash_local_def heap_simps word_hash_def)
qed

lemma chain_det: "detach (word_hash 1) 1 {} (rc_clone 1 triangle) = \<lparr>current = 2, all_data =
    [(1, \<lparr>det_value = 10, det_incoming = []\<rparr>), (2, \<lparr>det_value = 11, det_incoming = [(1, 4)]\<rparr>)]\<rparr>"
  by (simp add: detach_eval triangle_eval word_hash_def heap_simps cell_eval)

lemma chain_forest: "det_forest (detach (word_hash 1) 1 {} (rc_clone 1 triangle)) []"
  and chain_room: "room_for (detach (word_hash 1) 1 {} (rc_clone 1 triangle)) 4"
  unfolding chain_det
  by (simp_all add: det_forest_def room_for_def btree_contains_key_def btree_get_def btree_values_def det_parents_def)

lemma chain_transfer: "mpi_transfer (MPIStandardSendRecv (bounded_process 4)) (MPIAsyncSendRecv (bounded_process 4)) id 4 id id
    (detach (word_hash 1) 1 {} (rc_clone 1 triangle))"
  by (rule relrc_transfer [OF chain_world_ok, where relrc = 1 and hash_id = "word_hash 1" and mode = Standard and mode' = Async])
    (use chain_hash(1) chain_room bounded_lib.mpi_bounded_axioms in \<open>simp_all add: send_relrc_async_def recv_relrc_async_def\<close>)

interpretation chain: mpi_transfer "MPIStandardSendRecv (bounded_process 4)" "MPIAsyncSendRecv (bounded_process 4)" id 4 id id
  "detach (word_hash 1) 1 {} (rc_clone 1 triangle)" "[]"
  by (rule chain_transfer)

end
