(* ===== verification/Test_Results.thy ===== *)
theory Test_Results
  imports Unit_Tests Mpi_Program Mpi_Examples
begin

section \<open>The outcomes of the unit tests\<close>

text \<open>
  The tests run on the allocator that reuses the first free cell and on generational keys. The simplifier
  runs them: the rules \<open>run_simps\<close> carry the flags, which are all 0 between calls, and the equations below
  the memory, which is a list of cells at every point.
\<close>

declare build_incoming.simps(2) [simp del] register_outgoing_edges.simps(2) [simp del]

named_theorems test_eval \<open>evaluation of the calls of the unit tests\<close>

lemmas program_eval [test_eval] =
  run_test_def asserts_def unwrap_b_def relrc_clone_b_def fueled_def relrc_values_def run_simps eval_simps Let_def
  inner_edge_value_def inner_edge_downgrade_def incoming_at_def n_incoming_def value_at_def all_parents_def all_incoming_def
  all_ancestors_def collect_ancestors_simps relrc_drop_def relrc_ptr_eq_def drop_eval_simps nth_append

lemmas tests_registry_eval [test_eval] =
  add_node_b_def registry_get_b_def try_unwrap_registry_def registry_eval_simps registry_get_def relweak_upgrade_def
  weak_upgrade_def contains_id_def registry_len_def registry_from_iter_def get_id_or_insert_def registry_contains_def
  slotmap_iter_def slotmap_keys_def slotmap_get_def slotmap_remove_def slotmap_retain_def slotmap_map_def
  slotmap_len_def gen_free_key_def from_slotmap_def rc_registry_drop_def

lemmas tests_history_eval [test_eval] =
  history_default_def history_new_def history_from_nodes_def history_with_registry_def history_clone_def history_drop_def
  insert_ancestors_b_idle insert_ancestors_def insert_node_def hg_contains_def hg_contains_id_def get_node_id_def hg_get_id_def
  get_node_def get_edge_def contains_edge_def edge_source_def outgoing_edges_def all_outgoing_def all_outgoing_weak_ref_def
  weak_edge_upgrade_def all_node_ids_def exactly_one_def sec_new_def sec_contains_key_def sec_insert_def gen_sec_insert_def
  sec_get_def sec_retain_def sec_values_def map_filter_simps

lemmas tests_serial_eval [test_eval] =
  assert_snapshot_def assert_def print_graph_def print_relrc_def print_registry_def print_inner_data_def print_pair_def print_unit_def
  gen_printer_def yaml_key_def yaml_empty_def yaml_node_def enumerate_eq_zip
  history_to_serialized_b_idle history_to_serialized_def relrc_to_serialized_b_idle relrc_to_serialized_def
  slotmap_map_res_def serialize_inner_data_def registry_to_serialized_def slot_drops_def
  history_from_serialized_b_idle history_from_serialized_def relrc_from_serialized_b_idle relrc_from_serialized_def
  registry_from_serialized_def deserialize_nodes_def make_node_def clone_parents_def history_clone_into_b_def hg_registry_len_b_def

subsection \<open>Registries and nodes\<close>

lemma test_register_and_get_passes: "run_test (test_register_and_get first_free gen_ops) = Inr ()"
  by (simp add: test_register_and_get_def test_eval)

lemma test_duplicate_registration_passes: "run_test (test_duplicate_registration first_free gen_ops) = Inr ()"
  by (simp add: test_duplicate_registration_def test_eval)

lemma test_get_id_passes: "run_test (test_get_id first_free gen_ops) = Inr ()"
  by (simp add: test_get_id_def test_eval)

lemma test_cleanup_dead_references_passes: "run_test (test_cleanup_dead_references first_free gen_ops) = Inr ()"
  by (simp add: test_cleanup_dead_references_def test_eval)

subsection \<open>History graphs\<close>

lemma test_history_graph_passes: "run_test (test_history_graph first_free gen_ops) = Inr ()"
  by (simp add: test_history_graph_def test_eval)

lemma test_history_graph_serialization_passes:
  "run_test (test_history_graph_serialization first_free gen_ops gen_printer) = Inr ()"
  by (simp add: test_history_graph_serialization_def snap_history_graph_serialization_def test_eval)

subsection \<open>Serialisation\<close>

text \<open>
  Three snapshots print the slots of the registry without the field \<open>nodes\<close> of \<open>SerializedRegistry\<close>, so that the tests that
  compare with them fail. One of them also numbers the nodes from the grandchild up, while \<open>insert_ancestors\<close> registers parents
  first, so that the grandchild has the last id.
\<close>

lemma test_relrc_serialization_fails:
  "run_test (test_relrc_serialization first_free gen_ops gen_printer) = Inl (Explicit ''snapshot assertion'')"
  by code_simp

lemma test_relrc_with_multiple_parents_serialization_fails:
  "run_test (test_relrc_with_multiple_parents_serialization first_free gen_ops gen_printer) = Inl (Explicit ''snapshot assertion'')"
  by code_simp

lemma test_relrc_with_parents_serialization_fails:
  "run_test (test_relrc_with_parents_serialization first_free gen_ops gen_printer) = Inl (Explicit ''snapshot assertion'')"
  by code_simp

text \<open>This test looks up the original nodes in the registry of the copy, which does not know them.\<close>

lemma test_history_graph_serialization2_fails:
  "run_test (test_history_graph_serialization2 first_free gen_ops gen_printer file2) = Inl Unwrap"
  by (simp add: test_history_graph_serialization2_def snap_two_parents_two_children_def test_eval)

subsection \<open>Detached objects and resolvers\<close>

lemmas attach_eval = attach_act_def detach_def Detached_new_def ancestors_upto_def ancestors_upto_loop.simps
  btree_contains_key_def btree_get_def btree_insert_def btree_remove_def btree_values_def DetachedInnerData_new_def
  child_count_def all_children_b_def edge_into_target_def attach_def drop_all_def post_order_for_each_def det_parents_def
  attach_successors_def attach_node_def find_parent_def

lemma test_detach_and_attach_diamond_passes:
  "run_test (test_detach_and_attach_diamond first_free gen_ops value_hash) = Inr ()"
  by (simp add: test_detach_and_attach_diamond_def test_eval attach_eval attach_fuel_def value_hash_def eval_nat_numeral)

lemma resolver_tests_pass: "test_resolver_equivalence = Inr ()" "test_resolver_edge_update = Inr ()"
  by (simp_all add: test_resolver_equivalence_def test_resolver_edge_update_def assert_def)

subsection \<open>The example program\<close>

text \<open>The two memories, the detached object, the state in which the transfer ends, and the end of the receiver.\<close>

lemma example_ranks:
  "example_rank0 first_free = ([0, 1, 2, 3],
    [\<lparr>strong = 3, weak = 1, payload = Some \<lparr>node_value = 0, incoming = [],
         outgoing = [\<lparr>we_index = 0, we_target = 1\<rparr>, \<lparr>we_index = 0, we_target = 2\<rparr>], registry = None\<rparr>\<rparr>,
     \<lparr>strong = 2, weak = 3, payload = Some \<lparr>node_value = 1, incoming = [\<lparr>edge_value = 1, source = 0, target = 1\<rparr>],
         outgoing = [\<lparr>we_index = 0, we_target = 3\<rparr>], registry = None\<rparr>\<rparr>,
     \<lparr>strong = 2, weak = 3, payload = Some \<lparr>node_value = 2, incoming = [\<lparr>edge_value = 2, source = 0, target = 2\<rparr>],
         outgoing = [\<lparr>we_index = 1, we_target = 3\<rparr>], registry = None\<rparr>\<rparr>,
     \<lparr>strong = 1, weak = 5, payload = Some \<lparr>node_value = 3,
         incoming = [\<lparr>edge_value = 11, source = 1, target = 3\<rparr>, \<lparr>edge_value = 12, source = 2, target = 3\<rparr>],
         outgoing = [], registry = None\<rparr>\<rparr>])"
  "example_rank1 first_free = ([0, 1],
    [\<lparr>strong = 2, weak = 1, payload = Some \<lparr>node_value = 0, incoming = [],
         outgoing = [\<lparr>we_index = 0, we_target = 1\<rparr>], registry = None\<rparr>\<rparr>,
     \<lparr>strong = 1, weak = 3, payload = Some \<lparr>node_value = 1, incoming = [\<lparr>edge_value = 1, source = 0, target = 1\<rparr>],
         outgoing = [], registry = None\<rparr>\<rparr>])"
  by (simp_all add: example_rank0_def example_rank1_def eval_simps Let_def)

definition example_det :: "(nat, nat, usize) Detached" where
  "example_det = \<lparr>current = 4, all_data =
    [(1, \<lparr>det_value = 0, det_incoming = []\<rparr>), (2, \<lparr>det_value = 1, det_incoming = [(1, 1)]\<rparr>),
     (3, \<lparr>det_value = 2, det_incoming = [(1, 2)]\<rparr>), (4, \<lparr>det_value = 3, det_incoming = [(2, 11), (3, 12)]\<rparr>)]\<rparr>"

lemma example_detached:
  "detach example_hash 3 {} (snd (example_rank0 first_free)) = example_det"
  "n_ancestors (detach example_hash 1 {} (snd (example_rank1 first_free))) = 2"
  by (simp_all add: example_ranks example_det_def n_ancestors_def detach_eval example_hash_def cell_eval)

definition example_received :: "(nat, nat, usize) Detached" where
  "example_received = \<lparr>current = 4, all_data =
    [(3, \<lparr>det_value = 2, det_incoming = [(1, 2)]\<rparr>), (4, \<lparr>det_value = 3, det_incoming = [(2, 11), (3, 12)]\<rparr>)]\<rparr>"

lemma example_transfer:
  "run_transfer 29 list_sr list_sr id id example_det [(1, 0), (2, 1)] (mpi_init [] []) =
    \<lparr>snd_pc = SndFinished, rcv_pc = RcvFinished, rcv_det = Some example_received, to_rcv = [], to_snd = []\<rparr>"
  by code_simp

lemma example_received_simps:
  "current example_received = 4"
  "all_data example_received =
    [(3, \<lparr>det_value = 2, det_incoming = [(1, 2)]\<rparr>), (4, \<lparr>det_value = 3, det_incoming = [(2, 11), (3, 12)]\<rparr>)]"
  "attach_fuel example_received = Suc (Suc (Suc (Suc (Suc (Suc (Suc (Suc (Suc 0))))))))"
  by (simp_all add: example_received_def attach_fuel_def btree_values_def det_parents_def)

definition example_receiver :: "(nat, nat, gen_key, gen_slots) world" where
  "example_receiver = \<lparr>mem = fold relrc_clone [0, 1] (relrc_clone 1 (snd (example_rank1 first_free))), regs = []\<rparr>"

lemma example_receiver_eval: "example_receiver =
  \<lparr>mem = [\<lparr>strong = 3, weak = 1, payload = Some \<lparr>node_value = 0, incoming = [],
         outgoing = [\<lparr>we_index = 0, we_target = 1\<rparr>], registry = None\<rparr>\<rparr>,
     \<lparr>strong = 3, weak = 3, payload = Some \<lparr>node_value = 1, incoming = [\<lparr>edge_value = 1, source = 0, target = 1\<rparr>],
         outgoing = [], registry = None\<rparr>\<rparr>], regs = []\<rparr>"
  by (simp add: example_receiver_def example_ranks eval_simps)

definition example_end :: "(nat, nat, gen_key, gen_slots) world" where
  "example_end = \<lparr>mem =
    [\<lparr>strong = 3, weak = 1, payload = Some \<lparr>node_value = 0, incoming = [],
         outgoing = [\<lparr>we_index = 0, we_target = 1\<rparr>, \<lparr>we_index = 0, we_target = 2\<rparr>], registry = None\<rparr>\<rparr>,
     \<lparr>strong = 3, weak = 3, payload = Some \<lparr>node_value = 1, incoming = [\<lparr>edge_value = 1, source = 0, target = 1\<rparr>],
         outgoing = [\<lparr>we_index = 0, we_target = 3\<rparr>], registry = None\<rparr>\<rparr>,
     \<lparr>strong = 1, weak = 3, payload = Some \<lparr>node_value = 2, incoming = [\<lparr>edge_value = 2, source = 0, target = 2\<rparr>],
         outgoing = [\<lparr>we_index = 1, we_target = 3\<rparr>], registry = None\<rparr>\<rparr>,
     \<lparr>strong = 1, weak = 5, payload = Some \<lparr>node_value = 3,
         incoming = [\<lparr>edge_value = 11, source = 1, target = 3\<rparr>, \<lparr>edge_value = 12, source = 2, target = 3\<rparr>],
         outgoing = [], registry = None\<rparr>\<rparr>], regs = []\<rparr>"

lemma example_finish:
  "recv_finish first_free gen_ops example_hash example_received [(1, 0), (2, 1)] example_receiver = Some (Inr (3, example_end))"
  by (simp add: example_end_def)
    (simp add: example_received_simps example_receiver_eval recv_finish_def attach_eval program_eval example_hash_def)

lemma example_end_reads:
  "detach example_hash 3 {} (mem example_end) = example_det" "all_parents 3 (mem example_end) = [1, 2]"
  by (simp_all add: example_end_def example_det_def detach_eval example_hash_def cell_eval)

lemma example_start:
  "recv_start gen_ops example_hash [0, 1] example_receiver = ([(1, 0), (2, 1)], example_receiver)"
  "\<lparr>mem = relrc_clone 1 (relrc_clone 0 (relrc_clone 1 (snd (example_rank1 first_free)))), regs = []\<rparr> = example_receiver"
  "fst (example_rank0 first_free) = [0, 1, 2, 3]" "fst (example_rank1 first_free) = [0, 1]" "n_ancestors example_det = 4"
  by (simp_all add: recv_start_def example_receiver_eval example_hash_def value_at_def cell_eval btree_insert_def
      btree_get_def drop_all_def example_receiver_def example_ranks example_det_def n_ancestors_def eval_simps)

lemmas example_eval = example_start example_detached example_transfer example_finish example_end_reads

lemma example_runs: "example_main first_free gen_ops example_hash list_process [] 29 2 = Inr [4, 2, 4, 4]"
  by (simp add: example_main_def case_prod_unfold Let_def count_ancestors_def send_relrc_def send_relrc_async_def
      recv_relrc_def recv_relrc_async_def received_def assert_def relrc_ptr_eq_def example_eval del: One_nat_def)

end
