(* ===== verification/Deserialize_Ends.thy ===== *)
theory Deserialize_Ends
  imports Serialization
begin

section \<open>Reading always ends\<close>

text \<open>
  Every call of \<open>deserialize_node\<close> removes an entry of the slot map or panics, so that the recursion
  is never deeper than the number of entries, whatever the input is: unknown or cyclic parent
  ids end in a panic.
\<close>

definition removes :: "('k, 's) slotmap_ops \<Rightarrow> nat \<Rightarrow> ('n, 'e, 'k, 's) deser_state res option \<Rightarrow> bool" where
  "removes ops b x \<longleftrightarrow> (case x of None \<Rightarrow> False | Some (Inl p) \<Rightarrow> True | Some (Inr st) \<Rightarrow> slotmap_len ops (fst st) \<le> b)"

lemma removes_simps [simp]:
  "\<not> removes ops b None" "removes ops b (Some (Inl p))" "removes ops b (Some (Inr st)) \<longleftrightarrow> slotmap_len ops (fst st) \<le> b"
  by (simp_all add: removes_def)

lemma removes_cases:
  assumes "removes ops b x"
  obtains p where "x = Some (Inl p)" | m all w where "x = Some (Inr (m, all, w))" "slotmap_len ops m \<le> b"
  using assms by (cases x rule: option.exhaust [case_product sum.exhaust]) (auto simp: removes_def split: sum.splits)

lemma make_node_slots: "make_node al ops nid d (m, all, w) = Inr st \<Longrightarrow> fst st = m"
  by (auto simp: make_node_def and_then_def Let_def split: sum.splits prod.splits)

lemma make_node_removes: "slotmap_len ops m \<le> b \<Longrightarrow> removes ops b (Some (make_node al ops nid d (m, all, w)))"
  using make_node_slots [of al ops nid d m all w] by (cases "make_node al ops nid d (m, all, w)") auto

context slot_map
begin

lemma remove_len:
  assumes "slotmap_remove ops k m = (Some v, m')"
  shows "slotmap_len ops m' < slotmap_len ops m"
proof -
  from assms have k: "k \<in> set (slotmap_keys ops m)" and "m' = \<lparr>slots = sm_free_key ops k (slots m), vals = (vals m)(k := None)\<rparr>"
    by (auto simp: slotmap_remove_def split: if_splits)
  then have "set (slotmap_keys ops m') = set (slotmap_keys ops m) - {k}"
    using free_keys [of k "slots m"] by (simp add: slotmap_keys_def)
  then have "card (set (slotmap_keys ops m')) < card (set (slotmap_keys ops m))" by (metis k List.finite_set card_Diff1_less)
  then show ?thesis by (simp add: slotmap_len_def distinct_card)
qed

lemma deserialize_ends:
  fixes w :: "('n, 'e, 'k, 's) world"
  shows "slotmap_len ops m < n \<Longrightarrow> removes ops (slotmap_len ops m - 1) (deserialize_node n al ops k (m, all, w))"
    and "slotmap_len ops m < n \<Longrightarrow> removes ops (slotmap_len ops m) (deserialize_parents n al ops ps (m, all, w))"
proof (induction n arbitrary: m all w k ps)
  case (Suc n)
  have node: "removes ops (slotmap_len ops m - 1) (deserialize_node (Suc n) al ops k (m, all, w))"
    if "slotmap_len ops m < Suc n" for m all k and w :: "('n, 'e, 'k, 's) world"
  proof (cases "slotmap_remove ops k m")
    case (Pair r m')
    show ?thesis
    proof (cases r)
      case (Some d)
      with Pair have less: "slotmap_len ops m' < slotmap_len ops m" by (intro remove_len) simp
      with that have "removes ops (slotmap_len ops m') (deserialize_parents n al ops (ser_incoming d) (m', all, w))"
        by (intro Suc.IH) simp
      then show ?thesis
      proof (cases rule: removes_cases)
        case (2 m1 all1 w1)
        with less have "slotmap_len ops m1 \<le> slotmap_len ops m - 1" by simp
        with 2(1) Pair Some show ?thesis by (simp add: make_node_removes)
      qed (use Pair Some in simp)
    qed (use Pair in simp)
  qed
  have "removes ops (slotmap_len ops m) (deserialize_parents (Suc n) al ops ps (m, all, w))"
    if "slotmap_len ops m < Suc n" for m all ps and w :: "('n, 'e, 'k, 's) world"
    using that
  proof (induction ps arbitrary: m all w)
    case (Cons p ps)
    obtain i v where p: "p = (i, v)" by fastforce
    from node [OF Cons.prems, of i all w] show ?case
    proof (cases rule: removes_cases)
      case (2 m1 all1 w1)
      then have "removes ops (slotmap_len ops m1) (deserialize_parents (Suc n) al ops ps (m1, all1, w1))"
        using Cons.prems by (intro Cons.IH) simp
      then have "removes ops (slotmap_len ops m) (deserialize_parents (Suc n) al ops ps (m1, all1, w1))"
        using 2(2) by (auto elim!: removes_cases)
      with 2(1) Cons show ?thesis by (simp add: p)
    qed (use Cons p in simp)
  qed simp
  note parents = this
  {
    case 1
    then show ?case by (rule node)
  next
    case 2
    then show ?case by (rule parents)
  }
qed simp_all

lemma deserialize_loop_ends:
  fixes w :: "('n, 'e, 'k, 's) world"
  shows "slotmap_len ops m < n \<Longrightarrow> deserialize_loop n al ops (m, all, w) \<noteq> None"
proof (induction n arbitrary: m all w)
  case (Suc n)
  show ?case
  proof (cases "slotmap_iter ops m")
    case (Cons e es)
    obtain k d where e: "e = (k, d)" by fastforce
    have "slotmap_keys ops m \<noteq> []" using Cons by (auto simp: slotmap_iter_def map_filter_simps)
    then have pos: "0 < slotmap_len ops m" by (simp add: slotmap_len_def)
    have "removes ops (slotmap_len ops m - 1) (deserialize_node (Suc (slotmap_len ops m)) al ops k (m, all, w))"
      by (rule deserialize_ends) simp
    then show ?thesis
    proof (cases rule: removes_cases)
      case (2 m1 all1 w1)
      with pos Suc.prems have "deserialize_loop n al ops (m1, all1, w1) \<noteq> None" by (intro Suc.IH) simp
      with Cons e 2(1) show ?thesis by simp
    qed (use Cons e in simp)
  qed simp
qed simp

lemma from_serialized_ends:
  fixes w :: "('n, 'e, 'k, 's) world"
  shows "registry_from_serialized al ops sr w \<noteq> None"
    and "history_from_serialized al ops sh w \<noteq> None"
    and "relrc_from_serialized al ops s w \<noteq> None"
proof -
  have nodes: "deserialize_nodes al ops m w \<noteq> None" for m and w :: "('n, 'e, 'k, 's) world"
    using deserialize_loop_ends [of m "Suc (slotmap_len ops m)" al sec_new w] by (auto simp: deserialize_nodes_def)
  then have reg: "registry_from_serialized al ops sr w \<noteq> None" for sr and w :: "('n, 'e, 'k, 's) world"
    by (simp add: registry_from_serialized_def Let_def)
  then show "registry_from_serialized al ops sr w \<noteq> None" .
  from reg have hist: "history_from_serialized al ops sh w \<noteq> None" for sh and w :: "('n, 'e, 'k, 's) world"
    by (simp add: history_from_serialized_def)
  then show "history_from_serialized al ops sh w \<noteq> None" .
  from hist show "relrc_from_serialized al ops s w \<noteq> None" by (simp add: relrc_from_serialized_def)
qed

end

end
