(* ===== verification/Petgraph.thy ===== *)
theory Petgraph
  imports History_Queries
begin

section \<open>The \<open>petgraph\<close> traits (\<open>src/src/petgraph.rs\<close>, \<open>src/src/petgraph/edge_ref.rs\<close>)\<close>

text \<open>
  History graphs as graphs of the crate \<open>petgraph\<close>: neighbours, edge references and visitor maps.
  The iterators are the lists of what they yield; a panic inside an iterator is the panic of
  the call. An \<open>EdgeRef\<close> borrows the graph: the record keeps the graph's value, and its methods
  read the world at the time of the call.
\<close>

datatype Direction = Outgoing | Incoming

record 'k EdgeRef =
  er_id :: "'k EdgeId"
  er_history :: "'k HistoryGraph"

definition EdgeRef_new :: "'k EdgeId \<Rightarrow> 'k HistoryGraph \<Rightarrow> 'k EdgeRef" where
  "EdgeRef_new e g = \<lparr>er_id = e, er_history = g\<rparr>"

definition edge_data :: "'k EdgeRef \<Rightarrow> ('n, 'e, 'k, 's) world \<Rightarrow> 'e InnerEdgeData res" where
  "edge_data r w = expect ''edge is valid'' (get_edge (er_history r) (er_id r) w)"

definition edge_ref_source :: "'k EdgeRef \<Rightarrow> ('n, 'e, 'k, 's) world \<Rightarrow> 'k res" where
  "edge_ref_source r w = expect ''edge is valid'' (edge_source (er_history r) (er_id r) w)"

definition edge_ref_target :: "'k EdgeRef \<Rightarrow> ('n, 'e, 'k, 's) world \<Rightarrow> 'k res" where
  "edge_ref_target r w = expect ''edge is valid'' (edge_target (er_history r) (er_id r) w)"

definition edge_ref_weight :: "'k EdgeRef \<Rightarrow> ('n, 'e, 'k, 's) world \<Rightarrow> 'e res" where
  "edge_ref_weight r w = and_then (edge_data r w) (\<lambda>e. Inr (edge_value e))"

definition edge_ref_id :: "'k EdgeRef \<Rightarrow> 'k EdgeId" where
  "edge_ref_id r = er_id r"

subsection \<open>Traversal\<close>

definition neighbors_directed ::
  "('k, 's) slotmap_ops \<Rightarrow> 'k HistoryGraph \<Rightarrow> 'k \<Rightarrow> Direction \<Rightarrow> ('n, 'e, 'k, 's) world \<Rightarrow>
   ('k list \<times> ('n, 'e, 'k, 's) world) res" where
  "neighbors_directed ops g nid d w =
     (case d of
        Outgoing \<Rightarrow> (let (es, w') = outgoing_edges ops g nid w in Inr (map eid_target es, w'))
      | Incoming \<Rightarrow>
          and_then (map_res (\<lambda>e. expect ''edge is valid'' (edge_source g e w)) (incoming_edges g nid w))
            (\<lambda>ks. Inr (ks, w)))"

definition neighbors ::
  "('k, 's) slotmap_ops \<Rightarrow> 'k HistoryGraph \<Rightarrow> 'k \<Rightarrow> ('n, 'e, 'k, 's) world \<Rightarrow>
   ('k list \<times> ('n, 'e, 'k, 's) world) res" where
  "neighbors ops g n w = neighbors_directed ops g n Outgoing w"

definition edge_references :: "'k HistoryGraph \<Rightarrow> ('n, 'e, 'k, 's) world \<Rightarrow> 'k EdgeRef list" where
  "edge_references g w =
     concat (map (\<lambda>nid. map (\<lambda>e. EdgeRef_new e g) (incoming_edges g nid w)) (all_node_ids g))"

definition node_identifiers :: "'k HistoryGraph \<Rightarrow> 'k list" where
  "node_identifiers g = all_node_ids g"

definition edges ::
  "('k, 's) slotmap_ops \<Rightarrow> 'k HistoryGraph \<Rightarrow> 'k \<Rightarrow> ('n, 'e, 'k, 's) world \<Rightarrow>
   'k EdgeRef list \<times> ('n, 'e, 'k, 's) world" where
  "edges ops g nid w =
     (let (es, w') = outgoing_edges ops g nid w in (map (\<lambda>e. EdgeRef_new e g) es, w'))"

definition edges_directed ::
  "('k, 's) slotmap_ops \<Rightarrow> 'k HistoryGraph \<Rightarrow> 'k \<Rightarrow> Direction \<Rightarrow> ('n, 'e, 'k, 's) world \<Rightarrow>
   'k EdgeRef list \<times> ('n, 'e, 'k, 's) world" where
  "edges_directed ops g nid d w =
     (case d of
        Outgoing \<Rightarrow> (let (es, w') = outgoing_edges ops g nid w in (map (\<lambda>e. EdgeRef_new e g) es, w'))
      | Incoming \<Rightarrow> (map (\<lambda>e. EdgeRef_new e g) (incoming_edges g nid w), w))"

definition visit_map :: "'k set" where
  "visit_map = {}"

definition reset_map :: "'k set \<Rightarrow> 'k set" where
  "reset_map m = {}"

subsection \<open>Agreement with the graph's own queries\<close>

lemma EdgeRefs_iff: "r \<in> (\<lambda>e. EdgeRef_new e g) ` A \<longleftrightarrow> er_history r = g \<and> er_id r \<in> A"
  by (cases r) (auto simp: EdgeRef_new_def)

lemma map_res_expect:
  "(\<And>x. x \<in> set xs \<Longrightarrow> f x \<noteq> None) \<Longrightarrow> map_res (\<lambda>x. expect msg (f x)) xs = Inr (List.map_filter f xs)"
  by (induction xs) (auto simp: map_filter_simps split: option.splits)

lemma edge_ref_reads:
  assumes ok: "world_ok ops w S W R V" and g: "graph_ok g w" and e: "contains_edge g e w"
  shows "\<exists>d k. edge_data (EdgeRef_new e g) w = Inr d \<and> edge_ref_weight (EdgeRef_new e g) w = Inr (edge_value d) \<and>
    edge_ref_source (EdgeRef_new e g) w = Inr k \<and> get_node g k = Some (source d) \<and>
    edge_ref_target (EdgeRef_new e g) w = Inr (eid_target e) \<and> get_node g (eid_target e) = Some (target d)"
proof -
  from e obtain d where d: "get_edge g e w = Some d" by (auto simp: contains_edge_def)
  then obtain a where a: "get_node g (eid_target e) = Some a" "d \<in> set (all_incoming a (mem w))" "hg_contains g (source d) w"
    by (auto simp: get_edge_def incoming_at_def n_incoming_def split: option.splits if_splits)
  have "target d = a" using all_incoming_target [OF ok a(2)] by simp
  moreover obtain k where k: "edge_source g e w = Some k" using e contains_edge_iff [OF ok g] by blast
  moreover from k d have "get_node g k = Some (source d)"
    by (simp add: edge_source_def get_node_id_iff [OF ok g])
  ultimately show ?thesis using d a e
    by (simp add: EdgeRef_new_def edge_data_def edge_ref_weight_def edge_ref_source_def edge_ref_target_def edge_target_def)
qed

context slot_map
begin

lemma neighbors_incoming:
  assumes inv: "hist_inv ops g w S W R V"
  shows "neighbors_directed ops g k Incoming w = Inr (hg_parents g k w, w)"
proof -
  have "edge_source g e w \<noteq> None" if "e \<in> set (incoming_edges g k w)" for e
    using that inv contains_edge_iff [of ops w _ _ _ _ g e] by (auto simp: hist_inv_def incoming_edges_iff)
  then show ?thesis by (simp add: neighbors_directed_def hg_parents_def map_res_expect)
qed

lemma neighbors_outgoing:
  assumes inv: "hist_inv ops g w S W R V"
  shows "neighbors_directed ops g k Outgoing w = Inr (hg_children ops g k w)"
proof -
  obtain es w' where out: "outgoing_edges ops g k w = (es, w')" by fastforce
  have "List.map_filter (\<lambda>e. edge_target g e w') es = map eid_target es"
    by (rule map_filter_all_Some) (rule outgoing_edges_target [OF inv out])
  then show ?thesis by (simp add: neighbors_directed_def hg_children_def out)
qed

lemma contains_edge_node: "contains_edge g e w \<Longrightarrow> eid_target e \<in> set (all_node_ids g)"
  by (auto simp: contains_edge_def get_edge_def get_node_def sec_get_def sec_contains_key_def all_node_ids_def
      split: option.splits if_splits)

lemma edge_references_spec:
  assumes inv: "hist_inv ops g w S W R V"
  shows "distinct (edge_references g w)"
    and "r \<in> set (edge_references g w) \<longleftrightarrow> er_history r = g \<and> contains_edge g (er_id r) w"
proof -
  have keys: "distinct (all_node_ids g)" using inv by (simp add: hist_inv_def graph_ok_def all_node_ids_def)
  have inj: "inj (\<lambda>e. EdgeRef_new e g)" by (simp add: inj_def EdgeRef_new_def)
  have eq: "edge_references g w = map (\<lambda>e. EdgeRef_new e g) (concat (map (\<lambda>k. incoming_edges g k w) (all_node_ids g)))"
    by (simp add: edge_references_def map_concat comp_def)
  have "distinct (concat (map (\<lambda>k. incoming_edges g k w) ks))" if "distinct ks" for ks
    using that by (induction ks) (auto simp: distinct_incoming_edges incoming_edges_iff)
  then show "distinct (edge_references g w)" unfolding eq using keys inj by (simp add: distinct_map inj_on_def inj_def)
  show "r \<in> set (edge_references g w) \<longleftrightarrow> er_history r = g \<and> contains_edge g (er_id r) w"
    unfolding eq set_map EdgeRefs_iff using contains_edge_node by (auto simp: incoming_edges_iff)
qed

text \<open>The three sources of edge references: all edges, those of a source, those of a target.\<close>

lemma edges_directed_spec:
  assumes inv: "hist_inv ops g w S W R V"
  shows "edges_directed ops g k Outgoing w = edges ops g k w"
    and "r \<in> set (fst (edges ops g k w)) \<longleftrightarrow> r \<in> set (edge_references g w) \<and> edge_ref_source r w = Inr k"
    and "r \<in> set (fst (edges_directed ops g k Incoming w)) \<longleftrightarrow> r \<in> set (edge_references g w) \<and> edge_ref_target r w = Inr k"
proof -
  have ok: "world_ok ops w (graph_own g + S) W (add_mset (hg_registry g) R) V" and g: "graph_ok g w"
    using inv by (simp_all add: hist_inv_def)
  show "edges_directed ops g k Outgoing w = edges ops g k w" by (simp add: edges_directed_def edges_def)
  have "r \<in> set (fst (edges ops g k w)) \<longleftrightarrow> er_history r = g \<and> er_id r \<in> set (fst (outgoing_edges ops g k w))"
    by (simp add: edges_def case_prod_unfold Let_def EdgeRefs_iff)
  then show "r \<in> set (fst (edges ops g k w)) \<longleftrightarrow> r \<in> set (edge_references g w) \<and> edge_ref_source r w = Inr k"
    using contains_edge_iff [OF ok g, of "er_id r"]
    by (auto simp: outgoing_edges_iff [OF inv] edge_references_spec(2) [OF inv] edge_ref_source_def)
  have "r \<in> set (fst (edges_directed ops g k Incoming w)) \<longleftrightarrow> er_history r = g \<and> er_id r \<in> set (incoming_edges g k w)"
    by (simp add: edges_directed_def EdgeRefs_iff)
  then show "r \<in> set (fst (edges_directed ops g k Incoming w)) \<longleftrightarrow> r \<in> set (edge_references g w) \<and> edge_ref_target r w = Inr k"
    by (auto simp: incoming_edges_iff edge_references_spec(2) [OF inv] edge_ref_target_def edge_target_def)
qed

end

end
