(* ===== verification/Mpi_Types.thy ===== *)
theory Mpi_Types
  imports Mpi
begin

section \<open>Tags as types of messages\<close>

text \<open>
  The comments in \<open>msg_types.rs\<close> and \<open>send_recv.rs\<close> say that the tags type the communication: the
  message that is received corresponds to the tag that was asked for. A packet is well typed if its
  tag is one of the five, its buffer has elements of the type at which \<open>extract_message\<close> reads
  packets with this tag, and there is one element unless the tag is that of a list. All that \<open>send\<close>
  sends is well typed, and of well-typed channels no reader panics.
\<close>

fun tag_datatype :: "MPIMessageTag \<Rightarrow> mpi_datatype" where
  "tag_datatype TagRelRc = MPIRelRc_datatype"
| "tag_datatype TagNodeWeight = NodeDatatype"
| "tag_datatype TagIncomingEdge = MPIIncomingEdge_datatype"
| "tag_datatype TagEdgeWeight = EdgeDatatype"
| "tag_datatype TagAck = MPIAck_datatype"

definition well_typed :: "('n, 'e) packet \<Rightarrow> bool" where
  "well_typed p \<longleftrightarrow> (case tag_try_from (fst p) of
     None \<Rightarrow> False
   | Some t \<Rightarrow> buffer_datatype (snd p) = tag_datatype t \<and> (t \<noteq> TagIncomingEdge \<longrightarrow> buffer_count (snd p) = 1))"

lemmas datatype_defs = MPIRelRc_datatype_def MPIIncomingEdge_datatype_def MPIAck_datatype_def

lemma well_typed_sent: "well_typed (tag_as_i32 (tag m), send_match to_usize m)"
  by (cases m) (simp_all add: well_typed_def tag_round_trip datatype_defs del: tag_as_i32.simps)

lemma extract_well_typed:
  assumes "well_typed (tag_as_i32 t, b)"
  shows "\<exists>m. extract_message of_usize (tag_as_i32 t, b) = Inr m \<and> tag m = t"
proof -
  have "buffer_datatype b = tag_datatype t" "t \<noteq> TagIncomingEdge \<longrightarrow> buffer_count b = 1"
    using assms by (simp_all add: well_typed_def tag_round_trip)
  then show ?thesis
    by (cases t; cases b) (auto simp: extract_message_def tag_round_trip datatype_defs length_Suc_conv
        relrc_into_message_def edges_into_message_def ack_into_message_def simp del: tag_as_i32.simps)
qed

lemma tag_iff:
  "tag m = TagRelRc \<longleftrightarrow> (\<exists>i. m = MsgRelRc i)" "tag m = TagNodeWeight \<longleftrightarrow> (\<exists>v. m = NodeWeight v)"
  "tag m = TagIncomingEdge \<longleftrightarrow> (\<exists>hs. m = IncomingEdge hs)" "tag m = TagEdgeWeight \<longleftrightarrow> (\<exists>v. m = EdgeWeight v)"
  by (cases m; simp)+

lemma first_match_tag: "first_match t q = Some (p, q') \<Longrightarrow> fst p = t \<and> p \<in> set q \<and> set q' \<subseteq> set q"
  by (induction q arbitrary: q') (auto split: if_splits option.splits)

text \<open>Channels that hold well-typed packets.\<close>

context mpi_channel
begin

abbreviation channel_ok :: "'q \<Rightarrow> bool" where
  "channel_ok q \<equiv> list_all well_typed (packets q)"

lemma send_typed: "channel_ok q \<Longrightarrow> channel_ok (send sr to_usize m q)"
  by (simp add: send_abs list_send well_typed_sent)

lemma receive_well_typed:
  assumes ok: "channel_ok q" and r: "receive sr of_usize t q = Some (x, q')"
  shows "\<exists>m. x = Inr m \<and> tag m = t" "channel_ok q'"
proof -
  from r have "receive list_sr of_usize t (packets q) = Some (x, packets q')" by (simp add: receive_abs)
  then obtain p where p: "first_match (tag_as_i32 t) (packets q) = Some (p, packets q')" "x = extract_message of_usize p"
    by (auto simp: list_receive split: option.splits)
  from first_match_tag [OF p(1)] have q: "fst p = tag_as_i32 t" "p \<in> set (packets q)" "set (packets q') \<subseteq> set (packets q)" by auto
  then have "well_typed (tag_as_i32 t, snd p)" using ok by (metis list_all_iff prod.collapse)
  from extract_well_typed [OF this] p(2) q(1) show "\<exists>m. x = Inr m \<and> tag m = t" by (metis prod.collapse)
  show "channel_ok q'" using ok q(3) by (auto simp: list_all_iff)
qed

lemma recv_edge_weights_typed:
  "channel_ok q \<Longrightarrow> recv_edge_weights sr of_usize is q = Some (x, q') \<Longrightarrow> (\<exists>inc. x = Inr inc) \<and> channel_ok q'"
proof (induction "is" arbitrary: q x q')
  case (Cons i "is")
  from Cons.prems(2) obtain y q1 where y: "receive sr of_usize TagEdgeWeight q = Some (y, q1)"
    by (cases "receive sr of_usize TagEdgeWeight q") auto
  from receive_well_typed [OF Cons.prems(1) y] obtain m where m: "y = Inr m" "tag m = TagEdgeWeight" "channel_ok q1" by blast
  from m(2) obtain v where v: "m = EdgeWeight v" by (auto simp: tag_iff)
  from Cons.prems(2) y m(1) v obtain z where "recv_edge_weights sr of_usize is q1 = Some (z, q')" "x = and_then z (\<lambda>inc. Inr ((i, v) # inc))"
    by (auto split: option.splits)
  with Cons.IH [OF m(3)] show ?case by auto
qed auto

lemma mpi_recv_typed:
  assumes ok: "channel_ok q" and r: "mpi_recv sr of_usize q = Some (x, q')"
  shows "(\<exists>i d. x = Inr (i, d)) \<and> channel_ok q'"
proof -
  from r obtain x1 q1 where 1: "receive sr of_usize TagRelRc q = Some (x1, q1)" by (auto simp: mpi_recv_def split: option.splits)
  note t1 = receive_well_typed [OF ok 1]
  from t1(1) obtain i where x1: "x1 = Inr (MsgRelRc i)" by (auto simp: tag_iff)
  from r obtain x2 q2 where 2: "receive sr of_usize TagNodeWeight q1 = Some (x2, q2)" by (auto simp: mpi_recv_def 1 x1 split: option.splits)
  note t2 = receive_well_typed [OF t1(2) 2]
  from t2(1) obtain v where x2: "x2 = Inr (NodeWeight v)" by (auto simp: tag_iff)
  from r obtain x3 q3 where 3: "receive sr of_usize TagIncomingEdge q2 = Some (x3, q3)" by (auto simp: mpi_recv_def 1 x1 2 x2 split: option.splits)
  note t3 = receive_well_typed [OF t2(2) 3]
  from t3(1) obtain hs where x3: "x3 = Inr (IncomingEdge hs)" by (auto simp: tag_iff)
  from r obtain z where z: "recv_edge_weights sr of_usize hs q3 = Some (z, q')"
    "x = and_then z (\<lambda>inc. Inr (i, \<lparr>det_value = v, det_incoming = inc\<rparr>))"
    by (auto simp: mpi_recv_def 1 x1 2 x2 3 x3 split: option.splits)
  from recv_edge_weights_typed [OF t3(2) z(1)] z(2) show ?thesis by auto
qed

end

end
