(* ===== verification/Spec2Isabelle.thy ===== *)
theory Spec2Isabelle
  imports Serial_Examples Test_Results Deserialize_Ends Petgraph Detached_Examples Mpi_Examples Mpi_Transfer Mpi_Types Resolver
begin

text \<open>
  A verification of the Rust crate \<open>relrc\<close>: reference-counted pointers \<open>RelRc\<close> with parent-child
  relationships, where a node keeps its ancestors alive.

  \<^bold>\<open>Parts of the program.\<close> \<open>node.rs\<close> has the pointers \<open>RelRc\<close> and \<open>RelWeak\<close> and the data
  \<open>InnerData\<close> of a node: its value, its incoming edges (owned, with a strong reference to the
  parent), its outgoing edges (weak) and the registry it is in. \<open>edge.rs\<close> has the edges, \<open>registry.rs\<close>
  a registry that gives nodes stable ids without keeping them alive; dropping the last reference to
  a node frees its id. \<open>history.rs\<close> has graphs that own nodes of one registry, and \<open>petgraph.rs\<close>
  makes them graphs of the crate \<open>petgraph\<close>. \<open>serialization.rs\<close> writes and reads nodes, registries
  and graphs. \<open>detached.rs\<close> turns a node and its ancestors into plain data and back, and
  \<open>detached/mpi.rs\<close> with its two submodules transfers them between processes (these modules are
  commented out of \<open>lib.rs\<close> at this commit).

  \<^bold>\<open>State.\<close> \<open>Rc\<close>, \<open>Weak\<close> and \<open>RefCell\<close> are an explicit heap (\<open>Rc_Heap\<close>): a cell has a strong count, a
  weak count and a value that is gone when the strong count is 0. A \<open>world\<close> has a heap of nodes and
  a heap of registries. Operations take the world and return it changed; a reference is an address.
  What owns a reference and must drop it is not visible in a heap: \<open>world_ok ops w S W R V\<close> says that the
  counts are those of the references in the heaps plus the multisets \<open>S\<close> (strong), \<open>W\<close> (weak), \<open>R\<close>
  (registries, strong) and \<open>V\<close> (registries, weak) that the program owns, and that edges agree between parent and
  child; \<open>world_core\<close> is the same with less about edges, which is what remains when a program copies the data of nodes. Both are
  instances of \<open>world_inv I\<close>, where \<open>I\<close> is what is said of edges (locale \<open>shape_law\<close>). A panic is the left side of
  a sum, with its message. The borrow flags of \<open>RefCell\<close> are a layer of their own on top of this state.

  \<^bold>\<open>Theories.\<close>
  \<^item> \<open>Prelude\<close>, \<open>Rc_Heap\<close>, \<open>SlotMap\<close>, \<open>BTree\<close>: results and panics, the allocator, reference counts, slot
    maps and secondary maps (crate \<open>slotmap\<close>), ordered maps (\<open>BTreeMap\<close>).
  \<^item> \<open>Edge\<close>, \<open>Node\<close>, \<open>Registry\<close>, \<open>Drop\<close>: \<open>edge.rs\<close>, \<open>node.rs\<close>, \<open>registry.rs\<close>. A drop is a list of pending
    drops of fields (\<open>drop_tasks\<close>), as nested drops are in Rust, with a termination proof.
  \<^item> \<open>Shape\<close>, \<open>Ownership\<close>, \<open>Drop_Correct\<close>, \<open>Node_Correct\<close>, \<open>Registry_Correct\<close>, \<open>Liveness\<close>, \<open>Drop_Effect\<close>, \<open>Handles\<close>:
    the invariants \<open>world_ok\<close> and \<open>world_core\<close>, that every operation keeps them, what each operation does, and that a node
    is alive exactly while a descendant is held.
  \<^item> \<open>Graph_Spec\<close>, \<open>Data_Copy\<close>, \<open>Api\<close>: the abstract garbage-collected graph; copies of the data of nodes and
    registries; and the programs over the interface, which refine the abstract graph (the step relation \<open>api_step\<close>, and
    \<open>any_step\<close>, which adds the copies of node data; \<open>reachable\<close> and \<open>reachable_any\<close> are the states these programs reach).
  \<^item> \<open>History\<close>, \<open>History_Correct\<close>, \<open>History_Queries\<close>, \<open>Ancestors\<close>: \<open>history.rs\<close> and \<open>all_ancestors\<close>.
  \<^item> \<open>Petgraph\<close>: \<open>petgraph.rs\<close> and \<open>petgraph/edge_ref.rs\<close>.
  \<^item> \<open>Serialization\<close>, \<open>Deserialize_Ends\<close>, \<open>Deserialize_Correct\<close>, \<open>Serialization_Correct\<close>, \<open>Serialize_Correct\<close>:
    \<open>serialization.rs\<close>, that reading ends, and the round trips of registries. \<open>History_Serial\<close>, \<open>History_Copy\<close>,
    \<open>Relrc_Copy\<close>: what is written for a graph, when writing it succeeds, and the round trips of graphs and nodes
    (\<open>copied C A g g'\<close>: \<open>C\<close> maps the nodes \<open>A\<close> of \<open>g\<close> to copies of theirs in \<open>g'\<close>).
  \<^item> \<open>Detached\<close>, \<open>Post_Order\<close>, \<open>Detached_Correct\<close>, \<open>Attach_Correct\<close>: \<open>detached.rs\<close>.
  \<^item> \<open>Mpi_Messages\<close>, \<open>Mpi_Types\<close>, \<open>Mpi\<close>, \<open>Mpi_Correct\<close>, \<open>Mpi_Transport\<close>, \<open>Mpi_Transfer\<close>: \<open>detached/mpi/msg_types.rs\<close>,
    \<open>detached/mpi/send_recv.rs\<close>, \<open>detached/mpi.rs\<close>: messages and tags as their types, the two state machines, their
    invariant on channels that are lists, the simulation that carries it over to any MPI library whose buffers have room
    for one object, and what the receiver has at the end.
  \<^item> \<open>Resolver\<close>: \<open>resolver.rs\<close>, the trait as a record with its promises as a locale.
  \<^item> \<open>RefCell\<close>, \<open>RefCell_Correct\<close>, \<open>RefCell_History\<close>: the borrow flags of \<open>RefCell\<close>, and every operation of \<open>node.rs\<close>,
    \<open>history.rs\<close> and \<open>serialization.rs\<close> that borrows given again as an action on flags and world (the names end in \<open>_b\<close>);
    that the actions agree with the operations without flags, and when they panic.
  \<^item> \<open>Unit_Tests\<close>, \<open>Mpi_Program\<close>, \<open>Test_Results\<close>: the test functions of the source as programs over these actions, the
    example program \<open>src/examples/mpi.rs_disabled\<close>, and their outcomes.
  \<^item> \<open>Examples\<close>, \<open>Serial_Examples\<close>, \<open>Detached_Examples\<close>, \<open>Mpi_Examples\<close>: concrete programs, on which the
    properties are applied.

  \<^bold>\<open>What is not in the repository\<close> is a parameter with laws: the memory allocator \<open>al\<close> (\<open>alloc_ok\<close>: it never
  returns an occupied cell, but may reuse freed ones), the slot map \<open>ops\<close> (locale \<open>slot_map\<close>,
  interpreted on generational keys), the hash of a node \<open>hash_id\<close> (\<open>hash_inj\<close>: different ancestors of
  the object that is detached have different hashes; \<open>hash_local\<close>: the hash of a node is a function of the node and its ancestors), its
  conversion to machine words (it survives the round trip), and the MPI
  library (locale \<open>mpi_library\<close>: sending appends a packet, and messages with the same tag keep their order; interpreted on
  lists; locale \<open>mpi_bounded\<close>: sending is only known to append a packet while the buffer has room; interpreted on lists of bounded
  length).

  \<^bold>\<open>Bounds.\<close> The recursion of \<open>insert_ancestors\<close> has one unit of fuel per cell of the heap and one more,
  which is enough because the parent relation is acyclic. \<open>attach\<close> has one unit per traversal event:
  every parent entry is pushed at most once. The recursion of \<open>deserialize_node\<close> removes an entry each
  time. All three are proved to be enough, so that running out of fuel does not occur. The iteration
  of \<open>all_ancestors\<close>, the search of \<open>ancestors_upto\<close> and the drop machine are total functions.

  \<^bold>\<open>Properties.\<close> C1 to C10 are about programs over nodes, edges and registries; C11 to C14 about registries;
  C15 and C16 about ancestors; C17 to C20 about history graphs; C21 to C26 about serialisation; C27 and C28 about the
  borrows of \<open>RefCell\<close>; C29 is about nodes made of copies of node data; C30 is about the \<open>petgraph\<close> view; C31 to C34 about
  detached objects; C35 to C40 about messages and the transfer. C14, C16, C29, C34 and C40 show behaviour that differs from
  what the comments in the source say or that the code cannot intend, and so do parts of C10 (with
  \<open>cloned_edge_target_panics\<close>, which reaches the panic), C18, C24 and C28, and the outcome of the unit tests
  (\<open>unit_tests_outcome\<close>). C1 to C8 and C10 are about all programs; C9 and the properties that assume \<open>world_ok\<close> are about
  states of programs that make no copies of node data.

  \<^bold>\<open>Not modelled.\<close> \<open>lib.rs\<close> only names modules; the module \<open>resolver.rs\<close> has no caller, so that nothing connects it to the rest.
  The derives of \<open>Debug\<close> and \<open>Deserialize\<close> and the executor of the futures are left out; \<open>Serialize\<close> is only there for the
  snapshots of the unit tests. Of a send into a full MPI buffer nothing is assumed; that a buffer has room for one object is a
  condition of C38 to C40. A slot map never gets full (the crate panics at \<open>2\<^sup>3\<^sup>2 - 2\<close> entries). An
  \<open>InnerData\<close> that a program keeps outside of an \<open>Rc\<close> is not part of the state. The values in nodes hold no pointers to nodes
  themselves, so that dropping or cloning a
  value runs no code of the crate. The modules that are commented out of \<open>lib.rs\<close> (\<open>detached.rs\<close> and below) are modelled
  without borrow flags: they borrow only through the operations of nodes.
\<close>

section \<open>Programs over \<open>RelRc\<close>, \<open>RelWeak\<close> and \<open>Registry\<close>\<close>

text \<open>
  C1. After any sequence of calls of the node, edge and registry interfaces, copies of node data included, every reference
  count is exact: the strong (weak) count of a cell is the number of strong (weak) references
  to it that nodes, registries and the program own, a value is present exactly while its strong
  count is positive, the parent relation is acyclic, every weak edge to a live node has an index
  of one of its incoming edges, and the two maps of every registry are inverse to each other (\<open>world_core\<close>). After a
  sequence of calls without copies of node data, edges agree between parent and child too: the target of an edge is the node
  that stores it, and a parent lists exactly the edges to its live children (\<open>world_ok\<close>).
\<close>

theorem reachable_world_ok:
  assumes "slot_map ops" "alloc_ok al" "reachable_any al ops (w, S, W, R)"
  shows "world_core ops w S W R {#} \<and> (reachable al ops (w, S, W, R) \<longrightarrow> world_ok ops w S W R {#})"
  using reachable_any_core [OF assms] reachable_ok [OF assms(1,2), of "(w, S, W, R)"] by simp

theorem reachable_world_ok_witness:
  "world_core gen_ops twin_world {#3, 0, 2#} {#} {#0#} {#} \<and> world_ok gen_ops family_world {#0, 2#} {#} {#0#} {#}"
  using reachable_world_ok [OF gen.slot_map_axioms first_free_ok twin_world_reachable]
    reachable_world_ok [OF gen.slot_map_axioms first_free_ok reachable_imp_any [OF family_world_reachable]] family_world_reachable
  by blast

text \<open>
  C2. Refinement: every call of the interface, copies of node data included, is a sequence of steps of the abstract
  garbage-collected graph (create a node with its value and parents, acquire a handle of a
  live node, release a handle and keep exactly the ancestors of what is still held).
\<close>

theorem reachable_refines_graph:
  assumes "slot_map ops" "alloc_ok al" "reachable_any al ops c" "any_step al ops c c'"
  shows "graph_step\<^sup>*\<^sup>* (conf_graph c) (conf_graph c')"
  by (rule any_step_refines [OF assms(1,2,4) reachable_any_core [OF assms(1-3)]])

theorem reachable_refines_graph_witness:
  "graph_step\<^sup>*\<^sup>* (abs_graph (mem family_world), {#0, 2#}) (abs_graph (mem (relrc_drop gen_ops 2 family_world)), {#0#})"
proof -
  have "api_step first_free gen_ops (family_world, {#0, 2#}, {#}, {#0#}) (relrc_drop gen_ops 2 family_world, {#0#}, {#}, {#0#})"
    using api_step.drop [of first_free gen_ops family_world 2 "{#0#}" "{#}" "{#0#}"] by (simp add: add_mset_commute)
  from reachable_refines_graph [OF gen.slot_map_axioms first_free_ok reachable_imp_any [OF family_world_reachable] any_step.api [OF this]]
  show ?thesis
    by simp
qed

text \<open>
  C3. A node is alive exactly while the program holds a strong reference to it or to one of its
  descendants: no node dies while it is needed, and none is kept alive by a cycle, a weak edge
  or a registry.
\<close>

theorem alive_iff_held_descendant:
  assumes "slot_map ops" "alloc_ok al" "reachable_any al ops (w, S, W, R)"
  shows "0 < strong_count a (mem w) \<longleftrightarrow> (\<exists>d\<in>#S. (a, d) \<in> (parents (mem w))\<^sup>*)"
  using core.alive_iff_descendant [of ops w S W R "{#}" a] reachable_any_core [OF assms] by (simp add: strong_count_def)

theorem alive_iff_held_descendant_witness:
  "0 < strong_count 1 (mem family_world) \<longleftrightarrow> (\<exists>d\<in>#{#0, 2#}. (1, d) \<in> (parents (mem family_world))\<^sup>*)"
  by (rule alive_iff_held_descendant [OF gen.slot_map_axioms first_free_ok reachable_imp_any [OF family_world_reachable]])

text \<open>
  C4. No leaks: once the program has dropped its last handles, every cell of the node heap and
  of the registry heap has been given back to the allocator.
\<close>

theorem no_leaks:
  assumes "slot_map ops" "alloc_ok al" "reachable_any al ops (w, {#}, {#}, {#})"
  shows "(\<forall>b\<in>set (mem w). weak b = 0) \<and> (\<forall>b\<in>set (regs w). weak b = 0)"
  using core.all_cells_free [of ops w] reachable_any_core [OF assms] by simp

theorem no_leaks_witness:
  "let w = rc_registry_drop gen_ops 0 (relrc_drop gen_ops 0 (relrc_drop gen_ops 2 family_world))
   in (\<forall>b\<in>set (mem w). weak b = 0) \<and> (\<forall>b\<in>set (regs w). weak b = 0)"
  unfolding Let_def by (rule no_leaks [OF gen.slot_map_axioms first_free_ok reachable_imp_any [OF family_dropped_reachable]])

text \<open>
  The edges of a reachable memory are consistent: the parent relation is acyclic, and between
  live nodes the parent lists the weak edge at position \<open>i\<close> of the child exactly if the child's
  \<open>i\<close>-th incoming edge has that parent as its source.
\<close>

theorem edges_consistent:
  assumes "slot_map ops" "alloc_ok al" "reachable al ops (w, S, W, R)"
  shows "acyclic (parents (mem w)) \<and>
    (\<forall>p c i. deref (mem w) p \<noteq> None \<longrightarrow> deref (mem w) c \<noteq> None \<longrightarrow>
      (WeakEdge_new i c \<in> set (all_outgoing_weak_ref p (mem w)) \<longleftrightarrow> parent_at c i (mem w) = Some p))"
proof -
  have "world_ok ops w S W R {#}" using reachable_ok [OF assms] by simp
  then show ?thesis using outgoing_iff_parent_at shape_inv_acyclic world_ok_shape by blast
qed

text \<open>
  C5. Dropping a handle leaves exactly the nodes that are ancestors of what the program still
  holds, with unchanged values and edges, and removes every other node.
\<close>

theorem drop_keeps_held_ancestors:
  assumes "slot_map ops" "alloc_ok al" "reachable_any al ops (w, add_mset a S, W, R)"
  shows "deref (mem (relrc_drop ops a w)) x =
    (if \<exists>d\<in>#S. (x, d) \<in> (parents (mem w))\<^sup>* then deref (mem w) x else None)"
proof -
  have ok: "world_core ops w (add_mset a S) W R {#}" using reachable_any_core [OF assms] by simp
  show ?thesis by (rule core.effect_deref [OF core.relrc_drop_ok [OF assms(1) ok] core.relrc_drop_effect [OF assms(1) ok]])
qed

theorem drop_keeps_held_ancestors_witness:
  "deref (mem (relrc_drop gen_ops 2 family_world)) 1 =
    (if \<exists>d\<in>#{#0#}. (1, d) \<in> (parents (mem family_world))\<^sup>* then deref (mem family_world) 1 else None)"
  by (rule drop_keeps_held_ancestors [OF gen.slot_map_axioms first_free_ok, where W = "{#}" and R = "{#0#}"])
    (use reachable_imp_any [OF family_world_reachable] in \<open>simp add: add_mset_commute\<close>)

text \<open>
  C6. Dropping a handle keeps the registries exact: no id is added or moved, every node that
  survives keeps its ids, and the id of a node that dies is freed in the registry it is
  registered in.
\<close>

theorem drop_updates_registries:
  assumes "slot_map ops" "alloc_ok al" "reachable_any al ops (w, add_mset a S, W, R)"
    and "w' = relrc_drop ops a w"
  shows "(reg_entry w' r k x \<longrightarrow> reg_entry w r k x) \<and>
    (reg_entry w r k x \<longrightarrow> deref (mem w') x \<noteq> None \<longrightarrow> reg_entry w' r k x) \<and>
    (node_registry x (mem w) = Some r \<longrightarrow> deref (mem w') x = None \<longrightarrow> \<not> reg_entry w' r k x)"
proof -
  have "world_core ops w (add_mset a S) W R {#}" using reachable_any_core [OF assms(1-3)] by simp
  from core.relrc_drop_effect [OF assms(1) this] show ?thesis unfolding assms(4) drop_effect_def by blast
qed

theorem drop_updates_registries_witness:
  "reg_entry family_world 0 (0, 1) 2 \<and> \<not> reg_entry (relrc_drop gen_ops 2 family_world) 0 (0, 1) 2"
proof -
  let ?w = "relrc_drop gen_ops 2 family_world"
  have r: "reachable_any first_free gen_ops (family_world, add_mset 2 {#0#}, {#}, {#0#})"
    using reachable_imp_any [OF family_world_reachable] by (simp add: add_mset_commute)
  have "deref (mem ?w) 2 = None" by (simp add: family_drop_eval cell_eval)
  moreover have "node_registry 2 (mem family_world) = Some 0"
    by (simp add: node_registry_def family_world_eval family_eval cell_eval)
  moreover have "reg_entry family_world 0 (0, 1) 2" by (simp add: reg_entry_def family_world_eval cell_eval)
  ultimately show ?thesis
    using drop_updates_registries [OF gen.slot_map_axioms first_free_ok r refl, of 0 "(0, 1)" 2] by blast
qed

text \<open>
  C7. \<open>with_parents\<close> moves the handles of the parents into the edges of a node at a free
  address: the new node has strong count 1, the given value and one incoming edge per parent in
  the given order; each parent gets the weak edges to the new node appended to its outgoing
  edges; nothing else of any other cell changes, counts included.
\<close>

theorem with_parents_effect:
  assumes "slot_map ops" "alloc_ok al" "reachable_any al ops (w, mset (map fst ps) + S, W, R)"
    and "with_parents al v ps (mem w) = (a, h')"
  shows "weak (box (mem w) a) = 0 \<and> box h' x =
    (if x = a then \<lparr>strong = 1, weak = 1 + 2 * length ps,
        payload = Some \<lparr>node_value = v, incoming = map (\<lambda>(p, e). \<lparr>edge_value = e, source = p, target = a\<rparr>) ps,
                        outgoing = [], registry = None\<rparr>\<rparr>
     else (box (mem w) x)\<lparr>payload := map_option (\<lambda>d. d\<lparr>outgoing := outgoing d @
             map (\<lambda>i. \<lparr>we_index = i, we_target = a\<rparr>) (filter (\<lambda>i. fst (ps ! i) = x) [0..<length ps])\<rparr>)
             (deref (mem w) x)\<rparr>)"
proof -
  have ok: "world_core ops w (mset (map fst ps) + S) W R {#}" using reachable_any_core [OF assms(1-3)] by (simp del: mset_map)
  show ?thesis using with_parents_effect_ok [OF assms(2) ok assms(4)] by simp
qed

theorem with_parents_effect_witness:
  "let h' = snd (with_parents first_free 40 [(2, 9)] family)
   in strong (box h' 3) = 1 \<and> outgoing (the (deref h' 2)) = [\<lparr>we_index = 0, we_target = 3\<rparr>]"
proof -
  have r: "reachable_any first_free gen_ops (\<lparr>mem = family, regs = []\<rparr>, mset (map fst [(2 :: nat, 9 :: nat)]) + {#0#}, {#}, {#})"
    using reachable_imp_any [OF family_reachable] by (simp add: add_mset_commute)
  have "with_parents first_free 40 [(2, 9)] family = (3, snd (with_parents first_free 40 [(2, 9)] family))"
    by (simp add: family_eval eval_simps)
  from with_parents_effect [OF gen.slot_map_axioms first_free_ok r, unfolded world.simps, OF this] show ?thesis
    by (simp add: Let_def family_eval cell_eval)
qed

text \<open>
  C8. Address reuse is safe: the address of a freshly created node is unknown to every live
  registry, although the allocator may have reused the address of a dead node. (A registry's
  weak reference keeps the cell of a dead node occupied until its id is freed.)
\<close>

theorem fresh_node_unregistered:
  assumes "slot_map ops" "alloc_ok al" "reachable_any al ops (w, mset (map fst ps) + S, W, R)"
    and "with_parents al v ps (mem w) = (a, h')" "deref (regs w) r = Some Rg"
  shows "get_id a Rg = None \<and> slotmap_get ops k (reg_nodes Rg) \<noteq> Some a"
proof -
  have ok: "world_core ops w (mset (map fst ps) + S) W R {#}" using reachable_any_core [OF assms(1-3)] by (simp del: mset_map)
  have "weak (box (mem w) a) = 0" by (rule with_parents_effect_ok(1) [OF assms(2) ok assms(4)])
  from fresh_cell(7) [OF ok this] have "a \<notin># slot_refs ops Rg" using assms(5) by (auto simp: in_refs_iff)
  with registry_absent [OF assms(1) world_registry_ok [OF ok assms(5)]] show ?thesis by blast
qed

theorem fresh_node_unregistered_witness:
  "get_id 3 family_registry = None \<and> slotmap_get gen_ops (0, 1) (reg_nodes family_registry) \<noteq> Some 3"
proof -
  have r: "reachable_any first_free gen_ops (family_world, mset (map fst [(2 :: nat, 9 :: nat)]) + {#0#}, {#}, {#0#})"
    using reachable_imp_any [OF family_world_reachable] by (simp add: add_mset_commute)
  have "with_parents first_free 40 [(2, 9)] (mem family_world) = (3, snd (with_parents first_free 40 [(2, 9)] (mem family_world)))"
    by (simp add: family_world_eval family_eval eval_simps)
  from fresh_node_unregistered [OF gen.slot_map_axioms first_free_ok r this family_registry_at] show ?thesis .
qed

text \<open>
  C9. In a program that does not copy node data, \<open>all_outgoing\<close> returns each edge from the node to a live child exactly once and no other
  edge, and prunes the node's weak edges to dead children.
\<close>

theorem all_outgoing_live_children:
  assumes "slot_map ops" "alloc_ok al" "reachable al ops (w, S, W, R)"
    and "deref (mem w) a = Some d" "all_outgoing a (mem w) = (es, h')"
  shows "set es = {e. parent_at (e_target e) (e_index e) (mem w) = Some a} \<and> distinct es \<and>
    deref h' a = Some (d\<lparr>outgoing := map (\<lambda>e. WeakEdge_new (e_index e) (e_target e)) es\<rparr>)"
proof -
  have ok: "world_ok ops w S W R {#}" using reachable_ok [OF assms(1-3)] by simp
  have a: "alive (mem w) a" using alive_iff_deref [OF world_okD(5) [OF ok]] assms(4) by auto
  have "map (\<lambda>e. WeakEdge_new (e_index e) (e_target e)) es = live_edges (mem w) (outgoing d)"
    using all_outgoing_edges [of a "mem w"] assms(4,5)
    by (simp add: all_outgoing_weak_ref_def comp_def weak_strong_edge)
  with all_outgoing_exact [OF ok a assms(5)] assms(4) show ?thesis by simp
qed

theorem all_outgoing_live_children_witness:
  "set (fst (all_outgoing 1 family)) = {e. parent_at (e_target e) (e_index e) family = Some 1}"
proof -
  let ?w = "\<lparr>mem = family, regs = []\<rparr> :: ex_world"
  have "deref (mem ?w) 1 = Some (the (deref (mem ?w) 1))" by (simp add: family_eval cell_eval)
  from all_outgoing_live_children [OF gen.slot_map_axioms first_free_ok family_reachable this, of _ "snd (all_outgoing 1 family)"]
  show ?thesis by simp
qed

text \<open>
  C10. When readers of an edge panic. In a program that does not copy node data, \<open>InnerEdgeData::target\<close> of an edge
  stored in a node returns that node, and an \<open>Edge\<close> returned by \<open>all_outgoing\<close> dereferences to
  the edge data with the right source and target. In every program, copies of node data included, such an \<open>Edge\<close>
  dereferences without a panic, and \<open>target\<close> of any edge data panics exactly if the target is dead (C29 shows
  that this happens to edges stored in copies).
\<close>

theorem edges_never_panic:
  assumes "slot_map ops" "alloc_ok al" "reachable_any al ops (w, S, W, R)"
  shows "(reachable al ops (w, S, W, R) \<longrightarrow> e \<in> set (all_incoming a (mem w)) \<longrightarrow>
      inner_edge_target e (mem w) = Inr (a, rc_clone a (mem w))) \<and>
    (deref (mem w) a \<noteq> None \<longrightarrow> all_outgoing a (mem w) = (es, h') \<longrightarrow> out \<in> set es \<longrightarrow>
      (\<exists>d. edge_deref out h' = Inr d \<and> (reachable al ops (w, S, W, R) \<longrightarrow> source d = a \<and> target d = e_target out))) \<and>
    (inner_edge_target f (mem w) = Inl (Expect ''target node is no longer alive'') \<longleftrightarrow> deref (mem w) (target f) = None)"
proof -
  have core: "world_core ops w S W R {#}" using reachable_any_core [OF assms] by simp
  have ok: "reachable al ops (w, S, W, R) \<Longrightarrow> world_ok ops w S W R {#}" using reachable_ok [OF assms(1,2), of "(w, S, W, R)"] by simp
  have alive: "alive (mem w) b \<longleftrightarrow> deref (mem w) b \<noteq> None" for b using alive_iff_deref [OF world_okD(5) [OF core], of b] by auto
  have "inner_edge_target f (mem w) = Inl (Expect ''target node is no longer alive'') \<longleftrightarrow> deref (mem w) (target f) = None"
    using alive [of "target f"] by (cases "alive (mem w) (target f)") (auto simp: inner_edge_target_def weak_upgrade_def strong_count_def)
  moreover have "inner_edge_target e (mem w) = Inr (a, rc_clone a (mem w))"
    if "reachable al ops (w, S, W, R)" "e \<in> set (all_incoming a (mem w))"
    using all_incoming_target [OF ok [OF that(1)] that(2)] by (simp add: inner_edge_target_def weak_upgrade_def strong_count_def)
  moreover have "\<exists>d. edge_deref out h' = Inr d \<and> (reachable al ops (w, S, W, R) \<longrightarrow> source d = a \<and> target d = e_target out)"
    if "deref (mem w) a \<noteq> None" "all_outgoing a (mem w) = (es, h')" "out \<in> set es"
  proof (cases "reachable al ops (w, S, W, R)")
    case True
    with edge_deref_all_outgoing [OF ok [OF True] _ that(2,3)] alive [of a] that(1) show ?thesis by auto
  next
    case False
    with edge_deref_outgoing_core [OF core that] show ?thesis by auto
  qed
  ultimately show ?thesis by blast
qed

theorem edges_never_panic_witness:
  "inner_edge_target \<lparr>edge_value = 8 :: nat, source = 1, target = 2\<rparr> (mem family_world) = Inr (2, rc_clone 2 (mem family_world))"
  by (rule edges_never_panic [OF gen.slot_map_axioms first_free_ok reachable_imp_any [OF family_world_reachable], THEN conjunct1,
        THEN mp, OF family_world_reachable, THEN mp])
    (simp add: all_incoming_def family_world_eval family_eval cell_eval)



text \<open>
  A clone of an edge's data can outlive the edge's target, and its \<open>target\<close> then panics:
  here the program clones an edge of the child and drops the child.
\<close>

theorem cloned_edge_target_panics:
  "\<exists>w S W R (e :: nat InnerEdgeData). reachable first_free gen_ops (w :: ex_world, S, W, R) \<and> source e \<in># S \<and> target e \<in># W \<and>
     inner_edge_target e (mem w) = Inl (Expect ''target node is no longer alive'')"
proof (intro exI conjI)
  show "reachable first_free gen_ops (relrc_drop gen_ops 2 edge_cloned, {#0, 0#}, {#2#}, {#0#})"
    by (rule edge_cloned_dropped_reachable)
  show "inner_edge_target \<lparr>edge_value = 7 :: nat, source = 0, target = 2\<rparr> (mem (relrc_drop gen_ops 2 edge_cloned)) =
      Inl (Expect ''target node is no longer alive'')"
    by (simp add: inner_edge_target_def weak_upgrade_def edge_cloned_dropped_dead)
qed simp_all

section \<open>Registries\<close>

text \<open>
  C11. \<open>add_node\<close> is a round trip: the id it returns is found for the node and leads back to
  the node, adding the node again returns the same id and changes nothing, and the ids and nodes
  of all others are kept.
\<close>

theorem registry_roundtrip:
  assumes "slot_map ops" "registry_ok ops Rg" "0 < strong_count a h" "add_node ops a Rg h = (k, Rg', h')"
  shows "registry_ok ops Rg' \<and> get_id a Rg' = Some k \<and> fst (registry_get ops k Rg' h') = Some a \<and>
    add_node ops a Rg' h' = (k, Rg', h') \<and> (\<forall>b. b \<noteq> a \<longrightarrow> get_id b Rg' = get_id b Rg) \<and>
    (\<forall>j b. fst (registry_get ops j Rg h) = Some b \<longrightarrow> fst (registry_get ops j Rg' h') = Some b)"
  using slot_map.add_node_roundtrip [OF assms(1,2) _ assms(4)] slot_map.add_node_new(1) [OF assms(1,2,4)]
    slot_map.add_node_existing [OF assms(1), of a Rg _ h] assms
  by (cases "get_id a Rg") (auto simp: strong_count_def)

theorem registry_roundtrip_witness:
  "\<exists>k Rg' h'. add_node gen_ops 0 family_registry (mem family_world) = (k, Rg', h') \<and>
     get_id 0 Rg' = Some k \<and> fst (registry_get gen_ops k Rg' h') = Some 0"
proof -
  obtain k Rg' h' where "add_node gen_ops 0 family_registry (mem family_world) = (k, Rg', h')" by (metis prod_cases3)
  moreover have "0 < strong_count 0 (mem family_world)" by (simp add: family_world_eval family_eval eval_simps)
  ultimately show ?thesis using registry_roundtrip [OF gen.slot_map_axioms family_registry_ok] by blast
qed

text \<open>
  C12. Removals are exact. \<open>remove\<close> makes the id and its node unknown to the registry and leaves every
  other id and node as it was. \<open>free_node_ids\<close> keeps exactly the entries whose node is alive and
  returns their number; in particular the pointers of dead nodes are forgotten.
\<close>

theorem registry_removals_exact:
  assumes "slot_map ops" "registry_ok ops Rg" "registry_remove ops k Rg h = (R1, h1)" "free_node_ids ops Rg h = (n, R2, h2)"
  shows "registry_ok ops R1 \<and>
    fst (registry_get ops j R1 h1) = (if j = k then None else fst (registry_get ops j Rg h)) \<and>
    get_id a R1 = (if get_id a Rg = Some k then None else get_id a Rg) \<and>
    registry_ok ops R2 \<and>
    slotmap_get ops j (reg_nodes R2) =
      (case slotmap_get ops j (reg_nodes Rg) of Some b \<Rightarrow> if 0 < strong_count b h then Some b else None | None \<Rightarrow> None) \<and>
    get_id a R2 = (if 0 < strong_count a h then get_id a Rg else None) \<and>
    n = card {i. \<exists>b. slotmap_get ops i (reg_nodes Rg) = Some b \<and> 0 < strong_count b h}"
  using slot_map.registry_remove_get [OF assms(1-3)] slot_map.registry_remove_spec(1) [OF assms(1-3)]
    slot_map.free_node_ids_lookup [OF assms(1,2,4), folded strong_count_def] by simp

theorem registry_removals_exact_witness:
  "let h = mem (relrc_drop gen_ops 2 edge_cloned) in
   get_id 2 family_registry = Some (0, 1) \<and>
   get_id 2 (fst (registry_remove gen_ops (0, 1) family_registry h)) = None \<and>
   get_id 2 (fst (snd (free_node_ids gen_ops family_registry h))) = None"
proof -
  let ?h = "mem (relrc_drop gen_ops 2 edge_cloned)"
  obtain n R2 h2 where free: "free_node_ids gen_ops family_registry ?h = (n, R2, h2)" by (metis prod_cases3)
  have "get_id 2 family_registry = Some (0, 1)" by (simp add: get_id_def as_ptr_def family_registry_def)
  with registry_removals_exact [OF gen.slot_map_axioms family_registry_ok prod.collapse [symmetric] free, of "(0, 1)" _ 2]
  show ?thesis by (simp add: free edge_cloned_dropped_dead)
qed

text \<open>
  C13. \<open>try_register_in\<close> fails exactly if the node was registered in another registry before, and
  then changes neither the node nor any registry. Otherwise it returns an id under which the
  registry knows the node, the node names the registry, and all other entries are kept.
\<close>

theorem try_register_in_outcome:
  assumes "slot_map ops" "alloc_ok al" "reachable al ops (w, S, W, R)"
    and "deref (mem w) a \<noteq> None" "r \<in># R" "try_register_in ops a r w = (x, w')"
  shows "(x = None \<longleftrightarrow> (\<exists>r'. node_registry a (mem w) = Some r' \<and> r' \<noteq> r)) \<and>
    (x = None \<longrightarrow> mem w' = mem w \<and> (\<forall>y. deref (regs w') y = deref (regs w) y)) \<and>
    (\<forall>k. x = Some k \<longrightarrow> reg_entry w' r k a \<and> node_registry a (mem w') = Some r \<and>
      (\<forall>y j b. b \<noteq> a \<longrightarrow> (reg_entry w' y j b \<longleftrightarrow> reg_entry w y j b)))"
proof -
  have ok: "world_ok ops w S W R {#}" using reachable_ok [OF assms(1-3)] by simp
  from owned_reg [OF ok assms(5)] obtain Rg where Rg: "deref (regs w) r = Some Rg"
    using alive_iff_deref [OF world_okD(6) [OF ok]] by blast
  show ?thesis
  proof (cases "node_registry a (mem w) \<in> {None, Some r}")
    case True
    from slot_map.try_register_in_succeeds [OF assms(1) ok assms(4) Rg this assms(6)] obtain k where
      "x = Some k" "reg_entry w' r k a" "node_registry a (mem w') = Some r" "\<forall>y j b. b \<noteq> a \<longrightarrow> (reg_entry w' y j b \<longleftrightarrow> reg_entry w y j b)"
      by blast
    with True show ?thesis by auto
  next
    case False
    then obtain r' where "node_registry a (mem w) = Some r'" "r' \<noteq> r" by auto
    with try_register_in_fails [OF this assms(6)] show ?thesis by auto
  qed
qed

theorem try_register_in_outcome_witness:
  "\<exists>k. fst (try_register_in gen_ops 0 0 family_world) = Some k \<and>
     reg_entry (snd (try_register_in gen_ops 0 0 family_world)) 0 k 0"
proof -
  have "deref (mem family_world) 0 \<noteq> None" "node_registry 0 (mem family_world) = None"
    by (simp_all add: node_registry_def family_world_eval family_eval cell_eval)
  with try_register_in_outcome [OF gen.slot_map_axioms first_free_ok family_world_reachable, of 0 0] show ?thesis
    by (metis multi_member_last option.distinct(1) option.exhaust prod.collapse)
qed

text \<open>
  C14. A node whose registry has been dropped reports no registry, and yet can never be
  registered in another one.
\<close>

theorem dead_registry_blocks_registration:
  assumes "slot_map ops" "alloc_ok al" "reachable al ops (w, S, W, R)"
    and "node_registry a (mem w) = Some r'" "deref (regs w) r' = None" "r \<in># R"
  shows "fst (relrc_registry a w) = None \<and> fst (try_register_in ops a r w) = None"
proof -
  have ok: "world_ok ops w S W R {#}" using reachable_ok [OF assms(1-3)] by simp
  have dead: "strong (box (regs w) r') = 0" using world_okD(6) [OF ok] assms(5) by (simp add: live_ok_def)
  with owned_reg [OF ok assms(6)] have "r' \<noteq> r" by auto
  from try_register_in_fails [OF assms(4) this] show ?thesis
    using dead assms(4) by (simp add: relrc_registry_def weak_upgrade_def strong_count_def) (metis prod.collapse)
qed

theorem dead_registry_blocks_registration_witness:
  "fst (relrc_registry 2 orphaned) = None \<and> fst (try_register_in gen_ops 2 1 orphaned) = None"
  by (rule dead_registry_blocks_registration [OF gen.slot_map_axioms first_free_ok orphaned_reachable, where r' = 0])
    (simp_all add: orphaned_eval node_registry_def family_eval cell_eval)

section \<open>Ancestors\<close>

text \<open>
  C15. \<open>all_ancestors\<close> always ends, lists the node itself first, repeats no node and lists only
  ancestors of the node. When no ancestor of the node is the parent of two ancestors (or twice of
  one), it lists all of them.
\<close>

theorem all_ancestors_exact:
  assumes "slot_map ops" "alloc_ok al" "reachable al ops (w, S, W, R)"
  shows "all_ancestors a (mem w) = a # tl (all_ancestors a (mem w)) \<and> distinct (all_ancestors a (mem w)) \<and>
    set (all_ancestors a (mem w)) \<subseteq> {x. (x, a) \<in> (parents (mem w))\<^sup>*} \<and>
    (unshared (mem w) a \<longrightarrow> set (all_ancestors a (mem w)) = {x. (x, a) \<in> (parents (mem w))\<^sup>*})"
proof -
  have "world_ok ops w S W R {#}" using reachable_ok [OF assms(1-3)] by simp
  then have "acyclic (parents (mem w))" by (intro shape_inv_acyclic world_ok_shape)
  with all_ancestors_complete show ?thesis using all_ancestors_self all_ancestors_distinct all_ancestors_sound by blast
qed

theorem all_ancestors_exact_witness:
  "set (all_ancestors 2 (mem family_world)) = {x. (x, 2) \<in> (parents (mem family_world))\<^sup>*}"
  using all_ancestors_exact [OF gen.slot_map_axioms first_free_ok family_world_reachable] family_unshared by blast

text \<open>
  C16. When an ancestor is shared, \<open>all_ancestors\<close> can stop early and miss ancestors: here node
  4 has parents 2 and 3, node 2 has parent 0, node 3 has parents 0 and 1. The second visit of 0
  ends the iteration, and 1 is not listed.
\<close>

theorem all_ancestors_misses_shared:
  "\<exists>w S W R. reachable first_free gen_ops (w :: ex_world, S, W, R) \<and> 4 \<in># S \<and>
     all_ancestors 4 (mem w) = [4, 2, 3, 0] \<and> (1, 4) \<in> (parents (mem w))\<^sup>*"
proof (intro exI conjI)
  show "reachable first_free gen_ops (\<lparr>mem = diamond, regs = []\<rparr>, {#4#}, {#}, {#})" by (rule diamond_reachable)
  show "all_ancestors 4 (mem (\<lparr>mem = diamond, regs = []\<rparr> :: ex_world)) = [4, 2, 3, 0]" by (simp add: diamond_ancestors)
  show "(1, 4) \<in> (parents (mem (\<lparr>mem = diamond, regs = []\<rparr> :: ex_world)))\<^sup>*" using diamond_ancestor_1 by simp
qed simp

section \<open>History graphs\<close>







text \<open>
  C20. The handles of a graph: a graph made from nodes owns exactly the nodes that are free to
  join its registry, a clone of it owns as many references again, and dropping a graph releases
  them, keeping exactly the ancestors of what else is held.
\<close>

theorem graph_handles:
  assumes "slot_map ops" "world_ok ops w (mset ns + S) W (add_mset r R) V" "history_new ops ns r w = (g, w1)"
  shows "graph_set g = {a \<in> set ns. \<not> (\<exists>r'. node_registry a (mem w) = Some r' \<and> r' \<noteq> r)} \<and>
    hist_inv ops g w1 S W R V \<and>
    hist_inv ops g (snd (history_clone g w1)) (graph_own g + S) W (add_mset r R) V \<and>
    world_ok ops (history_drop ops g w1) S W R V \<and>
    abs_graph (mem (history_drop ops g w1)) = collect_garbage S (abs_graph (mem w1))"
  using slot_map.history_new_ok [OF assms] slot_map.history_clone_ok [OF assms(1), of g w1]
    slot_map.history_drop_ok [OF assms(1), of g w1] by (metis prod.collapse)

theorem graph_handles_witness:
  "world_ok gen_ops (history_drop gen_ops (fst child_history) (snd child_history)) {#0#} {#} {#} {#}"
proof -
  have "world_ok gen_ops family_world (mset [2] + {#0#}) {#} {#0#} {#}"
    using family_world_ok by (simp add: add_mset_commute)
  from graph_handles [OF gen.slot_map_axioms this prod.collapse [symmetric]] show ?thesis by (simp add: child_history_def)
qed

section \<open>Serialisation\<close>

text \<open>
  C21. \<open>Registry::to_serialized\<close> succeeds exactly if every registered node is alive and all its
  parents are registered too, and panics with "valid node" otherwise.
\<close>

theorem registry_to_serialized_outcome:
  assumes "slot_map ops" "world_ok ops w S W R V" "registry_ok ops Rg"
  shows "((\<exists>sr. registry_to_serialized ops Rg (mem w) = Inr sr) \<longleftrightarrow>
      (\<forall>k a. slotmap_get ops k (reg_nodes Rg) = Some a \<longrightarrow>
        0 < strong_count a (mem w) \<and> (\<forall>p\<in>set (all_parents a (mem w)). registry_contains p Rg))) \<and>
    (\<forall>p. registry_to_serialized ops Rg (mem w) = Inl p \<longrightarrow> p = Expect ''valid node'')"
proof (cases "\<forall>k a. vals (reg_nodes Rg) k = Some a \<longrightarrow> entry_ok Rg (mem w) a")
  case True
  from slot_map.registry_to_serialized_ok [OF assms(1,3) world_okD(5) [OF assms(2)]] True show ?thesis
    by (auto simp: slotmap_get_ok [OF registry_okD(1) [OF assms(3)]] entry_ok_def list_all_iff strong_count_def)
next
  case False
  then obtain k a where "vals (reg_nodes Rg) k = Some a" "\<not> entry_ok Rg (mem w) a" by blast
  with slot_map.registry_to_serialized_panics [OF assms(1,3) world_okD(5) [OF assms(2)] this] show ?thesis
    by (auto simp: slotmap_get_ok [OF registry_okD(1) [OF assms(3)]] entry_ok_def list_all_iff strong_count_def)
qed

theorem registry_to_serialized_outcome_witness:
  "registry_to_serialized gen_ops family_registry (mem family_world) = Inl (Expect ''valid node'')"
proof -
  have "slotmap_get gen_ops (0, 1) (reg_nodes family_registry) = Some 2" "1 \<in> set (all_parents 2 (mem family_world))"
    "\<not> registry_contains 1 family_registry"
    by (simp_all add: family_parents family_registry_def slotmap_get_def slotmap_keys_def gen_ops_def
      registry_contains_def get_id_def as_ptr_def)
  with registry_to_serialized_outcome [OF gen.slot_map_axioms family_world_ok family_registry_ok]
  show ?thesis by (cases "registry_to_serialized gen_ops family_registry (mem family_world)") blast+
qed

text \<open>
  C22. Reading back what \<open>to_serialized\<close> wrote always succeeds, in any process, and makes a copy: the
  new registry has the same ids, and the node with an id has the value, the edge values and the
  parents (by id) of the original. The nodes of the reading process are untouched, and its reference
  counts stay exact.
\<close>

theorem registry_copy_isomorphic:
  fixes w2 :: "('n, 'e, 'k, 's) world"
  assumes "slot_map ops" "world_ok ops w S W R V" "registry_ok ops Rg" "registry_to_serialized ops Rg (mem w) = Inr sr"
    and "alloc_ok al" "world_ok ops w2 S2 W2 R2 V2"
  shows "\<exists>Rg' all w'. registry_from_serialized al ops sr w2 = Some (Inr ((Rg', all), w')) \<and>
    registry_ok ops Rg' \<and> world_ok ops w' (mset (sec_values all) + S2) (slot_refs ops Rg' + W2) R2 V2 \<and>
    abs_graph (mem w2) \<subseteq>\<^sub>m abs_graph (mem w') \<and> dom (vals (reg_nodes Rg')) = dom (vals (reg_nodes Rg)) \<and>
    (\<forall>k a. vals (reg_nodes Rg) k = Some a \<longrightarrow> (\<exists>a' d. vals (reg_nodes Rg') k = Some a' \<and> sec_get k all = Some a' \<and>
       abs_graph (mem w) a = Some (resolved (vals (reg_nodes Rg)) d) \<and>
       abs_graph (mem w') a' = Some (resolved (vals (reg_nodes Rg')) d)))"
  by (rule slot_map.registry_copy [OF assms])

theorem registry_copy_isomorphic_witness:
  "\<exists>Rg' all w'. registry_from_serialized first_free gen_ops two_nodes family_world = Some (Inr ((Rg', all), w')) \<and>
     abs_graph (mem family_world) \<subseteq>\<^sub>m abs_graph (mem w')"
proof -
  obtain Rg all and w :: ex_world where
    "registry_from_serialized first_free gen_ops two_nodes family_world = Some (Inr ((Rg, all), w))" "registry_ok gen_ops Rg"
    "world_ok gen_ops w (mset (sec_values all) + {#0, 2#}) (slot_refs gen_ops Rg + {#}) {#0#} {#}"
    "registry_to_serialized gen_ops Rg (mem w) = Inr two_nodes"
    using gen.registry_roundtrip_ser [OF first_free_ok two_nodes_ok family_world_ok] by blast
  with registry_copy_isomorphic [OF gen.slot_map_axioms _ _ _ first_free_ok family_world_ok] show ?thesis by blast
qed

text \<open>
  C23. Every serialised registry whose parent ids exist and have no cycle is read without a panic
  (and the recursion ends), and writing the result gives the same serialised registry back.
\<close>

theorem read_write_identity:
  fixes w :: "('n, 'e, 'k, 's) world"
  assumes "slot_map ops" "alloc_ok al" "ser_ok ops (ser_nodes sr)" "world_ok ops w S W R V"
  shows "\<exists>Rg all w'. registry_from_serialized al ops sr w = Some (Inr ((Rg, all), w')) \<and>
    registry_ok ops Rg \<and> world_ok ops w' (mset (sec_values all) + S) (slot_refs ops Rg + W) R V \<and>
    registry_to_serialized ops Rg (mem w') = Inr sr"
  by (rule slot_map.registry_roundtrip_ser [OF assms])

theorem read_write_identity_witness:
  "\<exists>Rg all w'. registry_from_serialized first_free gen_ops two_nodes family_world = Some (Inr ((Rg, all), w')) \<and>
    registry_to_serialized gen_ops Rg (mem w') = Inr two_nodes"
  using read_write_identity [OF gen.slot_map_axioms first_free_ok two_nodes_ok family_world_ok] by blast



text \<open>
  C25. Writing a graph and reading it back, in any process, makes a copy of the graph, if the graph holds
  the parents of its nodes (as \<open>insert_ancestors\<close> makes it) or its nodes have no shared ancestors. Writing
  changes no node. Reading never panics: the copy has the same ids, and each node of the graph and each of
  its ancestors has its own copy, at an address that was free, with the same value, the same edge values and
  the copies of its parents. The nodes of the reading process are kept, and all reference counts stay exact.
\<close>

theorem history_copy_isomorphic:
  fixes w v :: "('n, 'e, 'k::linorder, 's) world"
  assumes "slot_map ops" "hist_inv ops g w S W R V" "closed_graph g (mem w) \<or> (\<forall>a\<in>graph_set g. unshared (mem w) a)"
    and "history_to_serialized ops g w = Inr (sh, w')" "alloc_ok al" "world_ok ops v S' W' R' V'"
  shows "hist_inv ops g w' S W R V \<and> abs_graph (mem w') = abs_graph (mem w) \<and>
    (\<exists>g' v' C. history_from_serialized al ops sh v = Some (Inr (g', v')) \<and> hist_inv ops g' v' S' W' R' V' \<and>
      get_node g' = C \<circ>\<^sub>m get_node g \<and> copied C (anc_nodes g (mem w)) (abs_graph (mem w)) (abs_graph (mem v')) \<and>
      abs_graph (mem v) \<subseteq>\<^sub>m abs_graph (mem v') \<and> (\<forall>a. a \<in> ran C \<longrightarrow> abs_graph (mem v) a = None))"
proof -
  have "world_ok ops w (graph_own g + S) W (add_mset (hg_registry g) R) V" using assms(2) by (simp add: hist_inv_def)
  then have "acyclic (parents (mem w))" by (intro shape_inv_acyclic world_ok_shape)
  with assms(3) closed_graph_anc(1) unshared_anc(1) have closed: "anc_closed g (mem w)" by blast
  from history_to_serialized_data(1,2) [OF assms(1,2) closed assms(4)] history_copy [OF assms(1,2) closed assms(4-6)]
  show ?thesis using same_nodes_abs by blast
qed

theorem history_copy_isomorphic_witness:
  "\<exists>sh w' g' v' C. history_to_serialized gen_ops family_graph family_graph_world = Inr (sh, w') \<and>
     history_from_serialized first_free gen_ops sh family_world = Some (Inr (g', v')) \<and> get_node g' = C \<circ>\<^sub>m get_node family_graph"
proof -
  obtain sh w' where "history_to_serialized gen_ops family_graph family_graph_world = Inr (sh, w')" using family_graph_written by blast
  with history_copy_isomorphic [OF gen.slot_map_axioms family_graph_inv _ this first_free_ok family_world_ok] family_graph_closed
  show ?thesis by blast
qed

text \<open>
  C26. Writing a node through a registry always ends. It panics only if an ancestor names another registry, or
  if something else in the registry is dead or has a parent that is neither registered nor an ancestor of the
  node (the node is not \<open>node_writable\<close>). Otherwise no node changes, the registry handle is given back, and
  reading in any process makes a copy of the node and of all its ancestors, of which the caller holds the
  copy of the node; the nodes of the reading process are kept and all reference counts stay exact.
\<close>

theorem node_copy_isomorphic:
  fixes w :: "('n, 'e, 'k::linorder, 's) world"
  assumes "slot_map ops" "world_ok ops w S W (add_mset r R) V" "a \<in># S"
  shows "\<exists>res. relrc_to_serialized ops a r w = Some res \<and>
    (case res of
       Inl p \<Rightarrow> p = Expect ''valid node'' \<and> \<not> node_writable a r w \<or>
         p = Expect ''node not registered'' \<and> (\<exists>b r'. (b, a) \<in> (parents (mem w))\<^sup>* \<and> node_registry b (mem w) = Some r' \<and> r' \<noteq> r)
     | Inr (s, w') \<Rightarrow> node_writable a r w \<and> world_ok ops w' S W R V \<and> abs_graph (mem w') = abs_graph (mem w) \<and>
         (\<forall>al (v :: ('n, 'e, 'k, 's) world) S' W' R' V'. alloc_ok al \<longrightarrow> world_ok ops v S' W' R' V' \<longrightarrow>
           (\<exists>a' v' C. relrc_from_serialized al ops s v = Some (Inr (a', v')) \<and> world_ok ops v' (add_mset a' S') W' R' V' \<and>
             C a = Some a' \<and> copied C {b. (b, a) \<in> (parents (mem w))\<^sup>*} (abs_graph (mem w)) (abs_graph (mem v')) \<and>
             abs_graph (mem v) \<subseteq>\<^sub>m abs_graph (mem v') \<and> abs_graph (mem v) a' = None)))"
proof -
  from relrc_to_serialized_outcome [OF assms] obtain res where res: "relrc_to_serialized ops a r w = Some res"
    and out: "case res of Inr _ \<Rightarrow> node_writable a r w
      | Inl p \<Rightarrow> p = Expect ''valid node'' \<and> \<not> node_writable a r w \<or>
          p = Expect ''node not registered'' \<and> (\<exists>b\<in>ancestors (mem w) a. foreign r b (mem w))" by blast
  show ?thesis
  proof (cases res)
    case (Inl p)
    with res out show ?thesis by auto
  next
    case (Inr x)
    obtain s w' where x: "x = (s, w')" by fastforce
    note copy = relrc_copy [OF assms res [unfolded Inr x]]
    obtain v0 :: "('n, 'e, 'k, 's) world" and S0 W0 R0 V0 where "world_ok ops v0 S0 W0 R0 V0" using assms(2) by blast
    with copy(1,2) [OF first_free_ok] have "world_ok ops w' S W R V" "abs_graph (mem w') = abs_graph (mem w)" by blast+
    with res out Inr x copy(3) show ?thesis by simp
  qed
qed

theorem node_copy_isomorphic_witness:
  "\<exists>s w' a' v'. relrc_to_serialized gen_ops 2 0 family_world = Some (Inr (s, w')) \<and>
     relrc_from_serialized first_free gen_ops s family_world = Some (Inr (a', v')) \<and> a' \<notin> {0, 1, 2}"
proof -
  have w: "world_ok gen_ops family_world {#0, 2#} {#} (add_mset 0 {#}) {#}" using family_world_ok by simp
  have f: "node_registry b (mem family_world) = Some r' \<Longrightarrow> r' = 0" for b r' by (simp add: family_node_registry split: if_splits)
  have "2 \<in># {#0, 2#}" by simp
  from node_copy_isomorphic [OF gen.slot_map_axioms w this] obtain s w' where
    s: "relrc_to_serialized gen_ops 2 0 family_world = Some (Inr (s, w'))"
    using family_node_writable f by (fastforce split: sum.splits)
  with node_copy_isomorphic [OF gen.slot_map_axioms w \<open>2 \<in># {#0, 2#}\<close>] first_free_ok family_world_ok obtain a' v' where
    "relrc_from_serialized first_free gen_ops s family_world = Some (Inr (a', v'))" "abs_graph (mem family_world) a' = None" by fastforce
  moreover have "abs_graph (mem family_world) x \<noteq> None" if "x \<in> {0, 1, 2}" for x
    using that by (auto simp: abs_graph_def family_world_eval family_eval cell_eval)
  ultimately show ?thesis using s by blast
qed

section \<open>Borrows\<close>

text \<open>
  C27. No call panics because of a \<open>RefCell\<close>: from a program that holds no borrow, every operation of nodes,
  registries, graphs and serialisation with its borrows does what the operation without them does,
  panics for its other reasons only, and leaves no cell borrowed.
\<close>

theorem calls_never_conflict:
  shows "with_parents_b al v ps (no_borrows, w) =
      (case with_parents al v ps (mem w) of (a, h) \<Rightarrow> Inr (a, no_borrows, w\<lparr>mem := h\<rparr>)) \<and>
    all_outgoing_weak_b a (no_borrows, w) =
      (case all_outgoing_weak a (mem w) of (es, h) \<Rightarrow> Inr (es, no_borrows, w\<lparr>mem := h\<rparr>)) \<and>
    all_outgoing_b a (no_borrows, w) = (case all_outgoing a (mem w) of (es, h) \<Rightarrow> Inr (es, no_borrows, w\<lparr>mem := h\<rparr>)) \<and>
    n_outgoing_b ops a (no_borrows, w) = (case n_outgoing ops a w of (n, w') \<Rightarrow> Inr (n, no_borrows, w')) \<and>
    relrc_registry_b a (no_borrows, w) = (case relrc_registry a w of (x, w') \<Rightarrow> Inr (x, no_borrows, w')) \<and>
    try_register_in_b ops a r (no_borrows, w) = (case try_register_in ops a r w of (x, w') \<Rightarrow> Inr (x, no_borrows, w')) \<and>
    relrc_drop_b ops a (no_borrows, w) = Inr ((), no_borrows, relrc_drop ops a w) \<and>
    hg_parents_b g nid (no_borrows, w) = Inr (hg_parents g nid w, no_borrows, w) \<and>
    hg_children_b ops g nid (no_borrows, w) = (case hg_children ops g nid w of (ks, w') \<Rightarrow> Inr (ks, no_borrows, w')) \<and>
    insert_node_b ops a g (no_borrows, w) = (case insert_node ops a (g, w) of (x, g', w') \<Rightarrow> Inr ((x, g'), no_borrows, w')) \<and>
    insert_ancestors_b ops a g (no_borrows, w) =
      map_option (map_sum id (\<lambda>(x, g', w'). ((x, g'), no_borrows, w'))) (insert_ancestors ops a (g, w)) \<and>
    history_from_nodes_b al ops ns (no_borrows, w) =
      (case history_from_nodes al ops ns w of (g', w') \<Rightarrow> Inr (g', no_borrows, w')) \<and>
    history_drop_b ops g (no_borrows, w) = Inr ((), no_borrows, history_drop ops g w) \<and>
    relrc_to_serialized_b ops a r (no_borrows, w) =
      map_option (map_sum id (\<lambda>(x, w'). (x, no_borrows, w'))) (relrc_to_serialized ops a r w) \<and>
    history_to_serialized_b ops g (no_borrows, w) =
      map_sum id (\<lambda>(x, w'). (x, no_borrows, w')) (history_to_serialized ops g w) \<and>
    history_from_serialized_b al ops sh (no_borrows, w) =
      map_option (map_sum id (\<lambda>(x, w'). (x, no_borrows, w'))) (history_from_serialized al ops sh w) \<and>
    relrc_from_serialized_b al ops sr (no_borrows, w) =
      map_option (map_sum id (\<lambda>(x, w'). (x, no_borrows, w'))) (relrc_from_serialized al ops sr w)"
  by (intro conjI insert_ancestors_b_idle relrc_to_serialized_b_idle history_to_serialized_b_idle
      history_from_serialized_b_idle relrc_from_serialized_b_idle) (simp_all add: run_simps)

text \<open>
  C28. When borrows are held, the panics are these. A program can hold borrows of registries only. Dropping a
  handle panics exactly if a node is registered whose registry is borrowed mutably, or borrowed
  and knows the node, and this node is no ancestor of what is still held; registering a node panics exactly if
  the registry is borrowed and the node may join it; looking up a node id in a graph exactly if the registry is
  borrowed mutably. Inside the crate, making a child panics exactly if the outgoing edges of one of its parents
  are borrowed.
\<close>

theorem borrow_panics_exact:
  assumes "slot_map ops" "alloc_ok al" "reachable al ops (w, add_mset a S, W, R)" "cells_idle F"
  shows "(relrc_drop_b ops a (F, w) = Inr (u, st) \<longleftrightarrow>
      (\<forall>x. borrow_conflict F w x \<longrightarrow> (\<exists>d\<in>#S. (x, d) \<in> (parents (mem w))\<^sup>*)) \<and> st = (F, relrc_drop ops a w)) \<and>
    try_register_in_b ops b r (F, w) =
      (if (node_registry b (mem w) = None \<or> node_registry b (mem w) = Some r) \<and> F (RegistryCell r) \<noteq> 0 then Inl BorrowMutError
       else case try_register_in ops b r w of (k, w') \<Rightarrow> Inr (k, F, w')) \<and>
    get_node_id_b g b (F, w) =
      (if F (RegistryCell (hg_registry g)) < 0 then Inl BorrowError else Inr (get_node_id g b w, F, w)) \<and>
    ((\<exists>p. with_parents_b al v ps (G, w) = Inl p) \<longleftrightarrow>
      (\<exists>b\<in>fst ` set ps. b \<noteq> fst (with_parents al v ps (mem w)) \<and> G (OutgoingOf b) \<noteq> 0))"
proof (intro conjI)
  have ok: "world_ok ops w (add_mset a S) W R {#}" using reachable_ok [OF assms(1-3)] by simp
  have "deref (mem (relrc_drop ops a w)) x \<noteq> None \<longleftrightarrow> (\<exists>d\<in>#S. (x, d) \<in> (parents (mem w))\<^sup>*)"
    if "borrow_conflict F w x" for x
  proof -
    have "deref (mem w) x \<noteq> None" using that by (auto simp: borrow_conflict_def node_registry_def split: option.splits)
    with effect_deref [OF relrc_drop_ok [OF assms(1) ok] relrc_drop_effect [OF assms(1) ok], of x]
    show ?thesis by (simp split: if_splits)
  qed
  then show "relrc_drop_b ops a (F, w) = Inr (u, st) \<longleftrightarrow>
      (\<forall>x. borrow_conflict F w x \<longrightarrow> (\<exists>d\<in>#S. (x, d) \<in> (parents (mem w))\<^sup>*)) \<and> st = (F, relrc_drop ops a w)"
    using drop_tasks_b_result [OF assms(4), of ops "[DropRelRc a]" w u st] unfolding relrc_drop_b_def relrc_drop_def by blast
  show "try_register_in_b ops b r (F, w) =
      (if (node_registry b (mem w) = None \<or> node_registry b (mem w) = Some r) \<and> F (RegistryCell r) \<noteq> 0 then Inl BorrowMutError
       else case try_register_in ops b r w of (k, w') \<Rightarrow> Inr (k, F, w'))"
    by (auto simp: try_register_in_b_run [OF assms(4)] try_set_register_def Let_def split: option.splits)
  show "(\<exists>p. with_parents_b al v ps (G, w) = Inl p) \<longleftrightarrow>
      (\<exists>b\<in>fst ` set ps. b \<noteq> fst (with_parents al v ps (mem w)) \<and> G (OutgoingOf b) \<noteq> 0)"
    by (simp add: with_parents_b_run Let_def split: prod.splits) blast
qed (simp add: run_simps)

theorem borrow_panics_exact_witness:
  "\<not> (\<exists>u st. relrc_drop_b gen_ops 2 ((\<lambda>_. 0)(RegistryCell 0 := 1), family_world) = Inr (u, st))"
proof -
  let ?F = "(\<lambda>_. 0)(RegistryCell 0 := 1) :: flags"
  have r: "reachable first_free gen_ops (family_world, add_mset 2 {#0#}, {#}, {#0#})"
    using family_world_reachable by (simp add: add_mset_commute)
  have "cells_idle ?F" by (simp add: cells_idle_def)
  moreover have "borrow_conflict ?F family_world 2"
    by (simp add: borrow_conflict_def family_node_registry family_registry_at strong_count_def)
      (simp add: get_id_def as_ptr_def family_registry_def family_world_eval cell_eval)
  moreover have "(2, 0) \<notin> (parents (mem family_world))\<^sup>*"
    by (auto elim: rtranclE simp: parents_all_parents family_parents)
  ultimately show ?thesis
    using borrow_panics_exact [OF gen.slot_map_axioms first_free_ok r, of ?F] by auto
qed

section \<open>The unit tests and the example program\<close>

text \<open>
  The unit tests of the repository, run on the model: those of registries, nodes, history graphs, detached
  objects and resolvers pass. The four tests of serialisation fail: three compare with snapshots that
  print a registry without the field \<open>nodes\<close> of \<open>SerializedRegistry\<close> (in one of them also the grandchild has the
  first id although \<open>insert_ancestors\<close> registers parents first), and one unwraps the id of an original node in the
  registry of its copy. The example program,
  run on two processes until neither has a step left, ends with its assertions satisfied: the processes report 4 and 2 objects
  before the transfer and 4 each after it.
\<close>

theorem unit_tests_outcome:
  "run_test (test_register_and_get first_free gen_ops) = Inr () \<and>
   run_test (test_duplicate_registration first_free gen_ops) = Inr () \<and>
   run_test (test_get_id first_free gen_ops) = Inr () \<and>
   run_test (test_cleanup_dead_references first_free gen_ops) = Inr () \<and>
   run_test (test_history_graph first_free gen_ops) = Inr () \<and>
   run_test (test_history_graph_serialization first_free gen_ops gen_printer) = Inr () \<and>
   run_test (test_relrc_serialization first_free gen_ops gen_printer) = Inl (Explicit ''snapshot assertion'') \<and>
   run_test (test_relrc_with_multiple_parents_serialization first_free gen_ops gen_printer) = Inl (Explicit ''snapshot assertion'') \<and>
   run_test (test_relrc_with_parents_serialization first_free gen_ops gen_printer) = Inl (Explicit ''snapshot assertion'') \<and>
   run_test (test_history_graph_serialization2 first_free gen_ops gen_printer file2) = Inl Unwrap \<and>
   run_test (test_detach_and_attach_diamond first_free gen_ops value_hash) = Inr () \<and>
   test_resolver_equivalence = Inr () \<and> test_resolver_edge_update = Inr () \<and>
   example_main first_free gen_ops example_hash list_process [] 29 2 = Inr [4, 2, 4, 4]"
  by (simp add: test_register_and_get_passes test_duplicate_registration_passes test_get_id_passes
      test_cleanup_dead_references_passes test_history_graph_passes test_history_graph_serialization_passes
      test_relrc_serialization_fails test_relrc_with_multiple_parents_serialization_fails
      test_relrc_with_parents_serialization_fails test_history_graph_serialization2_fails
      test_detach_and_attach_diamond_passes resolver_tests_pass example_runs)

section \<open>The \<open>petgraph\<close> view\<close>



section \<open>Detached objects\<close>

text \<open>
  C31. \<open>detach\<close> always ends and collects exactly the object and those ancestors that are reached
  from it without passing an object the receiver has, each once, in the order of the hashes, with
  its value and its incoming edges, parents given by their hashes, if different ancestors of the object have
  different hashes.
\<close>

theorem detach_collects_ancestors:
  assumes "world_ok ops w S W R V" "obj \<in># S" "hash_inj hash_id obj (mem w)"
  shows "current (detach hash_id obj D (mem w)) = hash_id obj (mem w) \<and>
    btree_ok (all_data (detach hash_id obj D (mem w))) \<and>
    (btree_get i (all_data (detach hash_id obj D (mem w))) = Some d \<longleftrightarrow>
      (\<exists>a x. i = hash_id a (mem w) \<and> i \<notin> D \<and> (a, obj) \<in> (upto_parents hash_id D (mem w))\<^sup>* \<and>
        abs_graph (mem w) a = Some x \<and> d = hashed hash_id (mem w) x))"
proof -
  have "deref (mem w) obj \<noteq> None"
    using owned_strong [OF assms(1)] assms(2) alive_iff_deref [OF world_okD(5) [OF assms(1)]] by fastforce
  from Detached_new_data [OF assms(1) this assms(3)] show ?thesis by (simp add: detach_def Detached_new_def)
qed

theorem detach_collects_ancestors_witness:
  "btree_get 0 (all_data (detach addr_hash 2 {1} triangle)) = Some \<lparr>det_value = 10, det_incoming = []\<rparr> \<longleftrightarrow>
     (\<exists>a x. 0 = addr_hash a triangle \<and> 0 \<notin> {1 :: nat} \<and> (a, 2) \<in> (upto_parents addr_hash {1} triangle)\<^sup>* \<and>
        abs_graph triangle a = Some x \<and> \<lparr>det_value = 10, det_incoming = []\<rparr> = hashed addr_hash triangle x)"
  using detach_collects_ancestors [of gen_ops "\<lparr>mem = triangle, regs = []\<rparr>" "{#2#}" "{#}" "{#}" "{#}" 2 addr_hash "{1}" 0 "\<lparr>det_value = 10, det_incoming = []\<rparr>"]
    triangle_ok by (simp add: addr_hash_inj)



text \<open>
  C33. Reading always ends, whatever the input is: \<open>from_serialized\<close> of a registry, a graph or a node
  returns or panics, even if parent ids are unknown or form a cycle, and so does \<open>attach\<close>, even if the
  parent hashes form a cycle. The bounds on the recursion and on the number of traversal events are
  never reached.
\<close>

theorem readers_terminate:
  fixes w :: "('n, 'e, 'k, 's) world"
  assumes "slot_map ops"
  shows "registry_from_serialized al ops sr w \<noteq> None \<and> history_from_serialized al ops sh w \<noteq> None \<and>
    relrc_from_serialized al ops s w \<noteq> None \<and> attach al ops hash_id det objs w \<noteq> None"
proof -
  have "attach al ops hash_id det objs w \<noteq> None"
    using attach_traversal_ends by (auto simp: attach_def Let_def split: prod.splits option.splits)
  with slot_map.from_serialized_ends [OF assms] show ?thesis by blast
qed

theorem readers_terminate_witness:
  "registry_from_serialized first_free gen_ops two_nodes family_world \<noteq> None \<and>
   attach first_free gen_ops addr_hash (detach addr_hash 2 {} triangle) [] \<lparr>mem = triangle, regs = [] :: (gen_key, gen_slots) Registry heap\<rparr> \<noteq> None"
  using readers_terminate [OF gen.slot_map_axioms] by blast

text \<open>
  C34. The documentation of \<open>attach\<close> says that \<open>attaches_to\<close> tells whether it succeeds. Here the
  program holds a node whose parents are a node and that node's own parent: detached from nothing
  it needs no other object, so that \<open>attaches_to\<close> holds, but \<open>attach\<close> panics, because the shared
  parent is marked as visited when it is pushed and made only after the node that needs it.
\<close>

theorem attach_panics_on_shared:
  "\<exists>(w :: ex_world) det. reachable first_free gen_ops (w, {#2#}, {#}, {#}) \<and> det = detach addr_hash 2 {} (mem w) \<and>
     attaches_to det [] \<and> attach first_free gen_ops addr_hash det [] w = Some (Inl Unwrap)"
proof (intro exI conjI)
  show "reachable first_free gen_ops (\<lparr>mem = triangle, regs = []\<rparr>, {#2#}, {#}, {#})" by (rule triangle_reachable)
  show "attaches_to (detach addr_hash 2 {} triangle) []"
    by (simp add: triangle_detached attaches_to_iff btree_values_def det_parents_def btree_contains_key_def btree_get_def)
qed (simp_all add: triangle_panics)

section \<open>Transfer between processes\<close>

text \<open>
  C35. Over every MPI library that keeps the order of messages with the same tag, and when hashes
  survive the conversion to machine words, a message is received under its own tag as it was
  sent, before later messages and past earlier ones with other tags, which stay under way. There
  is one exception: a request for a hash whose word is 0 is received as \<open>Done\<close>.
\<close>

theorem message_roundtrip:
  assumes "mpi_library P packets" "\<forall>i. of_usize (to_usize i) = i" "\<forall>p\<in>set (packets q0). fst p \<noteq> tag_as_i32 (tag m)"
    and "packets q' = packets (send (recv_relrc_async P mode) to_usize m q0) @ q"
  shows "(\<exists>q''. receive (recv_relrc_async P mode') of_usize (tag m) q' = Some (Inr (sent_as to_usize m), q'') \<and> packets q'' = packets q0 @ q) \<and>
    (sent_as to_usize m = m \<longleftrightarrow> (\<forall>i. m = RequestRelRc i \<longrightarrow> to_usize i \<noteq> 0))"
proof -
  note ch = mpi_library.recv_mode_channel [OF assms(1)]
  have "packets q' = packets (send (recv_relrc_async P mode') to_usize m q0) @ q"
    using assms(4) by (simp add: mpi_channel.send_abs [OF ch])
  with mpi_channel.receive_sent [OF ch _ _ assms(3)] assms(2)
  have "\<exists>q''. receive (recv_relrc_async P mode') of_usize (tag m) q' = Some (Inr (sent_as to_usize m), q'') \<and> packets q'' = packets q0 @ q"
    by blast
  moreover have "sent_as to_usize m = m \<longleftrightarrow> (\<forall>i. m = RequestRelRc i \<longrightarrow> to_usize i \<noteq> 0)"
    by (auto simp: sent_as_def split: MPIMessage.splits)
  ultimately show ?thesis by blast
qed

theorem message_roundtrip_witness:
  "\<exists>q''. receive (recv_relrc_async list_process Async) id TagIncomingEdge [(0, WordBuf [7]), (2, WordBuf [5, 6])] =
     Some (Inr (IncomingEdge [5, 6] :: (nat, nat, usize) MPIMessage), q'')"
  using message_roundtrip [OF list_lib.mpi_library_axioms, of id id "[(0, WordBuf [7])]" "IncomingEdge [5, 6] :: (nat, nat, usize) MPIMessage"
      "[(0, WordBuf [7]), (2, WordBuf [5, 6])]" Standard "[]" Async]
  by (auto simp: sent_as_def recv_relrc_async_def list_send)

text \<open>
  C36. The tags type the communication. When all packets under way on a channel are well typed, they stay so
  when a message is sent and when one is received; what is received for a tag is a message of this tag, never
  a panic; and receiving a whole object does not panic either. In particular none of the panics for an
  unexpected message can happen.
\<close>

theorem receive_typed:
  assumes "mpi_library P packets" "list_all well_typed (packets q)"
  shows "list_all well_typed (packets (send (recv_relrc_async P mode) to_usize m q)) \<and>
    (receive (recv_relrc_async P mode) of_usize t q = Some (x, q1) \<longrightarrow> (\<exists>m'. x = Inr m' \<and> tag m' = t) \<and> list_all well_typed (packets q1)) \<and>
    (mpi_recv (recv_relrc_async P mode) of_usize q = Some (y, q2) \<longrightarrow> (\<exists>i d. y = Inr (i, d)) \<and> list_all well_typed (packets q2))"
proof -
  note ch = mpi_library.recv_mode_channel [OF assms(1)]
  show ?thesis
    using mpi_channel.send_typed [OF ch assms(2)] mpi_channel.receive_well_typed [OF ch assms(2)] mpi_channel.mpi_recv_typed [OF ch assms(2)]
    by blast
qed

theorem receive_typed_witness:
  "\<exists>m' :: (nat, nat, usize) MPIMessage. receive (recv_relrc_async list_process Async) id TagAck [(0, WordBuf [7]), (100, WordBuf [5])] =
     Some (Inr m', [(0, WordBuf [7])]) \<and> tag m' = TagAck"
proof -
  let ?q = "[(0, WordBuf [7]), (100, WordBuf [5])] :: (nat, nat) packet list"
  obtain x :: "(nat, nat, usize) MPIMessage res" where x: "receive (recv_relrc_async list_process Async) id TagAck ?q = Some (x, [(0, WordBuf [7])])"
    by (simp add: receive_def recv_relrc_async_def MPIAsyncSendRecv_def list_process_def)
  have "list_all well_typed (id ?q)" by (simp add: well_typed_def tag_try_from_def datatype_defs)
  from receive_typed [OF list_lib.mpi_library_axioms this, THEN conjunct2, THEN conjunct1, rule_format, OF x] x show ?thesis by auto
qed

text \<open>
  C37. A transfer of an object that a program holds takes a bounded number of steps, over every MPI
  library that keeps the order of messages and in every mode: six for each ancestor (including the
  object) and five more, in whatever order the two processes run. The hashes of the ancestors are different machine words; they
  may include the word 0.
\<close>

theorem transfer_bounded:
  assumes "world_ok ops w S W R V" "relrc \<in># S" "hash_inj hash_id relrc (mem w)" "\<forall>i. of_usize (to_usize i) = i"
    and "mpi_library P packets" "mpi_library P' packets" "packets q1 = []" "packets q2 = []"
    and "send_relrc_async P hash_id mode relrc (mem w) = Inr (dest, det)"
    and "(mpi_step dest (recv_relrc_async P' mode') to_usize of_usize det attach_to ^^ k) (mpi_init q1 q2) s"
  shows "k \<le> 6 * n_ancestors det + 5"
proof -
  obtain room where room: "room_for det room" using room_for_exists by blast
  from mpi_library_bounded [OF assms(5)] mpi_library_bounded [OF assms(6)]
  have "mpi_transfer dest (recv_relrc_async P' mode') packets room to_usize of_usize det"
    by (rule relrc_transfer [OF assms(1-4) _ _ assms(9) refl room])
  from mpi_transfer.run_phase [OF this assms(7,8,10)] show ?thesis by auto
qed

theorem transfer_bounded_witness:
  "(mpi_step list_sr (MPIAsyncSendRecv list_process) id id (detach (word_hash 1) 2 {} triangle) [] ^^ 1)
     (mpi_init [] []) ((mpi_init [] [])\<lparr>rcv_pc := RcvAwaitObject\<rparr>) \<and>
   (1 :: nat) \<le> 6 * n_ancestors (detach (word_hash 1) 2 {} triangle) + 5"
proof -
  let ?step = "mpi_step list_sr (MPIAsyncSendRecv list_process) id id (detach (word_hash 1) 2 {} triangle) []"
  have "?step (mpi_init [] []) ((mpi_init [] [])\<lparr>rcv_pc := RcvAwaitObject\<rparr>)"
    by (rule mpi_step.receiver) (simp add: mpi_init_def recv_step_def loop_head_def)
  then have step: "(?step ^^ 1) (mpi_init [] []) ((mpi_init [] [])\<lparr>rcv_pc := RcvAwaitObject\<rparr>)" by (simp only: relpowp_1)
  from transfer_bounded [where mode = Standard and mode' = Async and P = list_process and P' = list_process and packets = id and
      dest = list_sr and hash_id = "word_hash 1" and relrc = 2, OF triangle_ok _ _ _ list_lib.mpi_library_axioms list_lib.mpi_library_axioms] step
  show ?thesis by (simp add: word_hash_inj [OF triangle_object(1)] send_relrc_async_def recv_relrc_async_def)
qed

text \<open>
  C38. A transfer completes, if the hashes of the ancestors of the object are different machine words other than 0 and the
  buffers of the MPI library have room for the messages of any one of them (three messages and one for each
  parent): in every state that a run reaches no process has panicked, no buffer holds more than the messages of one
  object or one request, what the receiver has is part of what was detached, and either some process can move or both
  have finished, the receiver with enough data to attach the object. Of a send into a full buffer nothing is assumed.
\<close>

theorem transfer_completes:
  assumes "world_ok ops w S W R V" "relrc \<in># S" "hash_inj hash_id relrc (mem w)" "\<forall>i. of_usize (to_usize i) = i"
    and "\<forall>a. (a, relrc) \<in> (parents (mem w))\<^sup>* \<longrightarrow> to_usize (hash_id a (mem w)) \<noteq> 0"
    and "mpi_bounded P packets room" "mpi_bounded P' packets room" "packets q1 = []" "packets q2 = []"
    and "send_relrc_async P hash_id mode relrc (mem w) = Inr (dest, det)" "recv_relrc_async P' mode' = src" "room_for det room"
    and "(mpi_step dest src to_usize of_usize det attach_to)\<^sup>*\<^sup>* (mpi_init q1 q2) s"
  shows "(\<forall>p. snd_pc s \<noteq> SndPanicked p \<and> rcv_pc s \<noteq> RcvPanicked p) \<and>
    (packets (to_rcv s) \<noteq> [] \<longrightarrow>
      (\<exists>d\<in>set (btree_values (all_data det)). length (packets (to_rcv s)) = length (det_incoming d) + 3)) \<and>
    length (packets (to_snd s)) \<le> 1 \<and>
    (\<forall>r. rcv_det s = Some r \<longrightarrow> part_of r det) \<and>
    ((\<exists>s'. mpi_step dest src to_usize of_usize det attach_to s s') \<or>
     (snd_pc s = SndFinished \<and> rcv_pc s = RcvFinished \<and> (\<exists>r. rcv_det s = Some r \<and> part_of r det \<and> attaches_to r attach_to)))"
proof -
  note tr = relrc_transfer [OF assms(1-4,6,7,10-12)]
  from mpi_transfer.reaches_phase [OF tr assms(8,9,13)] obtain n where
    "mpi_phase to_usize det attach_to n (abs_state packets s)" by blast
  from mpi_phase_packets(1,2) [OF this] mpi_transfer.run_outcome [OF tr assms(8,9) send_relrc_sendable [OF assms(1-3,5,10)] assms(13)]
  show ?thesis by simp
qed

theorem transfer_completes_witness:
  "\<exists>s'. mpi_step (MPIBufferedSendRecv (bounded_process 5)) (MPIStandardSendRecv (bounded_process 5)) id id
     (detach (word_hash 1) 2 {} triangle) [] (mpi_init [] []) s'"
  using transfer_completes [where mode = Buffered and mode' = Standard and of_usize = id and to_usize = id and P = "bounded_process 5" and
      P' = "bounded_process 5" and packets = id and ?q1.0 = "[]" and ?q2.0 = "[]" and relrc = 2 and hash_id = "word_hash 1" and
      dest = "MPIBufferedSendRecv (bounded_process 5)" and det = "detach (word_hash 1) 2 {} triangle" and attach_to = "[]" and
      src = "MPIStandardSendRecv (bounded_process 5)",
      OF triangle_ok _ _ _ _ bounded_lib.mpi_bounded_axioms bounded_lib.mpi_bounded_axioms _ _ _ _ triangle_room(2) rtranclp.rtrancl_refl]
  by (simp add: word_hash_inj [OF triangle_object(1)] word_hash_nonzero [OF triangle_object(1), simplified] send_relrc_async_def
      recv_relrc_async_def mpi_init_def)

text \<open>
  C39. A transfer delivers the object, under the conditions of C38 and if no ancestor of the object that the receiver
  lacks has two children among them, the receiver does not have the object itself, and hashes depend on a node and
  its ancestors only. When no process can move any more, as is the case after boundedly many
  steps, the receiver attaches what it has received without a panic: the node it returns and the nodes made for the
  ancestors it did not have are copies of those of
  the sender (same values, same edge values, parents with the same hashes), the nodes that the receiving
  process still holds are unchanged, and its reference counts stay exact.
\<close>

theorem transfer_delivers:
  fixes w v :: "('n, 'e, 'k, 's) world"
  assumes "slot_map ops" "world_ok ops w S W R V" "relrc \<in># S" "hash_inj hash_id relrc (mem w)" "\<forall>i. of_usize (to_usize i) = i"
    and "\<forall>a. (a, relrc) \<in> (parents (mem w))\<^sup>* \<longrightarrow> to_usize (hash_id a (mem w)) \<noteq> 0"
    and "mpi_bounded P packets room" "mpi_bounded P' packets room" "packets q1 = []" "packets q2 = []"
    and "send_relrc_async P hash_id mode relrc (mem w) = Inr (dest, det)" "recv_relrc_async P' mode' = src" "room_for det room"
    and "alloc_ok al" "hash_local hash_id" "world_ok ops v (mset objs + S') W' R' V'" "recv_start ops hash_id objs v = (attach_to, v1)"
    and "det_forest det attach_to" "btree_get (hash_id relrc (mem w)) attach_to = None"
    and "(mpi_step dest src to_usize of_usize det attach_to)\<^sup>*\<^sup>* (mpi_init q1 q2) s" "\<nexists>s'. mpi_step dest src to_usize of_usize det attach_to s s'"
  shows "\<exists>r a v' N g. rcv_det s = Some r \<and> recv_finish al ops hash_id r attach_to v1 = Some (Inr (a, v')) \<and>
    world_ok ops v' (add_mset a S') W' R' V' \<and> N (hash_id relrc (mem w)) = Some a \<and>
    (\<forall>i b. btree_get i attach_to = Some b \<longrightarrow> N i = Some b) \<and> abs_graph (mem v1) \<subseteq>\<^sub>m g \<and>
    abs_graph (mem v') = collect_garbage (add_mset a S') g \<and> hash_copy hash_id (mem w) attach_to N g"
proof -
  note det = send_relrc_det [OF assms(2,3,11)]
  from mpi_transfer.run_outcome [OF relrc_transfer [OF assms(2-5,7,8,11-13)] assms(9,10) send_relrc_sendable [OF assms(2-4,6,11)] assms(20)]
    assms(21)
  obtain r where r: "rcv_det s = Some r" "part_of r det" "attaches_to r attach_to" by blast
  from slot_map.recv_finish_copy [OF assms(1,2) det(1) assms(4,14-17) det(2) assms(18,19) r(2,3)] r(1) show ?thesis by blast
qed

theorem transfer_delivers_witness:
  "\<exists>s r a v'. chain.step\<^sup>*\<^sup>* (mpi_init [] []) s \<and> rcv_det s = Some r \<and>
     recv_finish first_free gen_ops (word_hash 1) r [] \<lparr>mem = triangle, regs = []\<rparr> = Some (Inr (a, v')) \<and> world_ok gen_ops v' {#a, 2#} {#} {#} {#}"
proof -
  let ?P = "bounded_process 4 :: (nat, nat, (nat, nat) packet list) mpi_process"
  have send: "send_relrc_async ?P (word_hash 1) Standard 1 (mem chain_world) =
      Inr (MPIStandardSendRecv ?P, detach (word_hash 1) 1 {} (rc_clone 1 triangle))"
    by (simp add: send_relrc_async_def)
  have nz: "\<forall>a. (a, 1) \<in> (parents (mem chain_world))\<^sup>* \<longrightarrow> id (word_hash 1 a (mem chain_world)) \<noteq> 0" using chain_hash(3) by simp
  have held: "1 \<in># {#1, 2#}" by simp
  have inj: "hash_inj (word_hash 1) 1 (mem chain_world)" using chain_hash(1) by simp
  from chain.run_ends [of "[]" "[]"] obtain s where s: "chain.step\<^sup>*\<^sup>* (mpi_init [] []) s" "\<nexists>s'. chain.step s s'" by auto
  have "\<exists>r a v' N g. rcv_det s = Some r \<and> recv_finish first_free gen_ops (word_hash 1) r [] \<lparr>mem = triangle, regs = []\<rparr> = Some (Inr (a, v')) \<and>
    world_ok gen_ops v' (add_mset a {#2#}) {#} {#} {#} \<and> N (word_hash 1 1 (mem chain_world)) = Some a \<and>
    (\<forall>i b. btree_get i [] = Some b \<longrightarrow> N i = Some b) \<and> abs_graph (mem (\<lparr>mem = triangle, regs = []\<rparr> :: ex_world)) \<subseteq>\<^sub>m g \<and>
    abs_graph (mem v') = collect_garbage (add_mset a {#2#}) g \<and> hash_copy (word_hash 1) (mem chain_world) [] N g"
    by (rule transfer_delivers [OF gen.slot_map_axioms chain_world_ok held inj _ nz bounded_lib.mpi_bounded_axioms bounded_lib.mpi_bounded_axioms
          _ _ send _ chain_room first_free_ok chain_hash(2) _ _ chain_forest _ s, where mode' = Async and objs = "[]"])
      (use triangle_ok in \<open>simp_all add: recv_start_def recv_relrc_async_def drop_all_def\<close>)
  with s(1) show ?thesis by auto
qed

text \<open>
  C40. Why the hashes must not be 0. When an ancestor of the object has the hash 0, as a machine word, and the receiver needs it
  (it is reached from the object through parents that are not among those to attach to, and is not one of
  these itself), the transfer never completes, whatever the order of steps: the receiver does not finish, and when
  no process can move any more, as is the case after boundedly many steps, the sender has
  returned as if it had been told \<open>Done\<close>, while the receiver still waits for an object.
\<close>

theorem transfer_request_zero:
  assumes "world_ok ops w S W R V" "relrc \<in># S" "hash_inj hash_id relrc (mem w)" "\<forall>i. of_usize (to_usize i) = i"
    and "(a, relrc) \<in> {(p, c) \<in> parents (mem w). hash_id p (mem w) \<notin> set (btree_keys attach_to)}\<^sup>+"
    and "to_usize (hash_id a (mem w)) = 0"
    and "mpi_bounded P packets room" "mpi_bounded P' packets room" "packets q1 = []" "packets q2 = []"
    and "send_relrc_async P hash_id mode relrc (mem w) = Inr (dest, det)" "recv_relrc_async P' mode' = src" "room_for det room"
    and "(mpi_step dest src to_usize of_usize det attach_to ^^ k) (mpi_init q1 q2) s"
  shows "k \<le> 6 * n_ancestors det + 5 \<and> rcv_pc s \<noteq> RcvFinished \<and>
    ((\<nexists>s'. mpi_step dest src to_usize of_usize det attach_to s s') \<longrightarrow> snd_pc s = SndFinished \<and> rcv_pc s = RcvAwaitObject)"
proof -
  note tr = relrc_transfer [OF assms(1-4,7,8,11-13)] and det = send_relrc_det [OF assms(1,2,11)]
  from mpi_transfer.run_phase [OF tr assms(9,10,14)] obtain n where
    n: "n + k \<le> 6 * n_ancestors det + 5" "mpi_phase to_usize det attach_to n (abs_state packets s)" by blast
  from zero_unfinished [OF assms(1) det(1) assms(3,5,6) n(2) [unfolded det(2)]] have "rcv_pc s \<noteq> RcvFinished" by simp
  with n(1) mpi_transfer.phase_stop [OF tr n(2)] show ?thesis by auto
qed

theorem transfer_request_zero_witness:
  "\<exists>s. zero.step\<^sup>*\<^sup>* (mpi_init [] []) s \<and> snd_pc s = SndFinished \<and> rcv_pc s = RcvAwaitObject \<and> (\<nexists>s'. zero.step s s')"
proof -
  let ?P = "bounded_process 5 :: (nat, nat, (nat, nat) packet list) mpi_process" and ?w = "\<lparr>mem = triangle, regs = []\<rparr> :: ex_world"
  from zero.run_ends [of "[]" "[]"] obtain s where s: "zero.step\<^sup>*\<^sup>* (mpi_init [] []) s" "\<nexists>s'. zero.step s s'" by auto
  then obtain k where k: "(zero.step ^^ k) (mpi_init [] []) s" using rtranclp_imp_relpowp by metis
  have "(0, 2) \<in> {(p, c) \<in> parents (mem ?w). word_hash 0 p (mem ?w) \<notin> set (btree_keys [])}\<^sup>+"
    by (rule r_into_trancl) (auto simp: parents_all_parents all_parents_def all_incoming_def triangle_eval cell_eval image_iff)
  from transfer_request_zero [where P = ?P and P' = ?P and packets = id and room = 5 and mode = Buffered and mode' = Standard and
      hash_id = "word_hash 0" and w = ?w and to_usize = id and of_usize = id,
      OF triangle_ok _ _ _ this _ bounded_lib.mpi_bounded_axioms bounded_lib.mpi_bounded_axioms _ _ _ _ triangle_room(1) k] s
  show ?thesis by (auto simp: word_hash_inj [OF triangle_object(1)] word_hash_def send_relrc_async_def recv_relrc_async_def)
qed

section \<open>Equivalence resolvers\<close>

text \<open>
  The one resolver in the repository keeps what the trait promises: being equivalent is an equivalence
  relation, grouping the nodes by their key loses no equivalent ones (here it finds exactly them), an edge that
  is moved to an equivalent source is valid there, and moving it on to a third equivalent node gives the same edge
  as moving it there at once.
\<close>

theorem test_resolver_contract:
  "equivp (equivalent TestResolver) \<and>
   filter (equivalent TestResolver a) (filter (\<lambda>b. node_key TestResolver b = node_key TestResolver a) xs) =
     filter (equivalent TestResolver a) xs \<and>
   (node_key TestResolver a = node_key TestResolver b \<longleftrightarrow> equivalent TestResolver a b) \<and>
   (try_merge_mapping TestResolver v es v' es' = Inr m \<longrightarrow> test_out_ok v' (move_edge_source TestResolver m e) \<and>
     (\<forall>v'' es'' m'. try_merge_mapping TestResolver v' es' v'' es'' = Inr m' \<longrightarrow>
        try_merge_mapping TestResolver v es v'' es'' = Inr m' \<and>
        move_edge_source TestResolver m' (move_edge_source TestResolver m e) = move_edge_source TestResolver m' e))"
proof -
  have "equivp (equivalent TestResolver)"
    using test_resolver.equiv_refl test_resolver.equiv_sym test_resolver.equiv_trans
    by (intro equivpI reflpI sympI transpI) blast+
  then show ?thesis
    using test_resolver.candidates_complete [of a xs] by (auto simp: test_out_ok_def split: if_splits)
qed

end
